(* ===== verification/Prelude.thy ===== *)
theory Prelude
  imports Main "HOL-Library.Word" "HOL-Library.Sublist" "HOL-Library.Multiset"
    "HOL-Library.Monad_Syntax" "HOL-Library.Code_Target_Nat"
begin

text \<open>
  The base of the library: Go's fixed-width integers, slices with their bounds check, the
  little- and big-endian readers of \<^verbatim>\<open>encoding/binary\<close>, bytes as characters, and the fact
  collections the component theories extend. A Go expression that can panic has an option
  type: \<open>None\<close> is the panic. A Go string is a \<open>string\<close>: a list of bytes.
\<close>

unbundle bit_operations_syntax

type_synonym u8 = "8 word"
type_synonym u16 = "16 word"
type_synonym u32 = "32 word"
type_synonym u64 = "64 word"

named_theorems slice_simps \<open>slices and byte readers that stay in bounds\<close>
named_theorems codec_simps \<open>round trips of encoders and decoders\<close>
named_theorems string_simps \<open>the string functions on the strings a record is built from\<close>

section \<open>Slices\<close>

text \<open>\<open>slice xs i j\<close> is Go's \<^verbatim>\<open>xs[i:j]\<close> on a slice whose capacity is its length.\<close>

definition slice :: "'a list \<Rightarrow> nat \<Rightarrow> nat \<Rightarrow> 'a list option" where
  "slice xs i j = (if i \<le> j \<and> j \<le> length xs then Some (take (j - i) (drop i xs)) else None)"

definition index :: "'a list \<Rightarrow> nat \<Rightarrow> 'a option" where
  "index xs i = (if i < length xs then Some (xs ! i) else None)"

lemma slice_Some [slice_simps]:
  "i \<le> j \<Longrightarrow> j \<le> length xs \<Longrightarrow> slice xs i j = Some (take (j - i) (drop i xs))"
  by (simp add: slice_def)

lemma index_Some [slice_simps]: "i < length xs \<Longrightarrow> index xs i = Some (xs ! i)"
  by (simp add: index_def)

lemma slice_length: "slice xs i j = Some ys \<Longrightarrow> length ys = j - i"
  by (auto simp: slice_def split: if_splits)

lemma slice_append_mid: "slice (xs @ ys @ zs) (length xs) (length xs + length ys) = Some ys"
  by (simp add: slice_def)

lemma slice_to_end: "slice xs i (length xs) = (if i \<le> length xs then Some (drop i xs) else None)"
  by (simp add: slice_def)

text \<open>Slices of a concatenation, part by part.\<close>

lemma slice_front: "length a = j \<Longrightarrow> slice (a @ b) 0 j = Some a"
  by (simp add: slice_def)

lemma slice_whole: "length a = j \<Longrightarrow> slice a 0 j = Some a"
  by (simp add: slice_def)

lemma slice_skip: "length a \<le> i \<Longrightarrow> i \<le> j \<Longrightarrow> slice (a @ b) i j = slice b (i - length a) (j - length a)"
  by (auto simp: slice_def)

lemma slice_shift: "slice (a @ b) (length a + i) (length a + j) = slice b i j"
  by (auto simp: slice_def)

lemma slice_Cons_skip: "slice (x # b) (Suc i) (Suc j) = slice b i j"
  by (auto simp: slice_def)

lemmas slice_parts = slice_front slice_whole slice_skip

section \<open>Bytes in order\<close>

text \<open>The number a byte list holds, least significant byte first, and its inverse.\<close>

primrec le_nat :: "u8 list \<Rightarrow> nat" where
  "le_nat [] = 0"
| "le_nat (b # bs) = unat b + 256 * le_nat bs"

primrec le_bytes :: "nat \<Rightarrow> nat \<Rightarrow> u8 list" where
  "le_bytes 0 v = []"
| "le_bytes (Suc k) v = word_of_nat v # le_bytes k (v div 256)"

lemma length_le_bytes [simp]: "length (le_bytes k v) = k"
  by (induction k arbitrary: v) auto

lemma unat_byte_of_nat [simp]: "unat (word_of_nat v :: u8) = v mod 256"
  by (simp add: unat_of_nat)

lemma le_nat_bound: "le_nat bs < 256 ^ length bs"
proof (induction bs)
  case Nil
  then show ?case by simp
next
  case (Cons b bs)
  have "unat b < 256" using unsigned_less [of b, where ?'a = nat] by simp
  with Cons show ?case by (simp add: algebra_simps)
qed

lemma le_nat_le_bytes [codec_simps]: "le_nat (le_bytes k v) = v mod 256 ^ k"
proof (induction k arbitrary: v)
  case 0
  then show ?case by simp
next
  case (Suc k)
  have "v mod 256 ^ Suc k = v mod 256 + 256 * (v div 256 mod 256 ^ k)"
    by (simp add: mod_mult2_eq)
  then show ?case by (simp add: Suc)
qed

lemma le_bytes_le_nat [codec_simps]: "le_bytes (length bs) (le_nat bs) = bs"
proof (induction bs)
  case Nil
  then show ?case by simp
next
  case (Cons b bs)
  have b: "unat b < 256" using unsigned_less [of b, where ?'a = nat] by simp
  then have "(unat b + 256 * le_nat bs) div 256 = le_nat bs" by simp
  moreover have "(word_of_nat (unat b + 256 * le_nat bs) :: u8) = b"
    using b by (intro word_unat_eq_iff [THEN iffD2]) (simp only: unat_byte_of_nat, simp)
  ultimately show ?case by (simp add: Cons)
qed

text \<open>
  \<^verbatim>\<open>binary.LittleEndian.Uint16/32/64\<close> and \<^verbatim>\<open>binary.BigEndian.Uint16\<close> panic on a short
  slice and ignore what follows the bytes they read.
\<close>

definition le16 :: "u8 list \<Rightarrow> u16 option" where
  "le16 bs = (if 2 \<le> length bs then Some (word_of_nat (le_nat (take 2 bs))) else None)"

definition le32 :: "u8 list \<Rightarrow> u32 option" where
  "le32 bs = (if 4 \<le> length bs then Some (word_of_nat (le_nat (take 4 bs))) else None)"

definition le64 :: "u8 list \<Rightarrow> u64 option" where
  "le64 bs = (if 8 \<le> length bs then Some (word_of_nat (le_nat (take 8 bs))) else None)"

definition be16 :: "u8 list \<Rightarrow> u16 option" where
  "be16 bs = (if 2 \<le> length bs then Some (word_of_nat (le_nat (rev (take 2 bs)))) else None)"

text \<open>The bytes \<^verbatim>\<open>PutUint16/32/64\<close> store.\<close>

definition put_le16 :: "u16 \<Rightarrow> u8 list" where
  "put_le16 w = le_bytes 2 (unat w)"

definition put_le32 :: "u32 \<Rightarrow> u8 list" where
  "put_le32 w = le_bytes 4 (unat w)"

definition put_le64 :: "u64 \<Rightarrow> u8 list" where
  "put_le64 w = le_bytes 8 (unat w)"

definition put_be16 :: "u16 \<Rightarrow> u8 list" where
  "put_be16 w = rev (le_bytes 2 (unat w))"

definition put_be32 :: "u32 \<Rightarrow> u8 list" where
  "put_be32 w = rev (le_bytes 4 (unat w))"

lemma length_put [simp]:
  "length (put_le16 w16) = 2" "length (put_le32 w32) = 4" "length (put_le64 w64) = 8"
  "length (put_be16 w16) = 2" "length (put_be32 w32) = 4"
  by (simp_all add: put_le16_def put_le32_def put_le64_def put_be16_def put_be32_def)

lemma le16_put [codec_simps]: "le16 (put_le16 w @ r) = Some w"
  using unsigned_less [of w, where ?'a = nat] by (simp add: le16_def put_le16_def le_nat_le_bytes)

lemma le32_put [codec_simps]: "le32 (put_le32 w @ r) = Some w"
  using unsigned_less [of w, where ?'a = nat] by (simp add: le32_def put_le32_def le_nat_le_bytes)

lemma le64_put [codec_simps]: "le64 (put_le64 w @ r) = Some w"
  using unsigned_less [of w, where ?'a = nat] by (simp add: le64_def put_le64_def le_nat_le_bytes)

lemma be16_put [codec_simps]: "be16 (put_be16 w @ r) = Some w"
  using unsigned_less [of w, where ?'a = nat] by (simp add: be16_def put_be16_def le_nat_le_bytes)

lemmas put_whole [codec_simps] =
  le16_put [where r = "[]", simplified] le32_put [where r = "[]", simplified]
  le64_put [where r = "[]", simplified] be16_put [where r = "[]", simplified]

lemma le_read_Some [slice_simps]:
  "2 \<le> length bs \<Longrightarrow> le16 bs = Some (word_of_nat (le_nat (take 2 bs)))"
  "4 \<le> length bs \<Longrightarrow> le32 bs = Some (word_of_nat (le_nat (take 4 bs)))"
  "8 \<le> length bs \<Longrightarrow> le64 bs = Some (word_of_nat (le_nat (take 8 bs)))"
  "2 \<le> length bs \<Longrightarrow> be16 bs = Some (word_of_nat (le_nat (rev (take 2 bs))))"
  by (simp_all add: le16_def le32_def le64_def be16_def)

text \<open>A read at an offset, as in \<^verbatim>\<open>binary.LittleEndian.Uint16(b[i:i+2])\<close>.\<close>

definition le16_at :: "u8 list \<Rightarrow> nat \<Rightarrow> u16 option" where
  "le16_at bs i = Option.bind (slice bs i (i + 2)) le16"

definition le32_at :: "u8 list \<Rightarrow> nat \<Rightarrow> u32 option" where
  "le32_at bs i = Option.bind (slice bs i (i + 4)) le32"

definition le64_at :: "u8 list \<Rightarrow> nat \<Rightarrow> u64 option" where
  "le64_at bs i = Option.bind (slice bs i (i + 8)) le64"

definition be16_at :: "u8 list \<Rightarrow> nat \<Rightarrow> u16 option" where
  "be16_at bs i = Option.bind (slice bs i (i + 2)) be16"

lemmas read_at_defs = le16_at_def le32_at_def le64_at_def be16_at_def

lemma le16_at_Some: "i + 2 \<le> length bs \<Longrightarrow> \<exists>w. le16_at bs i = Some w"
  and le32_at_Some: "i + 4 \<le> length bs \<Longrightarrow> \<exists>x. le32_at bs i = Some x"
  and le64_at_Some: "i + 8 \<le> length bs \<Longrightarrow> \<exists>y. le64_at bs i = Some y"
  and be16_at_Some: "i + 2 \<le> length bs \<Longrightarrow> \<exists>z. be16_at bs i = Some z"
  by (simp_all add: read_at_defs slice_simps)

lemma read_at_front [codec_simps]:
  "le16_at (put_le16 w16 @ r) 0 = Some w16" "le32_at (put_le32 w32 @ r) 0 = Some w32"
  "le64_at (put_le64 w64 @ r) 0 = Some w64" "be16_at (put_be16 w16 @ r) 0 = Some w16"
  "le16_at (put_le16 w16) 0 = Some w16" "le32_at (put_le32 w32) 0 = Some w32"
  "le64_at (put_le64 w64) 0 = Some w64" "be16_at (put_be16 w16) 0 = Some w16"
  by (simp_all add: read_at_defs slice_parts put_whole del: numeral_2_eq_2 add_2_eq_Suc add_2_eq_Suc')

lemma read_at_skip:
  assumes "length a \<le> i"
  shows "le16_at (a @ b) i = le16_at b (i - length a)" "le32_at (a @ b) i = le32_at b (i - length a)"
    "le64_at (a @ b) i = le64_at b (i - length a)" "be16_at (a @ b) i = be16_at b (i - length a)"
proof -
  obtain k where i: "i = length a + k" using assms le_iff_add by blast
  show "le16_at (a @ b) i = le16_at b (i - length a)" "le32_at (a @ b) i = le32_at b (i - length a)"
    "le64_at (a @ b) i = le64_at b (i - length a)" "be16_at (a @ b) i = be16_at b (i - length a)"
    by (simp_all add: i read_at_defs slice_shift add.assoc del: add_2_eq_Suc')
qed

lemma read_at_shift:
  "le16_at (a @ b) (length a + i) = le16_at b i" "le32_at (a @ b) (length a + i) = le32_at b i"
  "le64_at (a @ b) (length a + i) = le64_at b i" "be16_at (a @ b) (length a + i) = be16_at b i"
  by (simp_all add: read_at_skip)

section \<open>Bytes and characters\<close>

definition byte_char :: "u8 \<Rightarrow> char" where
  "byte_char b = char_of (unat b)"

definition char_byte :: "char \<Rightarrow> u8" where
  "char_byte c = word_of_nat (of_char c)"

abbreviation ord :: "char \<Rightarrow> nat" where
  "ord c \<equiv> of_char c"

lemma ord_bound [simp]: "ord c < 256"
  by (rule nat_of_char_less_256)

lemma char_byte_inverse [simp]: "byte_char (char_byte c) = c"
  by (simp add: byte_char_def char_byte_def)

lemma byte_char_inverse [simp]: "char_byte (byte_char b) = b"
proof -
  have "unat b < 256" using unsigned_less [of b, where ?'a = nat] by simp
  then show ?thesis by (simp add: byte_char_def char_byte_def)
qed

definition bytes_of :: "string \<Rightarrow> u8 list" where
  "bytes_of s = map char_byte s"

definition string_of :: "u8 list \<Rightarrow> string" where
  "string_of bs = map byte_char bs"

lemma string_of_bytes_of [codec_simps]: "string_of (bytes_of s) = s"
  by (simp add: string_of_def bytes_of_def comp_def)

lemma bytes_of_string_of [codec_simps]: "bytes_of (string_of bs) = bs"
  by (simp add: string_of_def bytes_of_def comp_def)

section \<open>Lists\<close>

lemma takeWhile_dropWhile_eq: "takeWhile P xs @ dropWhile P xs = xs"
  by simp

lemma filter_length_partition: "length (filter P xs) + length (filter (\<lambda>x. \<not> P x) xs) = length xs"
  by (induction xs) auto

lemma foldl_invariant:
  assumes "P a" and "\<And>x y. P x \<Longrightarrow> y \<in> set ys \<Longrightarrow> P (f x y)"
  shows "P (foldl f a ys)"
  using assms by (induction ys arbitrary: a) auto

text \<open>Keeping the last \<open>n\<close> elements, as the log views do.\<close>

definition last_n :: "nat \<Rightarrow> 'a list \<Rightarrow> 'a list" where
  "last_n n xs = drop (length xs - n) xs"

lemma length_last_n [simp]: "length (last_n n xs) = min n (length xs)"
  by (simp add: last_n_def min_def)

lemma suffix_last_n: "suffix (last_n n xs) xs"
  by (simp add: last_n_def suffix_drop)

end
