(* ===== verification/GoStrings.thy ===== *)
theory GoStrings
  imports Prelude
begin

text \<open>
  What the program uses of Go's packages \<^verbatim>\<open>strings\<close>, \<^verbatim>\<open>strconv\<close>, \<^verbatim>\<open>unicode\<close> and
  \<^verbatim>\<open>unicode/utf8\<close>, on byte strings. The large Unicode case and print tables are parameters of
  the functions that consult them; the ASCII and Latin-1 parts, the white space set and the UTF-8
  decoder are written out.
\<close>

section \<open>Searching and splitting\<close>

text \<open>\<^verbatim>\<open>strings.HasPrefix\<close>, \<^verbatim>\<open>HasSuffix\<close>, \<^verbatim>\<open>Index\<close>, \<^verbatim>\<open>Contains\<close>, \<^verbatim>\<open>IndexByte\<close>.\<close>

abbreviation has_prefix :: "string \<Rightarrow> string \<Rightarrow> bool" where
  "has_prefix s p \<equiv> prefix p s"

abbreviation has_suffix :: "string \<Rightarrow> string \<Rightarrow> bool" where
  "has_suffix s p \<equiv> suffix p s"

fun str_index :: "'a list \<Rightarrow> 'a list \<Rightarrow> nat option" where
  "str_index s p =
     (if prefix p s then Some 0
      else case s of [] \<Rightarrow> None | _ # s' \<Rightarrow> map_option Suc (str_index s' p))"

declare str_index.simps [simp del]

lemma str_index_code [code]:
  "str_index s p =
     (if take (length p) s = p then Some 0
      else case s of [] \<Rightarrow> None | _ # s' \<Rightarrow> map_option Suc (str_index s' p))"
proof -
  have "prefix p s \<longleftrightarrow> take (length p) s = p"
    by (metis append_eq_conv_conj prefix_def)
  then show ?thesis by (simp add: str_index.simps [of s p])
qed

definition str_contains :: "'a list \<Rightarrow> 'a list \<Rightarrow> bool" where
  "str_contains s p \<longleftrightarrow> str_index s p \<noteq> None"

fun index_byte :: "'a list \<Rightarrow> 'a \<Rightarrow> nat option" where
  "index_byte [] c = None"
| "index_byte (x # xs) c = (if x = c then Some 0 else map_option Suc (index_byte xs c))"

definition last_index_byte :: "'a list \<Rightarrow> 'a \<Rightarrow> nat option" where
  "last_index_byte s c = map_option (\<lambda>i. length s - 1 - i) (index_byte (rev s) c)"

lemma str_index_SomeD:
  "str_index s p = Some i \<Longrightarrow> i + length p \<le> length s \<and> prefix p (drop i s)
     \<and> (\<forall>k<i. \<not> prefix p (drop k s))"
proof (induction s p arbitrary: i rule: str_index.induct)
  case (1 s p)
  show ?case
  proof (cases "prefix p s")
    case True
    with "1.prems" show ?thesis by (auto simp: str_index.simps [of s p] prefix_length_le)
  next
    case False
    with "1.prems" obtain c s' j where s: "s = c # s'" and j: "str_index s' p = Some j" "i = Suc j"
      by (auto simp: str_index.simps [of s p] split: list.splits)
    with "1.IH" [OF False s j(1)] False show ?thesis
      by (auto simp: less_Suc_eq_0_disj)
  qed
qed

lemma str_index_NoneD: "str_index s p = None \<Longrightarrow> \<not> prefix p (drop k s)"
proof (induction s p arbitrary: k rule: str_index.induct)
  case (1 s p)
  then have np: "\<not> prefix p s" by (auto simp: str_index.simps [of s p] split: if_splits)
  show ?case
  proof (cases s)
    case Nil
    with np show ?thesis by simp
  next
    case (Cons c s')
    with np "1.prems" have "str_index s' p = None"
      by (simp add: str_index.simps [of "c # s'" p])
    with "1.IH" [OF np Cons] np Cons show ?thesis by (cases k) auto
  qed
qed

lemma str_contains_iff: "str_contains s p \<longleftrightarrow> (\<exists>a b. s = a @ p @ b)"
proof
  assume "str_contains s p"
  then obtain i where "str_index s p = Some i" by (auto simp: str_contains_def)
  then have "prefix p (drop i s)" by (auto dest: str_index_SomeD)
  then obtain b where "drop i s = p @ b" by (auto simp: prefix_def)
  then have "s = take i s @ p @ b" by (metis append_take_drop_id)
  then show "\<exists>a b. s = a @ p @ b" by blast
next
  assume "\<exists>a b. s = a @ p @ b"
  then obtain a b where "s = a @ p @ b" by blast
  then have "prefix p (drop (length a) s)" by simp
  then show "str_contains s p" unfolding str_contains_def using str_index_NoneD by blast
qed

lemma index_byte_None [string_simps]: "index_byte s c = None \<longleftrightarrow> c \<notin> set s"
  by (induction s) auto

lemma index_byte_SomeD:
  "index_byte s c = Some i \<Longrightarrow> i < length s \<and> s ! i = c \<and> c \<notin> set (take i s)"
  by (induction s arbitrary: i) (auto split: if_splits)

text \<open>\<^verbatim>\<open>strings.Split\<close> with a one-byte separator, and \<^verbatim>\<open>strings.Join\<close>.\<close>

fun split_on :: "'a \<Rightarrow> 'a list \<Rightarrow> 'a list list" where
  "split_on c [] = [[]]"
| "split_on c (x # xs) =
     (if x = c then [] # split_on c xs
      else case split_on c xs of [] \<Rightarrow> [[x]] | p # ps \<Rightarrow> (x # p) # ps)"

fun join :: "'a list \<Rightarrow> 'a list list \<Rightarrow> 'a list" where
  "join sep [] = []"
| "join sep [x] = x"
| "join sep (x # y # ys) = x @ sep @ join sep (y # ys)"

lemma split_on_nonempty [simp]: "split_on c xs \<noteq> []"
  by (induction xs) (auto split: list.splits)

lemma split_on_free [string_simps]: "c \<notin> set xs \<Longrightarrow> split_on c xs = [xs]"
  by (induction xs) auto

lemma split_on_append [string_simps]:
  "c \<notin> set xs \<Longrightarrow> split_on c (xs @ c # ys) = xs # split_on c ys"
  by (induction xs) auto

lemma split_on_join [string_simps]:
  "xs \<noteq> [] \<Longrightarrow> \<forall>x\<in>set xs. c \<notin> set x \<Longrightarrow> split_on c (join [c] xs) = xs"
  by (induction "[c]" xs rule: join.induct) (auto simp: split_on_free split_on_append)

lemma join_split_on: "join [c] (split_on c xs) = xs"
proof (induction xs)
  case Nil
  then show ?case by simp
next
  case (Cons x xs)
  obtain p ps where p: "split_on c xs = p # ps" by (cases "split_on c xs") auto
  with Cons show ?case by (cases ps) auto
qed

lemma split_on_parts_free: "p \<in> set (split_on c xs) \<Longrightarrow> c \<notin> set p"
proof (induction xs arbitrary: p)
  case Nil
  then show ?case by simp
next
  case (Cons x xs)
  obtain q qs where q: "split_on c xs = q # qs" by (cases "split_on c xs") auto
  have "q \<in> set (split_on c xs)" and "set qs \<subseteq> set (split_on c xs)" using q by auto
  with Cons q show ?case by (auto split: if_splits)
qed

lemma length_split_on: "length (split_on c xs) = Suc (count_list xs c)"
proof (induction xs)
  case Nil
  then show ?case by simp
next
  case (Cons x xs)
  then show ?case by (cases "split_on c xs") auto
qed

lemma set_join: "set (join sep xs) \<subseteq> set sep \<union> \<Union> (set ` set xs)"
  by (induction sep xs rule: join.induct) auto

text \<open>\<^verbatim>\<open>strings.ReplaceAll\<close> of a one-byte pattern.\<close>

definition replace_byte :: "'a \<Rightarrow> 'a list \<Rightarrow> 'a list \<Rightarrow> 'a list" where
  "replace_byte c r s = concat (map (\<lambda>x. if x = c then r else [x]) s)"

section \<open>Decimal and hexadecimal numbers\<close>

definition digit_char :: "nat \<Rightarrow> char" where
  "digit_char d = char_of (48 + d)"

definition is_digit :: "char \<Rightarrow> bool" where
  "is_digit c \<longleftrightarrow> 48 \<le> ord c \<and> ord c \<le> (57::nat)"

definition digit_val :: "char \<Rightarrow> nat" where
  "digit_val c = ord c - 48"

fun dec :: "nat \<Rightarrow> string" where
  "dec n = (if n < 10 then [digit_char n] else dec (n div 10) @ [digit_char (n mod 10)])"

declare dec.simps [simp del]

text \<open>\<^verbatim>\<open>strconv.Itoa\<close> and \<^verbatim>\<open>FormatInt(n, 10)\<close>.\<close>

definition Itoa :: "int \<Rightarrow> string" where
  "Itoa i = (if i < 0 then CHR ''-'' # dec (nat (- i)) else dec (nat i))"

text \<open>
  \<^verbatim>\<open>strconv.ParseUint(s, 10, bits)\<close> with both results: the value is 0 on a syntax error and
  the largest value on a range error, which the loop reports at the first digit past the range.
\<close>

fun parse_uint_loop :: "nat \<Rightarrow> nat \<Rightarrow> string \<Rightarrow> nat \<times> bool" where
  "parse_uint_loop m n [] = (n, True)"
| "parse_uint_loop m n (c # cs) =
     (if \<not> is_digit c then (0, False)
      else let n1 = 10 * n + digit_val c
           in if m < n1 then (m, False) else parse_uint_loop m n1 cs)"

definition ParseUint :: "nat \<Rightarrow> string \<Rightarrow> nat \<times> bool" where
  "ParseUint bits s = (if s = [] then (0, False) else parse_uint_loop (2 ^ bits - 1) 0 s)"

text \<open>
  \<^verbatim>\<open>strconv.Atoi\<close> and \<^verbatim>\<open>ParseInt(s, 10, 64)\<close>: an optional sign and digits, \<open>None\<close> for any
  error.
\<close>

definition Atoi :: "string \<Rightarrow> int option" where
  "Atoi s =
     (case s of [] \<Rightarrow> None
      | c # cs \<Rightarrow>
          (let neg = c = CHR ''-''; body = (if c = CHR ''-'' \<or> c = CHR ''+'' then cs else s);
               (n, ok) = ParseUint 64 body
           in if \<not> ok then None
              else if neg then (if n \<le> 2 ^ 63 then Some (- int n) else None)
              else (if n < 2 ^ 63 then Some (int n) else None)))"

lemma ord_digit_char [simp]: "d < 10 \<Longrightarrow> ord (digit_char d) = (48 + d :: nat)"
  by (simp add: digit_char_def)

lemma is_digit_digit_char [simp]: "d < 10 \<Longrightarrow> is_digit (digit_char d)"
  by (simp add: is_digit_def)

lemma digit_val_digit_char [simp]: "d < 10 \<Longrightarrow> digit_val (digit_char d) = d"
  by (simp add: digit_val_def)

lemma dec_digits: "list_all is_digit (dec n)"
proof (induction n rule: dec.induct)
  case (1 n)
  then show ?case by (cases "n < 10") (simp_all add: dec.simps [of n])
qed

lemma dec_nonempty [simp]: "dec n \<noteq> []"
  by (simp add: dec.simps [of n])

lemma digit_not_in_dec [string_simps]: "\<not> is_digit c \<Longrightarrow> c \<notin> set (dec n)"
  using dec_digits [of n] by (auto simp: list_all_iff)

lemma Itoa_chars: "c \<in> set (Itoa i) \<Longrightarrow> is_digit c \<or> c = CHR ''-''"
  using dec_digits by (auto simp: Itoa_def list_all_iff split: if_splits)

lemma parse_uint_loop_append:
  "list_all is_digit xs \<Longrightarrow> parse_uint_loop m n xs = (k, True) \<Longrightarrow>
     parse_uint_loop m n (xs @ ys) = parse_uint_loop m k ys"
  by (induction xs arbitrary: n) (auto simp: Let_def split: if_splits)

lemma parse_uint_loop_dec: "n \<le> m \<Longrightarrow> parse_uint_loop m 0 (dec n) = (n, True)"
proof (induction n rule: dec.induct)
  case (1 n)
  show ?case
  proof (cases "n < 10")
    case True
    with "1.prems" show ?thesis by (simp add: dec.simps [of n])
  next
    case False
    with "1.prems" have "parse_uint_loop m 0 (dec (n div 10)) = (n div 10, True)"
      by (intro "1.IH") simp_all
    from parse_uint_loop_append [OF dec_digits this] "1.prems" False
    show ?thesis by (simp add: dec.simps [of n])
  qed
qed

lemma ParseUint_dec [codec_simps]: "n < 2 ^ bits \<Longrightarrow> ParseUint bits (dec n) = (n, True)"
  by (simp add: ParseUint_def parse_uint_loop_dec)

lemma Atoi_Itoa [codec_simps]:
  assumes "- (2 ^ 63) \<le> i" and "i < 2 ^ 63"
  shows "Atoi (Itoa i) = Some i"
proof (cases "i < 0")
  case True
  with assms have "nat (- i) \<le> 2 ^ 63" by simp
  then have "ParseUint 64 (dec (nat (- i))) = (nat (- i), True)"
    by (intro ParseUint_dec) simp
  with True \<open>nat (- i) \<le> 2 ^ 63\<close> show ?thesis by (simp add: Itoa_def Atoi_def)
next
  case False
  obtain c cs where c: "dec (nat i) = c # cs" by (cases "dec (nat i)") auto
  from dec_digits [of "nat i"] have "is_digit c" by (simp add: c)
  then have "c \<noteq> CHR ''-''" "c \<noteq> CHR ''+''" by (auto simp: is_digit_def)
  moreover have "ParseUint 64 (dec (nat i)) = (nat i, True)"
    using assms by (intro ParseUint_dec) simp
  moreover have "nat i < 2 ^ 63" using assms False by simp
  ultimately show ?thesis using False by (simp add: Itoa_def Atoi_def c)
qed

text \<open>Lower-case hexadecimal, padded with zeros to a width: the verbs \<^verbatim>\<open>%02x %04x %08x\<close>.\<close>

definition hex_char :: "nat \<Rightarrow> char" where
  "hex_char d = (if d < 10 then char_of (48 + d) else char_of (87 + d))"

fun hex_pad :: "nat \<Rightarrow> nat \<Rightarrow> string" where
  "hex_pad 0 v = []"
| "hex_pad (Suc k) v = hex_pad k (v div 16) @ [hex_char (v mod 16)]"

lemma length_hex_pad [simp]: "length (hex_pad k v) = k"
  by (induction k arbitrary: v) auto

lemma ord_hex_char: "d < 16 \<Longrightarrow> 48 \<le> ord (hex_char d) \<and> ord (hex_char d) \<le> (102::nat)"
  by (auto simp: hex_char_def)

lemma hex_pad_chars: "c \<in> set (hex_pad k v) \<Longrightarrow> 48 \<le> ord c \<and> ord c \<le> (102::nat)"
  by (induction k arbitrary: v) (auto simp: ord_hex_char)

section \<open>UTF-8\<close>

text \<open>\<^verbatim>\<open>utf8.DecodeRuneInString\<close> on a non-empty string: the rune and the bytes it takes.\<close>

definition cont_byte :: "nat \<Rightarrow> nat \<Rightarrow> char \<Rightarrow> bool" where
  "cont_byte lo hi c \<longleftrightarrow> lo \<le> ord c \<and> ord c \<le> hi"

definition RuneError :: nat where
  "RuneError = 0xFFFD"

fun decode_rune :: "string \<Rightarrow> nat \<times> nat" where
  "decode_rune [] = (RuneError, 0)"
| "decode_rune (c # s) =
     (let p = ord c in
      if p < 0x80 then (p, 1)
      else if 0xC2 \<le> p \<and> p \<le> 0xDF then
        (case s of a # _ \<Rightarrow>
            if cont_byte 0x80 0xBF a then ((p - 0xC0) * 64 + (ord a - 0x80), 2) else (RuneError, 1)
          | _ \<Rightarrow> (RuneError, 1))
      else if 0xE0 \<le> p \<and> p \<le> 0xEF then
        (case s of a # b # _ \<Rightarrow>
            if cont_byte (if p = 0xE0 then 0xA0 else 0x80) (if p = 0xED then 0x9F else 0xBF) a
                \<and> cont_byte 0x80 0xBF b
            then (((p - 0xE0) * 64 + (ord a - 0x80)) * 64 + (ord b - 0x80), 3) else (RuneError, 1)
          | _ \<Rightarrow> (RuneError, 1))
      else if 0xF0 \<le> p \<and> p \<le> 0xF4 then
        (case s of a # b # d # _ \<Rightarrow>
            if cont_byte (if p = 0xF0 then 0x90 else 0x80) (if p = 0xF4 then 0x8F else 0xBF) a
                \<and> cont_byte 0x80 0xBF b \<and> cont_byte 0x80 0xBF d
            then ((((p - 0xF0) * 64 + (ord a - 0x80)) * 64 + (ord b - 0x80)) * 64 + (ord d - 0x80), 4)
            else (RuneError, 1)
          | _ \<Rightarrow> (RuneError, 1))
      else (RuneError, 1))"

lemma decode_rune_width: "s \<noteq> [] \<Longrightarrow> 1 \<le> snd (decode_rune s) \<and> snd (decode_rune s) \<le> length s"
  by (cases s) (auto simp: Let_def split: list.splits if_splits)

text \<open>A \<^verbatim>\<open>range\<close> loop over a string: its runes, each with its bytes.\<close>

function runes :: "string \<Rightarrow> (nat \<times> string) list" where
  "runes s =
     (if s = [] then []
      else let (r, w) = decode_rune s in (r, take w s) # runes (drop w s))"
  by pat_completeness auto
termination
proof (relation "measure length", goal_cases)
  case 1
  show ?case by simp
next
  case (2 s x r w)
  then have "1 \<le> w" using decode_rune_width [of s] by (metis snd_conv)
  with 2(1) show ?case by simp
qed

declare runes.simps [simp del]

lemma runes_Nil [simp]: "runes [] = []"
  by (simp add: runes.simps)

lemma runes_ascii_Cons [simp]: "ord c < (128::nat) \<Longrightarrow> runes (c # s) = (ord c, [c]) # runes s"
  by (simp add: runes.simps [of "c # s"])

lemma runes_concat: "concat (map snd (runes s)) = s"
proof (induction s rule: runes.induct)
  case (1 s)
  show ?case
  proof (cases "s = []")
    case False
    obtain r w where "decode_rune s = (r, w)" by (cases "decode_rune s")
    with False "1.IH" [OF False, of "(r, w)" r w] show ?thesis
      by (simp add: runes.simps [of s])
  qed simp
qed

text \<open>\<^verbatim>\<open>WriteRune\<close>.\<close>

definition encode_rune :: "nat \<Rightarrow> string" where
  "encode_rune r0 =
     (let r = (if (0xD800 \<le> r0 \<and> r0 \<le> 0xDFFF) \<or> 0x10FFFF < r0 then RuneError else r0) in
      if r < 0x80 then [char_of r]
      else if r < 0x800 then [char_of (0xC0 + r div 64), char_of (0x80 + r mod 64)]
      else if r < 0x10000 then
        [char_of (0xE0 + r div 4096), char_of (0x80 + r div 64 mod 64), char_of (0x80 + r mod 64)]
      else [char_of (0xF0 + r div 262144), char_of (0x80 + r div 4096 mod 64),
            char_of (0x80 + r div 64 mod 64), char_of (0x80 + r mod 64)])"

section \<open>White space, case\<close>

text \<open>\<^verbatim>\<open>unicode.IsSpace\<close>.\<close>

definition is_space :: "nat \<Rightarrow> bool" where
  "is_space r \<longleftrightarrow>
     9 \<le> r \<and> r \<le> 13 \<or> r = 32 \<or> r = 0x85 \<or> r = 0xA0 \<or> r = 0x1680
     \<or> 0x2000 \<le> r \<and> r \<le> 0x200A \<or> r = 0x2028 \<or> r = 0x2029 \<or> r = 0x202F \<or> r = 0x205F \<or> r = 0x3000"

definition TrimSpace :: "string \<Rightarrow> string" where
  "TrimSpace s =
     concat (map snd (rev (dropWhile (is_space \<circ> fst)
       (rev (dropWhile (is_space \<circ> fst) (runes s))))))"

text \<open>\<^verbatim>\<open>strings.Fields\<close>: the maximal runs without white space.\<close>

fun fields_of :: "string \<Rightarrow> (nat \<times> string) list \<Rightarrow> string list" where
  "fields_of cur [] = (if cur = [] then [] else [cur])"
| "fields_of cur ((r, b) # rs) =
     (if is_space r then (if cur = [] then fields_of [] rs else cur # fields_of [] rs)
      else fields_of (cur @ b) rs)"

definition Fields :: "string \<Rightarrow> string list" where
  "Fields s = fields_of [] (runes s)"

text \<open>Words of visible ASCII characters, and lines made of them.\<close>

definition plain_word :: "string \<Rightarrow> bool" where
  "plain_word w \<longleftrightarrow> w \<noteq> '''' \<and> list_all (\<lambda>c. ord c < (128 :: nat) \<and> \<not> is_space (ord c)) w"

lemma fields_of_plain:
  "list_all (\<lambda>c. ord c < (128 :: nat) \<and> \<not> is_space (ord c)) w \<Longrightarrow>
     fields_of cur (runes (w @ s)) = fields_of (cur @ w) (runes s)"
  by (induction w arbitrary: cur) auto

lemma Fields_word:
  "plain_word w \<Longrightarrow> ord c < (128 :: nat) \<Longrightarrow> is_space (ord c) \<Longrightarrow> Fields (w @ c # s) = w # Fields s"
  by (simp add: Fields_def plain_word_def fields_of_plain)

lemma Fields_blank: "ord c < (128 :: nat) \<Longrightarrow> is_space (ord c) \<Longrightarrow> Fields (c # s) = Fields s"
  by (simp add: Fields_def)

lemma Fields_line:
  assumes "\<forall>w\<in>set ws. plain_word w" and "ord c < (128 :: nat)" and "is_space (ord c)"
  shows "Fields (join '' '' ws @ [c]) = ws"
  using assms(1)
proof (induction ws rule: induct_list012)
  case 1
  show ?case using assms(2,3) by (simp add: Fields_blank) (simp add: Fields_def)
next
  case (2 w)
  then show ?case using assms(2,3) by (simp add: Fields_word) (simp add: Fields_def)
next
  case (3 w w' ws)
  then show ?case by (simp add: Fields_word is_space_def)
qed

lemma index_byte_at: "c \<notin> set a \<Longrightarrow> index_byte (a @ c # b) c = Some (length a)"
  by (induction a) auto

lemma last_index_byte_at: "c \<notin> set b \<Longrightarrow> last_index_byte (a @ c # b) c = Some (length a)"
  by (simp add: last_index_byte_def index_byte_at)

text \<open>
  \<^verbatim>\<open>ToLower\<close> and \<^verbatim>\<open>ToUpper\<close> map an ASCII string byte by byte; on any other string they
  consult the Unicode tables, which are the parameter.
\<close>

definition is_ascii :: "string \<Rightarrow> bool" where
  "is_ascii s \<longleftrightarrow> list_all (\<lambda>c. ord c < (128::nat)) s"

definition ascii_lower :: "char \<Rightarrow> char" where
  "ascii_lower c = (if 65 \<le> ord c \<and> ord c \<le> (90::nat) then char_of (ord c + 32 :: nat) else c)"

definition ascii_upper :: "char \<Rightarrow> char" where
  "ascii_upper c = (if 97 \<le> ord c \<and> ord c \<le> (122::nat) then char_of (ord c - 32 :: nat) else c)"

definition ToLower :: "(string \<Rightarrow> string) \<Rightarrow> string \<Rightarrow> string" where
  "ToLower uni s = (if is_ascii s then map ascii_lower s else uni s)"

definition ToUpper :: "(string \<Rightarrow> string) \<Rightarrow> string \<Rightarrow> string" where
  "ToUpper uni s = (if is_ascii s then map ascii_upper s else uni s)"

text \<open>\<^verbatim>\<open>strings.TrimRight\<close> with a one-byte cutset.\<close>

definition TrimRight :: "char \<Rightarrow> string \<Rightarrow> string" where
  "TrimRight c s = rev (dropWhile (\<lambda>x. x = c) (rev s))"

lemma prefix_TrimRight: "prefix (TrimRight c s) s"
proof -
  have "suffix (dropWhile (\<lambda>x. x = c) (rev s)) (rev s)" by (rule suffix_dropWhile)
  then show ?thesis by (simp add: TrimRight_def suffix_to_prefix)
qed

lemma last_TrimRight: "TrimRight c s \<noteq> [] \<Longrightarrow> last (TrimRight c s) \<noteq> c"
  using hd_dropWhile [of "\<lambda>x. x = c" "rev s"] by (auto simp: TrimRight_def last_rev)

text \<open>
  \<^verbatim>\<open>bufio.Scanner\<close> with \<^verbatim>\<open>ScanLines\<close>: lines end at a newline, a trailing carriage return is
  dropped, an unterminated last line counts when it is not empty. A line that does not fit the
  buffer of \<open>m\<close> bytes ends the scan with an error: the second component is false.
\<close>

definition drop_cr :: "string \<Rightarrow> string" where
  "drop_cr l = (if l \<noteq> [] \<and> ord (last l) = (13::nat) then butlast l else l)"

definition raw_lines :: "string \<Rightarrow> string list" where
  "raw_lines s = (let ps = split_on (CHR 0x0A) s in if last ps = [] then butlast ps else ps)"

fun scan_upto :: "nat \<Rightarrow> string list \<Rightarrow> string list \<times> bool" where
  "scan_upto m [] = ([], True)"
| "scan_upto m (l # ls) =
     (if m \<le> length l then ([], False)
      else let (r, ok) = scan_upto m ls in (drop_cr l # r, ok))"

definition scan_lines :: "nat \<Rightarrow> string \<Rightarrow> string list \<times> bool" where
  "scan_lines m s = scan_upto m (raw_lines s)"

lemma raw_lines_text:
  assumes "\<forall>l \<in> set ls. CHR 10 \<notin> set l"
  shows "raw_lines (concat (map (\<lambda>l. l @ [CHR 10]) ls)) = ls"
proof -
  have "split_on (CHR 10) (concat (map (\<lambda>l. l @ [CHR 10]) ls)) = ls @ [[]]"
    using assms by (induction ls) (simp_all add: split_on_append)
  then show ?thesis by (simp add: raw_lines_def)
qed

text \<open>A text of lines that fit and do not end in a carriage return is scanned in full.\<close>

lemma scan_lines_text:
  assumes "\<forall>l \<in> set ls. CHR 10 \<notin> set l \<and> drop_cr l = l \<and> length l < m"
  shows "scan_lines m (concat (map (\<lambda>l. l @ [CHR 10]) ls)) = (ls, True)"
proof -
  have "scan_upto m ls = (ls, True)" using assms by (induction ls) auto
  then show ?thesis using assms by (simp add: scan_lines_def raw_lines_text)
qed

text \<open>\<^verbatim>\<open>filepath.Clean\<close> and \<^verbatim>\<open>filepath.Join\<close>; the components come latest first.\<close>

fun clean_parts :: "bool \<Rightarrow> string list \<Rightarrow> string list \<Rightarrow> string list" where
  "clean_parts rooted acc [] = rev acc"
| "clean_parts rooted acc (p # ps) =
     (if p = '''' \<or> p = ''.'' then clean_parts rooted acc ps
      else if p = ''..'' then
        (case acc of
           [] \<Rightarrow> clean_parts rooted (if rooted then [] else [''..'']) ps
         | a # as \<Rightarrow> clean_parts rooted (if a = ''..'' then ''..'' # acc else as) ps)
      else clean_parts rooted (p # acc) ps)"

definition path_Clean :: "string \<Rightarrow> string" where
  "path_Clean path =
     (let rooted = has_prefix path ''/''; body = join ''/'' (clean_parts rooted [] (split_on (CHR ''/'') path))
      in if rooted then CHR ''/'' # body else if body = '''' then ''.'' else body)"

definition path_Join :: "string list \<Rightarrow> string" where
  "path_Join elems =
     (let parts = filter (\<lambda>e. e \<noteq> '''') elems in if parts = [] then '''' else path_Clean (join ''/'' parts))"

text \<open>\<^verbatim>\<open>filepath.Join\<close> of a clean directory and a name.\<close>

definition in_dir :: "string \<Rightarrow> string \<Rightarrow> string" where
  "in_dir dir name = dir @ ''/'' @ name"

end
