(* ===== verification/GoFloat.thy ===== *)
theory GoFloat
  imports GoStrings Complex_Main
begin

text \<open>
  Go's \<^verbatim>\<open>float64\<close> on finite values: a value is the rational it stands for, an operation is
  the exact one followed by rounding to 53 significant bits, ties to even, with the exponent
  bounded below as for subnormal numbers. Overflow does not occur in the ranges the program
  computes with (counters below \<open>2 ^ 64\<close>, times, durations); parsing, where infinities and NaN can
  arise, has a type of its own.
\<close>

section \<open>Rounding\<close>

fun ilog2 :: "nat \<Rightarrow> nat" where
  "ilog2 n = (if n < 2 then 0 else Suc (ilog2 (n div 2)))"

declare ilog2.simps [simp del]

text \<open>A power of two with an integer exponent, and the exponent of a positive rational.\<close>

definition pow2 :: "int \<Rightarrow> rat" where
  "pow2 e = (if 0 \<le> e then 2 ^ nat e else 1 / 2 ^ nat (- e))"

definition expo :: "rat \<Rightarrow> int" where
  "expo x =
     (let (p, q) = quotient_of x; k = int (ilog2 (nat p)) - int (ilog2 (nat q))
      in if pow2 k \<le> x then k else k - 1)"

text \<open>The nearest integer, a tie to the even one.\<close>

definition round_even :: "rat \<Rightarrow> int" where
  "round_even x =
     (let f = \<lfloor>x\<rfloor>; d = x - of_int f in
      if d < 1 / 2 then f else if 1 / 2 < d then f + 1 else if even f then f else f + 1)"

definition fl :: "rat \<Rightarrow> rat" where
  "fl x =
     (if x = 0 then 0
      else let u = pow2 (max (- 1022) (expo \<bar>x\<bar>) - 52) in of_int (round_even (x / u)) * u)"

definition fadd :: "rat \<Rightarrow> rat \<Rightarrow> rat" where "fadd a b = fl (a + b)"
definition fsub :: "rat \<Rightarrow> rat \<Rightarrow> rat" where "fsub a b = fl (a - b)"
definition fmul :: "rat \<Rightarrow> rat \<Rightarrow> rat" where "fmul a b = fl (a * b)"
definition fdiv :: "rat \<Rightarrow> rat \<Rightarrow> rat" where "fdiv a b = fl (a / b)"
definition float_of_int :: "int \<Rightarrow> rat" where "float_of_int i = fl (of_int i)"

lemma pow2_pos [simp]: "0 < pow2 e"
  by (simp add: pow2_def)

lemma round_even_nonneg: "0 \<le> x \<Longrightarrow> 0 \<le> round_even x"
  by (auto simp: round_even_def Let_def)

lemma fl_nonneg: "0 \<le> x \<Longrightarrow> 0 \<le> fl x"
  by (auto simp: fl_def Let_def intro!: mult_nonneg_nonneg round_even_nonneg divide_nonneg_pos less_imp_le [OF pow2_pos])

lemma fl_0 [simp]: "fl 0 = 0"
  by (simp add: fl_def)

lemma fadd_nonneg: "0 \<le> a \<Longrightarrow> 0 \<le> b \<Longrightarrow> 0 \<le> fadd a b"
  by (simp add: fadd_def fl_nonneg)

lemma fdiv_nonneg: "0 \<le> a \<Longrightarrow> 0 \<le> b \<Longrightarrow> 0 \<le> fdiv a b"
  by (simp add: fdiv_def fl_nonneg)

lemma round_even_of_int [simp]: "round_even (of_int i) = i"
  by (simp add: round_even_def)

section \<open>Decimal printing\<close>

text \<open>
  \<^verbatim>\<open>strconv.FormatFloat(x, 'f', prec, 64)\<close> prints the exact value rounded to \<open>prec\<close> decimals,
  ties to even.
\<close>

fun dec_pad :: "nat \<Rightarrow> nat \<Rightarrow> string" where
  "dec_pad 0 v = []"
| "dec_pad (Suc k) v = dec_pad k (v div 10) @ [digit_char (v mod 10)]"

definition FormatFloat :: "nat \<Rightarrow> rat \<Rightarrow> string" where
  "FormatFloat prec x =
     (let m = nat (round_even (\<bar>x\<bar> * 10 ^ prec));
          body = dec (m div 10 ^ prec) @ (if prec = 0 then [] else CHR ''.'' # dec_pad prec (m mod 10 ^ prec))
      in if x < 0 then CHR ''-'' # body else body)"

lemma length_dec_pad [simp]: "length (dec_pad k v) = k"
  by (induction k arbitrary: v) auto

lemma dec_pad_digits: "list_all is_digit (dec_pad k v)"
  by (induction k arbitrary: v) auto

lemma FormatFloat_chars: "c \<in> set (FormatFloat prec x) \<Longrightarrow> is_digit c \<or> c = CHR ''.'' \<or> c = CHR ''-''"
  using dec_digits dec_pad_digits by (auto simp: FormatFloat_def Let_def list_all_iff split: if_splits)

end
