(* ===== verification/KeyCodes.thy ===== *)
theory KeyCodes
  imports GoFloat
begin

text \<open>
  Model of \<^verbatim>\<open>inputmon/keycodes.go\<close>: the evdev ioctls and what is read from them, the 24-byte
  \<^verbatim>\<open>input_event\<close>, and the table of key names. The kernel's answer to an ioctl on a device is a
  function from the request and the buffer length to the returned length and the buffer's bytes,
  or \<open>None\<close> for an errno.
\<close>

section \<open>The ioctls\<close>

definition evKey :: u16 where "evKey = 1"
definition keyMax :: nat where "keyMax = 0x2ff"
definition keyBitmapSize :: nat where "keyBitmapSize = keyMax div 8 + 1"

definition iocRead :: u64 where "iocRead = 2"
definition iocTypeE :: u64 where "iocTypeE = 0x45"
definition nameLen :: nat where "nameLen = 256"
definition physLen :: nat where "physLen = 256"
definition nrName :: u64 where "nrName = 6"
definition nrPhys :: u64 where "nrPhys = 7"
definition nrKeyBit :: u64 where "nrKeyBit = 0x20 + ucast evKey"
definition dirShift :: nat where "dirShift = 30"
definition sizeShift :: nat where "sizeShift = 16"
definition typeShift :: nat where "typeShift = 8"

definition ioc :: "u64 \<Rightarrow> nat \<Rightarrow> u64" where
  "ioc nr len =
     push_bit dirShift iocRead OR push_bit sizeShift (word_of_nat len) OR push_bit typeShift iocTypeE OR nr"

type_synonym evdev = "u64 \<Rightarrow> nat \<Rightarrow> (int \<times> u8 list) option"

definition ioctlBuf :: "evdev \<Rightarrow> u64 \<Rightarrow> u8 list \<Rightarrow> (int \<times> u8 list) option" where
  "ioctlBuf fd req buf =
     (if buf = [] then None
      else case fd req (length buf) of
          None \<Rightarrow> None
        | Some (n, bytes) \<Rightarrow>
            if n \<le> 0 then None else Some (n, take (length buf) (bytes @ drop (length bytes) buf)))"

definition cString :: "u8 list \<Rightarrow> int \<Rightarrow> string" where
  "cString buf n =
     (let n = (if int (length buf) < n then int (length buf) else n) in
      if n \<le> 0 then ''''
      else string_of (takeWhile (\<lambda>c. c \<noteq> 0) (take (nat n) buf)))"

definition deviceName :: "evdev \<Rightarrow> string" where
  "deviceName fd =
     (case ioctlBuf fd (ioc nrName nameLen) (replicate nameLen 0) of
        None \<Rightarrow> ''''
      | Some (n, buf) \<Rightarrow> cString buf n)"

definition devicePhys :: "evdev \<Rightarrow> string" where
  "devicePhys fd =
     (case ioctlBuf fd (ioc nrPhys physLen) (replicate physLen 0) of
        None \<Rightarrow> ''''
      | Some (n, buf) \<Rightarrow> cString buf n)"

definition keyCapable :: "evdev \<Rightarrow> bool" where
  "keyCapable fd =
     (case ioctlBuf fd (ioc nrKeyBit keyBitmapSize) (replicate keyBitmapSize 0) of
        None \<Rightarrow> False
      | Some (n, buf) \<Rightarrow>
          let n = (if int (length buf) < n then int (length buf) else n)
          in list_ex (\<lambda>b. b \<noteq> 0) (take (nat n) buf))"

section \<open>Events\<close>

definition eventSize :: nat where "eventSize = 24"

record inputEvent =
  ev_Sec :: int
  ev_Usec :: int
  ev_Type :: u16
  ev_Code :: u16
  ev_Value :: int

text \<open>The outer option is the panic of a slice out of bounds, the inner one the second result.\<close>

definition decodeEvent :: "u8 list \<Rightarrow> inputEvent option option" where
  "decodeEvent b =
     (if length b < eventSize then Some None
      else do {
        sec \<leftarrow> le64_at b 0;
        usec \<leftarrow> le64_at b 8;
        typ \<leftarrow> le16_at b 16;
        code \<leftarrow> le16_at b 18;
        val \<leftarrow> le32_at b 20;
        Some (Some \<lparr>ev_Sec = sint sec, ev_Usec = sint usec, ev_Type = typ, ev_Code = code, ev_Value = sint val\<rparr>)
      })"

definition eventTimestamp :: "inputEvent \<Rightarrow> rat" where
  "eventTimestamp ev = fadd (float_of_int (ev_Sec ev)) (fdiv (float_of_int (ev_Usec ev)) (float_of_int (10 ^ 6)))"

section \<open>The table of key names\<close>

definition keyName_1 :: "(nat \<times> string) list" where
  "keyName_1 =
    [(0, ''KEY_RESERVED''), (1, ''KEY_ESC''), (2, ''KEY_1''), (3, ''KEY_2''), (4, ''KEY_3''),
     (5, ''KEY_4''), (6, ''KEY_5''), (7, ''KEY_6''), (8, ''KEY_7''), (9, ''KEY_8''),
     (10, ''KEY_9''), (11, ''KEY_0''), (12, ''KEY_MINUS''), (13, ''KEY_EQUAL''),
     (14, ''KEY_BACKSPACE''), (15, ''KEY_TAB''), (16, ''KEY_Q''), (17, ''KEY_W''), (18, ''KEY_E''),
     (19, ''KEY_R''), (20, ''KEY_T''), (21, ''KEY_Y''), (22, ''KEY_U''), (23, ''KEY_I''),
     (24, ''KEY_O''), (25, ''KEY_P''), (26, ''KEY_LEFTBRACE''), (27, ''KEY_RIGHTBRACE''),
     (28, ''KEY_ENTER''), (29, ''KEY_LEFTCTRL''), (30, ''KEY_A''), (31, ''KEY_S''),
     (32, ''KEY_D''), (33, ''KEY_F''), (34, ''KEY_G''), (35, ''KEY_H''), (36, ''KEY_J''),
     (37, ''KEY_K''), (38, ''KEY_L''), (39, ''KEY_SEMICOLON''), (40, ''KEY_APOSTROPHE''),
     (41, ''KEY_GRAVE''), (42, ''KEY_LEFTSHIFT''), (43, ''KEY_BACKSLASH''), (44, ''KEY_Z''),
     (45, ''KEY_X''), (46, ''KEY_C''), (47, ''KEY_V''), (48, ''KEY_B''), (49, ''KEY_N''),
     (50, ''KEY_M''), (51, ''KEY_COMMA''), (52, ''KEY_DOT''), (53, ''KEY_SLASH''),
     (54, ''KEY_RIGHTSHIFT''), (55, ''KEY_KPASTERISK''), (56, ''KEY_LEFTALT''),
     (57, ''KEY_SPACE''), (58, ''KEY_CAPSLOCK''), (59, ''KEY_F1''), (60, ''KEY_F2''),
     (61, ''KEY_F3''), (62, ''KEY_F4''), (63, ''KEY_F5''), (64, ''KEY_F6''), (65, ''KEY_F7''),
     (66, ''KEY_F8''), (67, ''KEY_F9''), (68, ''KEY_F10''), (69, ''KEY_NUMLOCK''),
     (70, ''KEY_SCROLLLOCK''), (71, ''KEY_KP7''), (72, ''KEY_KP8''), (73, ''KEY_KP9''),
     (74, ''KEY_KPMINUS''), (75, ''KEY_KP4''), (76, ''KEY_KP5''), (77, ''KEY_KP6''),
     (78, ''KEY_KPPLUS''), (79, ''KEY_KP1''), (80, ''KEY_KP2''), (81, ''KEY_KP3''),
     (82, ''KEY_KP0''), (83, ''KEY_KPDOT''), (85, ''KEY_ZENKAKUHANKAKU''), (86, ''KEY_102ND''),
     (87, ''KEY_F11''), (88, ''KEY_F12''), (89, ''KEY_RO''), (90, ''KEY_KATAKANA''),
     (91, ''KEY_HIRAGANA''), (92, ''KEY_HENKAN''), (93, ''KEY_KATAKANAHIRAGANA''),
     (94, ''KEY_MUHENKAN''), (95, ''KEY_KPJPCOMMA''), (96, ''KEY_KPENTER''),
     (97, ''KEY_RIGHTCTRL''), (98, ''KEY_KPSLASH''), (99, ''KEY_SYSRQ''), (100, ''KEY_RIGHTALT''),
     (101, ''KEY_LINEFEED''), (102, ''KEY_HOME''), (103, ''KEY_UP''), (104, ''KEY_PAGEUP''),
     (105, ''KEY_LEFT''), (106, ''KEY_RIGHT''), (107, ''KEY_END''), (108, ''KEY_DOWN''),
     (109, ''KEY_PAGEDOWN''), (110, ''KEY_INSERT''), (111, ''KEY_DELETE''), (112, ''KEY_MACRO''),
     (113, ''KEY_MIN_INTERESTING''), (114, ''KEY_VOLUMEDOWN''), (115, ''KEY_VOLUMEUP''),
     (116, ''KEY_POWER''), (117, ''KEY_KPEQUAL''), (118, ''KEY_KPPLUSMINUS''),
     (119, ''KEY_PAUSE''), (120, ''KEY_SCALE''), (121, ''KEY_KPCOMMA''), (122, ''KEY_HANGEUL''),
     (123, ''KEY_HANJA''), (124, ''KEY_YEN''), (125, ''KEY_LEFTMETA''), (126, ''KEY_RIGHTMETA''),
     (127, ''KEY_COMPOSE''), (128, ''KEY_STOP''), (129, ''KEY_AGAIN''), (130, ''KEY_PROPS''),
     (131, ''KEY_UNDO''), (132, ''KEY_FRONT''), (133, ''KEY_COPY''), (134, ''KEY_OPEN''),
     (135, ''KEY_PASTE''), (136, ''KEY_FIND''), (137, ''KEY_CUT''), (138, ''KEY_HELP''),
     (139, ''KEY_MENU''), (140, ''KEY_CALC'')]"

definition keyName_2 :: "(nat \<times> string) list" where
  "keyName_2 =
    [(141, ''KEY_SETUP''), (142, ''KEY_SLEEP''), (143, ''KEY_WAKEUP''), (144, ''KEY_FILE''),
     (145, ''KEY_SENDFILE''), (146, ''KEY_DELETEFILE''), (147, ''KEY_XFER''), (148, ''KEY_PROG1''),
     (149, ''KEY_PROG2''), (150, ''KEY_WWW''), (151, ''KEY_MSDOS''), (152, ''KEY_COFFEE''),
     (153, ''KEY_DIRECTION''), (154, ''KEY_CYCLEWINDOWS''), (155, ''KEY_MAIL''),
     (156, ''KEY_BOOKMARKS''), (157, ''KEY_COMPUTER''), (158, ''KEY_BACK''),
     (159, ''KEY_FORWARD''), (160, ''KEY_CLOSECD''), (161, ''KEY_EJECTCD''),
     (162, ''KEY_EJECTCLOSECD''), (163, ''KEY_NEXTSONG''), (164, ''KEY_PLAYPAUSE''),
     (165, ''KEY_PREVIOUSSONG''), (166, ''KEY_STOPCD''), (167, ''KEY_RECORD''),
     (168, ''KEY_REWIND''), (169, ''KEY_PHONE''), (170, ''KEY_ISO''), (171, ''KEY_CONFIG''),
     (172, ''KEY_HOMEPAGE''), (173, ''KEY_REFRESH''), (174, ''KEY_EXIT''), (175, ''KEY_MOVE''),
     (176, ''KEY_EDIT''), (177, ''KEY_SCROLLUP''), (178, ''KEY_SCROLLDOWN''),
     (179, ''KEY_KPLEFTPAREN''), (180, ''KEY_KPRIGHTPAREN''), (181, ''KEY_NEW''),
     (182, ''KEY_REDO''), (183, ''KEY_F13''), (184, ''KEY_F14''), (185, ''KEY_F15''),
     (186, ''KEY_F16''), (187, ''KEY_F17''), (188, ''KEY_F18''), (189, ''KEY_F19''),
     (190, ''KEY_F20''), (191, ''KEY_F21''), (192, ''KEY_F22''), (193, ''KEY_F23''),
     (194, ''KEY_F24''), (200, ''KEY_PLAYCD''), (201, ''KEY_PAUSECD''), (202, ''KEY_PROG3''),
     (203, ''KEY_PROG4''), (204, ''KEY_ALL_APPLICATIONS''), (205, ''KEY_SUSPEND''),
     (206, ''KEY_CLOSE''), (207, ''KEY_PLAY''), (208, ''KEY_FASTFORWARD''),
     (209, ''KEY_BASSBOOST''), (210, ''KEY_PRINT''), (211, ''KEY_HP''), (212, ''KEY_CAMERA''),
     (213, ''KEY_SOUND''), (214, ''KEY_QUESTION''), (215, ''KEY_EMAIL''), (216, ''KEY_CHAT''),
     (217, ''KEY_SEARCH''), (218, ''KEY_CONNECT''), (219, ''KEY_FINANCE''), (220, ''KEY_SPORT''),
     (221, ''KEY_SHOP''), (222, ''KEY_ALTERASE''), (223, ''KEY_CANCEL''),
     (224, ''KEY_BRIGHTNESSDOWN''), (225, ''KEY_BRIGHTNESSUP''), (226, ''KEY_MEDIA''),
     (227, ''KEY_SWITCHVIDEOMODE''), (228, ''KEY_KBDILLUMTOGGLE''), (229, ''KEY_KBDILLUMDOWN''),
     (230, ''KEY_KBDILLUMUP''), (231, ''KEY_SEND''), (232, ''KEY_REPLY''),
     (233, ''KEY_FORWARDMAIL''), (234, ''KEY_SAVE''), (235, ''KEY_DOCUMENTS''),
     (236, ''KEY_BATTERY''), (237, ''KEY_BLUETOOTH''), (238, ''KEY_WLAN''), (239, ''KEY_UWB''),
     (240, ''KEY_UNKNOWN''), (241, ''KEY_VIDEO_NEXT''), (242, ''KEY_VIDEO_PREV''),
     (243, ''KEY_BRIGHTNESS_CYCLE''), (244, ''KEY_BRIGHTNESS_AUTO''), (245, ''KEY_DISPLAY_OFF''),
     (246, ''KEY_WIMAX''), (247, ''KEY_RFKILL''), (248, ''KEY_MICMUTE''), (256, ''BTN_0''),
     (257, ''BTN_1''), (258, ''BTN_2''), (259, ''BTN_3''), (260, ''BTN_4''), (261, ''BTN_5''),
     (262, ''BTN_6''), (263, ''BTN_7''), (264, ''BTN_8''), (265, ''BTN_9''), (272, ''BTN_LEFT''),
     (273, ''BTN_RIGHT''), (274, ''BTN_MIDDLE''), (275, ''BTN_SIDE''), (276, ''BTN_EXTRA''),
     (277, ''BTN_FORWARD''), (278, ''BTN_BACK''), (279, ''BTN_TASK''), (288, ''BTN_JOYSTICK''),
     (289, ''BTN_THUMB''), (290, ''BTN_THUMB2''), (291, ''BTN_TOP''), (292, ''BTN_TOP2''),
     (293, ''BTN_PINKIE''), (294, ''BTN_BASE''), (295, ''BTN_BASE2''), (296, ''BTN_BASE3''),
     (297, ''BTN_BASE4''), (298, ''BTN_BASE5''), (299, ''BTN_BASE6''), (303, ''BTN_DEAD''),
     (304, ''BTN_A''), (305, ''BTN_B''), (306, ''BTN_C''), (307, ''BTN_NORTH''),
     (308, ''BTN_WEST''), (309, ''BTN_Z'')]"

definition keyName_3 :: "(nat \<times> string) list" where
  "keyName_3 =
    [(310, ''BTN_TL''), (311, ''BTN_TR''), (312, ''BTN_TL2''), (313, ''BTN_TR2''),
     (314, ''BTN_SELECT''), (315, ''BTN_START''), (316, ''BTN_MODE''), (317, ''BTN_THUMBL''),
     (318, ''BTN_THUMBR''), (320, ''BTN_DIGI''), (321, ''BTN_TOOL_RUBBER''),
     (322, ''BTN_TOOL_BRUSH''), (323, ''BTN_TOOL_PENCIL''), (324, ''BTN_TOOL_AIRBRUSH''),
     (325, ''BTN_TOOL_FINGER''), (326, ''BTN_TOOL_MOUSE''), (327, ''BTN_TOOL_LENS''),
     (328, ''BTN_TOOL_QUINTTAP''), (329, ''BTN_STYLUS3''), (330, ''BTN_TOUCH''),
     (331, ''BTN_STYLUS''), (332, ''BTN_STYLUS2''), (333, ''BTN_TOOL_DOUBLETAP''),
     (334, ''BTN_TOOL_TRIPLETAP''), (335, ''BTN_TOOL_QUADTAP''), (336, ''BTN_GEAR_DOWN''),
     (337, ''BTN_GEAR_UP''), (352, ''KEY_OK''), (353, ''KEY_SELECT''), (354, ''KEY_GOTO''),
     (355, ''KEY_CLEAR''), (356, ''KEY_POWER2''), (357, ''KEY_OPTION''), (358, ''KEY_INFO''),
     (359, ''KEY_TIME''), (360, ''KEY_VENDOR''), (361, ''KEY_ARCHIVE''), (362, ''KEY_PROGRAM''),
     (363, ''KEY_CHANNEL''), (364, ''KEY_FAVORITES''), (365, ''KEY_EPG''), (366, ''KEY_PVR''),
     (367, ''KEY_MHP''), (368, ''KEY_LANGUAGE''), (369, ''KEY_TITLE''), (370, ''KEY_SUBTITLE''),
     (371, ''KEY_ANGLE''), (372, ''KEY_FULL_SCREEN''), (373, ''KEY_MODE''),
     (374, ''KEY_KEYBOARD''), (375, ''KEY_ASPECT_RATIO''), (376, ''KEY_PC''), (377, ''KEY_TV''),
     (378, ''KEY_TV2''), (379, ''KEY_VCR''), (380, ''KEY_VCR2''), (381, ''KEY_SAT''),
     (382, ''KEY_SAT2''), (383, ''KEY_CD''), (384, ''KEY_TAPE''), (385, ''KEY_RADIO''),
     (386, ''KEY_TUNER''), (387, ''KEY_PLAYER''), (388, ''KEY_TEXT''), (389, ''KEY_DVD''),
     (390, ''KEY_AUX''), (391, ''KEY_MP3''), (392, ''KEY_AUDIO''), (393, ''KEY_VIDEO''),
     (394, ''KEY_DIRECTORY''), (395, ''KEY_LIST''), (396, ''KEY_MEMO''), (397, ''KEY_CALENDAR''),
     (398, ''KEY_RED''), (399, ''KEY_GREEN''), (400, ''KEY_YELLOW''), (401, ''KEY_BLUE''),
     (402, ''KEY_CHANNELUP''), (403, ''KEY_CHANNELDOWN''), (404, ''KEY_FIRST''),
     (405, ''KEY_LAST''), (406, ''KEY_AB''), (407, ''KEY_NEXT''), (408, ''KEY_RESTART''),
     (409, ''KEY_SLOW''), (410, ''KEY_SHUFFLE''), (411, ''KEY_BREAK''), (412, ''KEY_PREVIOUS''),
     (413, ''KEY_DIGITS''), (414, ''KEY_TEEN''), (415, ''KEY_TWEN''), (416, ''KEY_VIDEOPHONE''),
     (417, ''KEY_GAMES''), (418, ''KEY_ZOOMIN''), (419, ''KEY_ZOOMOUT''), (420, ''KEY_ZOOMRESET''),
     (421, ''KEY_WORDPROCESSOR''), (422, ''KEY_EDITOR''), (423, ''KEY_SPREADSHEET''),
     (424, ''KEY_GRAPHICSEDITOR''), (425, ''KEY_PRESENTATION''), (426, ''KEY_DATABASE''),
     (427, ''KEY_NEWS''), (428, ''KEY_VOICEMAIL''), (429, ''KEY_ADDRESSBOOK''),
     (430, ''KEY_MESSENGER''), (431, ''KEY_BRIGHTNESS_TOGGLE''), (432, ''KEY_SPELLCHECK''),
     (433, ''KEY_LOGOFF''), (434, ''KEY_DOLLAR''), (435, ''KEY_EURO''), (436, ''KEY_FRAMEBACK''),
     (437, ''KEY_FRAMEFORWARD''), (438, ''KEY_CONTEXT_MENU''), (439, ''KEY_MEDIA_REPEAT''),
     (440, ''KEY_10CHANNELSUP''), (441, ''KEY_10CHANNELSDOWN''), (442, ''KEY_IMAGES''),
     (444, ''KEY_NOTIFICATION_CENTER''), (445, ''KEY_PICKUP_PHONE''), (446, ''KEY_HANGUP_PHONE''),
     (447, ''KEY_LINK_PHONE''), (448, ''KEY_DEL_EOL''), (449, ''KEY_DEL_EOS''),
     (450, ''KEY_INS_LINE''), (451, ''KEY_DEL_LINE''), (464, ''KEY_FN''), (465, ''KEY_FN_ESC''),
     (466, ''KEY_FN_F1''), (467, ''KEY_FN_F2''), (468, ''KEY_FN_F3''), (469, ''KEY_FN_F4''),
     (470, ''KEY_FN_F5''), (471, ''KEY_FN_F6''), (472, ''KEY_FN_F7''), (473, ''KEY_FN_F8''),
     (474, ''KEY_FN_F9''), (475, ''KEY_FN_F10''), (476, ''KEY_FN_F11''), (477, ''KEY_FN_F12'')]"

definition keyName_4 :: "(nat \<times> string) list" where
  "keyName_4 =
    [(478, ''KEY_FN_1''), (479, ''KEY_FN_2''), (480, ''KEY_FN_D''), (481, ''KEY_FN_E''),
     (482, ''KEY_FN_F''), (483, ''KEY_FN_S''), (484, ''KEY_FN_B''), (485, ''KEY_FN_RIGHT_SHIFT''),
     (497, ''KEY_BRL_DOT1''), (498, ''KEY_BRL_DOT2''), (499, ''KEY_BRL_DOT3''),
     (500, ''KEY_BRL_DOT4''), (501, ''KEY_BRL_DOT5''), (502, ''KEY_BRL_DOT6''),
     (503, ''KEY_BRL_DOT7''), (504, ''KEY_BRL_DOT8''), (505, ''KEY_BRL_DOT9''),
     (506, ''KEY_BRL_DOT10''), (512, ''KEY_NUMERIC_0''), (513, ''KEY_NUMERIC_1''),
     (514, ''KEY_NUMERIC_2''), (515, ''KEY_NUMERIC_3''), (516, ''KEY_NUMERIC_4''),
     (517, ''KEY_NUMERIC_5''), (518, ''KEY_NUMERIC_6''), (519, ''KEY_NUMERIC_7''),
     (520, ''KEY_NUMERIC_8''), (521, ''KEY_NUMERIC_9''), (522, ''KEY_NUMERIC_STAR''),
     (523, ''KEY_NUMERIC_POUND''), (524, ''KEY_NUMERIC_A''), (525, ''KEY_NUMERIC_B''),
     (526, ''KEY_NUMERIC_C''), (527, ''KEY_NUMERIC_D''), (528, ''KEY_CAMERA_FOCUS''),
     (529, ''KEY_WPS_BUTTON''), (530, ''KEY_TOUCHPAD_TOGGLE''), (531, ''KEY_TOUCHPAD_ON''),
     (532, ''KEY_TOUCHPAD_OFF''), (533, ''KEY_CAMERA_ZOOMIN''), (534, ''KEY_CAMERA_ZOOMOUT''),
     (535, ''KEY_CAMERA_UP''), (536, ''KEY_CAMERA_DOWN''), (537, ''KEY_CAMERA_LEFT''),
     (538, ''KEY_CAMERA_RIGHT''), (539, ''KEY_ATTENDANT_ON''), (540, ''KEY_ATTENDANT_OFF''),
     (541, ''KEY_ATTENDANT_TOGGLE''), (542, ''KEY_LIGHTS_TOGGLE''), (544, ''BTN_DPAD_UP''),
     (545, ''BTN_DPAD_DOWN''), (546, ''BTN_DPAD_LEFT''), (547, ''BTN_DPAD_RIGHT''),
     (548, ''BTN_GRIPL''), (549, ''BTN_GRIPR''), (550, ''BTN_GRIPL2''), (551, ''BTN_GRIPR2''),
     (560, ''KEY_ALS_TOGGLE''), (561, ''KEY_ROTATE_LOCK_TOGGLE''),
     (562, ''KEY_REFRESH_RATE_TOGGLE''), (576, ''KEY_BUTTONCONFIG''), (577, ''KEY_TASKMANAGER''),
     (578, ''KEY_JOURNAL''), (579, ''KEY_CONTROLPANEL''), (580, ''KEY_APPSELECT''),
     (581, ''KEY_SCREENSAVER''), (582, ''KEY_VOICECOMMAND''), (583, ''KEY_ASSISTANT''),
     (584, ''KEY_KBD_LAYOUT_NEXT''), (585, ''KEY_EMOJI_PICKER''), (586, ''KEY_DICTATE''),
     (587, ''KEY_CAMERA_ACCESS_ENABLE''), (588, ''KEY_CAMERA_ACCESS_DISABLE''),
     (589, ''KEY_CAMERA_ACCESS_TOGGLE''), (590, ''KEY_ACCESSIBILITY''),
     (591, ''KEY_DO_NOT_DISTURB''), (592, ''KEY_BRIGHTNESS_MIN''), (593, ''KEY_BRIGHTNESS_MAX''),
     (594, ''KEY_EPRIVACY_SCREEN_ON''), (595, ''KEY_EPRIVACY_SCREEN_OFF''),
     (608, ''KEY_KBDINPUTASSIST_PREV''), (609, ''KEY_KBDINPUTASSIST_NEXT''),
     (610, ''KEY_KBDINPUTASSIST_PREVGROUP''), (611, ''KEY_KBDINPUTASSIST_NEXTGROUP''),
     (612, ''KEY_KBDINPUTASSIST_ACCEPT''), (613, ''KEY_KBDINPUTASSIST_CANCEL''),
     (614, ''KEY_RIGHT_UP''), (615, ''KEY_RIGHT_DOWN''), (616, ''KEY_LEFT_UP''),
     (617, ''KEY_LEFT_DOWN''), (618, ''KEY_ROOT_MENU''), (619, ''KEY_MEDIA_TOP_MENU''),
     (620, ''KEY_NUMERIC_11''), (621, ''KEY_NUMERIC_12''), (622, ''KEY_AUDIO_DESC''),
     (623, ''KEY_3D_MODE''), (624, ''KEY_NEXT_FAVORITE''), (625, ''KEY_STOP_RECORD''),
     (626, ''KEY_PAUSE_RECORD''), (627, ''KEY_VOD''), (628, ''KEY_UNMUTE''),
     (629, ''KEY_FASTREVERSE''), (630, ''KEY_SLOWREVERSE''), (631, ''KEY_DATA''),
     (632, ''KEY_ONSCREEN_KEYBOARD''), (633, ''KEY_PRIVACY_SCREEN_TOGGLE''),
     (634, ''KEY_SELECTIVE_SCREENSHOT''), (635, ''KEY_NEXT_ELEMENT''),
     (636, ''KEY_PREVIOUS_ELEMENT''), (637, ''KEY_AUTOPILOT_ENGAGE_TOGGLE''),
     (638, ''KEY_MARK_WAYPOINT''), (639, ''KEY_SOS''), (640, ''KEY_NAV_CHART''),
     (641, ''KEY_FISHING_CHART''), (642, ''KEY_SINGLE_RANGE_RADAR''),
     (643, ''KEY_DUAL_RANGE_RADAR''), (644, ''KEY_RADAR_OVERLAY''),
     (645, ''KEY_TRADITIONAL_SONAR''), (646, ''KEY_CLEARVU_SONAR''), (647, ''KEY_SIDEVU_SONAR''),
     (648, ''KEY_NAV_INFO''), (649, ''KEY_BRIGHTNESS_MENU''), (656, ''KEY_MACRO1''),
     (657, ''KEY_MACRO2''), (658, ''KEY_MACRO3''), (659, ''KEY_MACRO4''), (660, ''KEY_MACRO5''),
     (661, ''KEY_MACRO6''), (662, ''KEY_MACRO7''), (663, ''KEY_MACRO8''), (664, ''KEY_MACRO9''),
     (665, ''KEY_MACRO10''), (666, ''KEY_MACRO11''), (667, ''KEY_MACRO12''),
     (668, ''KEY_MACRO13''), (669, ''KEY_MACRO14''), (670, ''KEY_MACRO15''),
     (671, ''KEY_MACRO16''), (672, ''KEY_MACRO17''), (673, ''KEY_MACRO18'')]"

definition keyName_5 :: "(nat \<times> string) list" where
  "keyName_5 =
    [(674, ''KEY_MACRO19''), (675, ''KEY_MACRO20''), (676, ''KEY_MACRO21''),
     (677, ''KEY_MACRO22''), (678, ''KEY_MACRO23''), (679, ''KEY_MACRO24''),
     (680, ''KEY_MACRO25''), (681, ''KEY_MACRO26''), (682, ''KEY_MACRO27''),
     (683, ''KEY_MACRO28''), (684, ''KEY_MACRO29''), (685, ''KEY_MACRO30''),
     (688, ''KEY_MACRO_RECORD_START''), (689, ''KEY_MACRO_RECORD_STOP''),
     (690, ''KEY_MACRO_PRESET_CYCLE''), (691, ''KEY_MACRO_PRESET1''), (692, ''KEY_MACRO_PRESET2''),
     (693, ''KEY_MACRO_PRESET3''), (696, ''KEY_KBD_LCD_MENU1''), (697, ''KEY_KBD_LCD_MENU2''),
     (698, ''KEY_KBD_LCD_MENU3''), (699, ''KEY_KBD_LCD_MENU4''), (700, ''KEY_KBD_LCD_MENU5''),
     (701, ''KEY_PERFORMANCE''), (704, ''BTN_TRIGGER_HAPPY''), (705, ''BTN_TRIGGER_HAPPY2''),
     (706, ''BTN_TRIGGER_HAPPY3''), (707, ''BTN_TRIGGER_HAPPY4''), (708, ''BTN_TRIGGER_HAPPY5''),
     (709, ''BTN_TRIGGER_HAPPY6''), (710, ''BTN_TRIGGER_HAPPY7''), (711, ''BTN_TRIGGER_HAPPY8''),
     (712, ''BTN_TRIGGER_HAPPY9''), (713, ''BTN_TRIGGER_HAPPY10''), (714, ''BTN_TRIGGER_HAPPY11''),
     (715, ''BTN_TRIGGER_HAPPY12''), (716, ''BTN_TRIGGER_HAPPY13''),
     (717, ''BTN_TRIGGER_HAPPY14''), (718, ''BTN_TRIGGER_HAPPY15''),
     (719, ''BTN_TRIGGER_HAPPY16''), (720, ''BTN_TRIGGER_HAPPY17''),
     (721, ''BTN_TRIGGER_HAPPY18''), (722, ''BTN_TRIGGER_HAPPY19''),
     (723, ''BTN_TRIGGER_HAPPY20''), (724, ''BTN_TRIGGER_HAPPY21''),
     (725, ''BTN_TRIGGER_HAPPY22''), (726, ''BTN_TRIGGER_HAPPY23''),
     (727, ''BTN_TRIGGER_HAPPY24''), (728, ''BTN_TRIGGER_HAPPY25''),
     (729, ''BTN_TRIGGER_HAPPY26''), (730, ''BTN_TRIGGER_HAPPY27''),
     (731, ''BTN_TRIGGER_HAPPY28''), (732, ''BTN_TRIGGER_HAPPY29''),
     (733, ''BTN_TRIGGER_HAPPY30''), (734, ''BTN_TRIGGER_HAPPY31''),
     (735, ''BTN_TRIGGER_HAPPY32''), (736, ''BTN_TRIGGER_HAPPY33''),
     (737, ''BTN_TRIGGER_HAPPY34''), (738, ''BTN_TRIGGER_HAPPY35''),
     (739, ''BTN_TRIGGER_HAPPY36''), (740, ''BTN_TRIGGER_HAPPY37''),
     (741, ''BTN_TRIGGER_HAPPY38''), (742, ''BTN_TRIGGER_HAPPY39''), (743, ''BTN_TRIGGER_HAPPY40'')]"

definition keyName :: "(nat \<times> string) list" where
  "keyName = keyName_1 @ keyName_2 @ keyName_3 @ keyName_4 @ keyName_5"

definition keyname :: "u16 \<Rightarrow> string" where
  "keyname code =
     (case map_of keyName (unat code) of
        Some name \<Rightarrow> name
      | None \<Rightarrow> Itoa (uint code))"

section \<open>Events round trip\<close>

text \<open>The kernel's side: the bytes of an \<^verbatim>\<open>input_event\<close>.\<close>

definition encode_event :: "inputEvent \<Rightarrow> u8 list" where
  "encode_event ev =
     put_le64 (word_of_int (ev_Sec ev)) @ put_le64 (word_of_int (ev_Usec ev)) @ put_le16 (ev_Type ev)
       @ put_le16 (ev_Code ev) @ put_le32 (word_of_int (ev_Value ev))"

definition wf_event :: "inputEvent \<Rightarrow> bool" where
  "wf_event ev \<longleftrightarrow> - (2 ^ 63) \<le> ev_Sec ev \<and> ev_Sec ev < 2 ^ 63 \<and> - (2 ^ 63) \<le> ev_Usec ev \<and> ev_Usec ev < 2 ^ 63
     \<and> - (2 ^ 31) \<le> ev_Value ev \<and> ev_Value ev < 2 ^ 31"

lemma length_encode_event [simp]: "length (encode_event ev) = 24"
  by (simp add: encode_event_def)

lemma sint_word_of_int64: "- (2 ^ 63) \<le> i \<Longrightarrow> i < 2 ^ 63 \<Longrightarrow> sint (word_of_int i :: u64) = i"
  by (subst sint_sbintrunc', subst signed_take_bit_int_eq_self) simp_all

lemma sint_word_of_int32: "- (2 ^ 31) \<le> i \<Longrightarrow> i < 2 ^ 31 \<Longrightarrow> sint (word_of_int i :: u32) = i"
  by (subst sint_sbintrunc', subst signed_take_bit_int_eq_self) simp_all

lemma decodeEvent_encode [codec_simps]:
  assumes "wf_event ev"
  shows "decodeEvent (encode_event ev) = Some (Some ev)"
  using assms
  by (simp add: decodeEvent_def eventSize_def wf_event_def)
    (simp add: encode_event_def read_at_skip read_at_front sint_word_of_int64 sint_word_of_int32)

lemma decodeEvent_total: "\<exists>r. decodeEvent b = Some r \<and> (r = None \<longleftrightarrow> length b < eventSize)"
proof (cases "length b < eventSize")
  case False
  then have "24 \<le> length b" by (simp add: eventSize_def)
  then show ?thesis
    using False le64_at_Some [of 0 b] le64_at_Some [of 8 b] le16_at_Some [of 16 b] le16_at_Some [of 18 b]
      le32_at_Some [of 20 b] by (auto simp: decodeEvent_def)
qed (simp add: decodeEvent_def)

section \<open>The names\<close>

text \<open>What the names are made of: nothing that separates fields or lines of the log.\<close>

definition name_char :: "char \<Rightarrow> bool" where
  "name_char c \<longleftrightarrow> c \<in> set ''ABCDEFGHIJKLMNOPQRSTUVWXYZ0123456789_''"

definition clean_name :: "string \<Rightarrow> bool" where
  "clean_name n \<longleftrightarrow> list_all name_char n \<and> take 1 n \<in> {''K'', ''B''}"

fun ascending :: "nat list \<Rightarrow> bool" where
  "ascending (x # y # ys) \<longleftrightarrow> x < y \<and> ascending (y # ys)"
| "ascending xs \<longleftrightarrow> True"

lemma ascending_distinct: "ascending xs \<Longrightarrow> sorted xs \<and> distinct xs"
  by (induction xs rule: ascending.induct) auto

lemma codes_ascending: "ascending (map fst keyName)"
  by code_simp

lemma distinct_codes: "distinct (map fst keyName)"
  using codes_ascending by (simp add: ascending_distinct)

lemma clean_keyName_1: "list_all (clean_name \<circ> snd) keyName_1"
  by code_simp

lemma clean_keyName_2: "list_all (clean_name \<circ> snd) keyName_2"
  by code_simp

lemma clean_keyName_3: "list_all (clean_name \<circ> snd) keyName_3"
  by code_simp

lemma clean_keyName_4: "list_all (clean_name \<circ> snd) keyName_4"
  by code_simp

lemma clean_keyName_5: "list_all (clean_name \<circ> snd) keyName_5"
  by code_simp

lemma clean_keyName: "list_all (clean_name \<circ> snd) keyName"
  using clean_keyName_1 clean_keyName_2 clean_keyName_3 clean_keyName_4 clean_keyName_5
  unfolding keyName_def list_all_append by blast

lemma keyname_cases:
  obtains (named) n where "(unat code, n) \<in> set keyName" "keyname code = n" "clean_name n"
  | (decimal) "unat code \<notin> fst ` set keyName" "keyname code = Itoa (uint code)"
proof (cases "map_of keyName (unat code)")
  case None
  then have "keyname code = Itoa (uint code)" by (simp add: keyname_def)
  with None show ?thesis using decimal by (simp add: map_of_eq_None_iff)
next
  case (Some n)
  then have "(unat code, n) \<in> set keyName" by (rule map_of_SomeD)
  moreover from this clean_keyName have "clean_name n" by (auto simp: list_all_iff)
  ultimately show ?thesis using named Some by (simp add: keyname_def)
qed

lemma keyname_named:
  assumes "(unat code, n) \<in> set keyName"
  shows "keyname code = n"
  using assms distinct_codes by (simp add: keyname_def)

end
