(* ===== verification/GoSort.thy ===== *)
theory GoSort
  imports Prelude
begin

text \<open>
  The package \<^verbatim>\<open>sort\<close> as the program uses it: binary search, stable sorting with a
  \<^verbatim>\<open>less\<close> closure, and the contract of \<^verbatim>\<open>sort.Slice\<close>, which leaves the order of equal
  elements open. The locale \<open>less_order\<close> states what Go asks of a \<^verbatim>\<open>less\<close> closure (a strict
  weak order); every sort of the program interprets it on its own closure.
\<close>

section \<open>\<^verbatim>\<open>sort.Search\<close>\<close>

function search_loop :: "(nat \<Rightarrow> bool) \<Rightarrow> nat \<Rightarrow> nat \<Rightarrow> nat" where
  "search_loop f i j =
     (if i < j then
        let h = (i + j) div 2 in
        if \<not> f h then search_loop f (h + 1) j else search_loop f i h
      else i)"
  by pat_completeness auto
termination
  by (relation "measure (\<lambda>(f, i, j). j - i)") auto

declare search_loop.simps [simp del]

definition Search :: "nat \<Rightarrow> (nat \<Rightarrow> bool) \<Rightarrow> nat" where
  "Search n f = search_loop f 0 n"

lemma Search_0 [simp]: "Search 0 f = 0"
  by (simp add: Search_def search_loop.simps)

lemma search_loop_least:
  assumes "i \<le> j" and "\<And>a b. a \<le> b \<Longrightarrow> b < n \<Longrightarrow> f a \<Longrightarrow> f b" and "j \<le> n"
    and "\<forall>k<i. \<not> f k" and "\<forall>k. j \<le> k \<and> k < n \<longrightarrow> f k"
  shows "search_loop f i j \<le> n \<and> (\<forall>k < search_loop f i j. \<not> f k)
    \<and> (\<forall>k. search_loop f i j \<le> k \<and> k < n \<longrightarrow> f k)"
  using assms
proof (induction f i j rule: search_loop.induct)
  case (1 f i j)
  show ?case
  proof (cases "i < j")
    case False
    then have "search_loop f i j = i" by (simp add: search_loop.simps [of f i j])
    with False 1(3,5,6,7) show ?thesis by simp
  next
    case True
    let ?h = "(i + j) div 2"
    have h: "i \<le> ?h" "?h < j" using True by auto
    show ?thesis
    proof (cases "f ?h")
      case True': True
      have "\<forall>k. ?h \<le> k \<and> k < n \<longrightarrow> f k"
        using True' 1(4) by blast
      then have "search_loop f i ?h \<le> n \<and> (\<forall>k < search_loop f i ?h. \<not> f k)
          \<and> (\<forall>k. search_loop f i ?h \<le> k \<and> k < n \<longrightarrow> f k)"
        using h 1(4-6) True True' by (intro 1(2)) auto
      with True True' show ?thesis by (simp add: search_loop.simps [of f i j] Let_def)
    next
      case False
      have "\<forall>k<?h + 1. \<not> f k"
        using False 1(4,5) h by (metis Suc_eq_plus1 less_Suc_eq_le order_less_le_trans)
      then have "search_loop f (?h + 1) j \<le> n \<and> (\<forall>k < search_loop f (?h + 1) j. \<not> f k)
          \<and> (\<forall>k. search_loop f (?h + 1) j \<le> k \<and> k < n \<longrightarrow> f k)"
        using h 1(4,5,7) True False by (intro 1(1)) auto
      with True False show ?thesis by (simp add: search_loop.simps [of f i j] Let_def)
    qed
  qed
qed

text \<open>On a monotone predicate the search returns the first index at which it holds.\<close>

lemma Search_least:
  assumes "\<And>a b. a \<le> b \<Longrightarrow> b < n \<Longrightarrow> f a \<Longrightarrow> f b"
  shows "Search n f \<le> n" and "k < Search n f \<Longrightarrow> \<not> f k"
    and "Search n f \<le> k \<Longrightarrow> k < n \<Longrightarrow> f k"
proof -
  have *: "search_loop f 0 n \<le> n \<and> (\<forall>k < search_loop f 0 n. \<not> f k)
      \<and> (\<forall>k. search_loop f 0 n \<le> k \<and> k < n \<longrightarrow> f k)"
    by (rule search_loop_least [OF le0 assms le_refl]) auto
  from * show "Search n f \<le> n" by (simp add: Search_def)
  from * show "k < Search n f \<Longrightarrow> \<not> f k" by (simp add: Search_def)
  from * show "Search n f \<le> k \<Longrightarrow> k < n \<Longrightarrow> f k" by (simp add: Search_def)
qed

section \<open>\<^verbatim>\<open>sort.SliceStable\<close>\<close>

text \<open>
  The insertion sort that \<^verbatim>\<open>SliceStable\<close> runs on each block: an element moves left past
  those it is less than. The accumulator is the sorted prefix, last element first. For a strict
  weak order every stable sort gives this list (\<open>stable_unique\<close> below), so the block size and the
  merging of blocks do not show.
\<close>

fun ins_left :: "('a \<Rightarrow> 'a \<Rightarrow> bool) \<Rightarrow> 'a \<Rightarrow> 'a list \<Rightarrow> 'a list" where
  "ins_left lt x [] = [x]"
| "ins_left lt x (y # ys) = (if lt x y then y # ins_left lt x ys else x # y # ys)"

definition SliceStable :: "('a \<Rightarrow> 'a \<Rightarrow> bool) \<Rightarrow> 'a list \<Rightarrow> 'a list" where
  "SliceStable lt xs = rev (foldl (\<lambda>acc x. ins_left lt x acc) [] xs)"

lemma mset_ins_left [simp]: "mset (ins_left lt x ys) = add_mset x (mset ys)"
  by (induction ys) auto

lemma mset_foldl_ins: "mset (foldl (\<lambda>acc x. ins_left lt x acc) ys xs) = mset xs + mset ys"
  by (induction xs arbitrary: ys) auto

lemma mset_SliceStable [simp]: "mset (SliceStable lt xs) = mset xs"
  by (simp add: SliceStable_def mset_foldl_ins)

lemma length_SliceStable [simp]: "length (SliceStable lt xs) = length xs"
  by (metis mset_SliceStable size_mset)

lemma set_SliceStable [simp]: "set (SliceStable lt xs) = set xs"
  by (metis mset_SliceStable set_mset_mset)

text \<open>The contract of \<^verbatim>\<open>sort.Slice\<close>: a sorted permutation, nothing about equal elements.\<close>

definition is_sort_of :: "('a \<Rightarrow> 'a \<Rightarrow> bool) \<Rightarrow> 'a list \<Rightarrow> 'a list \<Rightarrow> bool" where
  "is_sort_of lt xs ys \<longleftrightarrow> mset ys = mset xs \<and> sorted_wrt (\<lambda>a b. \<not> lt b a) ys"

locale less_order =
  fixes lt :: "'a \<Rightarrow> 'a \<Rightarrow> bool"
  assumes irrefl: "\<not> lt x x"
    and trans: "lt x y \<Longrightarrow> lt y z \<Longrightarrow> lt x z"
    and incomp_trans: "\<not> lt x y \<Longrightarrow> \<not> lt y z \<Longrightarrow> \<not> lt x z"
begin

lemma asym: "lt x y \<Longrightarrow> \<not> lt y x"
  using irrefl trans by blast

lemma sorted_ins_left:
  "sorted_wrt (\<lambda>a b. \<not> lt a b) ys \<Longrightarrow> sorted_wrt (\<lambda>a b. \<not> lt a b) (ins_left lt x ys)"
proof (induction ys)
  case Nil
  then show ?case by simp
next
  case (Cons y ys)
  have set: "set (ins_left lt x ys) = insert x (set ys)"
    by (metis mset_ins_left set_mset_add_mset_insert set_mset_mset)
  show ?case
  proof (cases "lt x y")
    case True
    with Cons set show ?thesis by (auto dest: asym)
  next
    case False
    with Cons show ?thesis using incomp_trans [OF False] by auto
  qed
qed

lemma SliceStable_sorted: "sorted_wrt (\<lambda>a b. \<not> lt b a) (SliceStable lt xs)"
proof -
  have "sorted_wrt (\<lambda>a b. \<not> lt a b) ys \<Longrightarrow>
      sorted_wrt (\<lambda>a b. \<not> lt a b) (foldl (\<lambda>acc x. ins_left lt x acc) ys xs)" for ys
    by (induction xs arbitrary: ys) (auto intro: sorted_ins_left)
  from this [of "[]"] show ?thesis by (simp add: SliceStable_def sorted_wrt_rev)
qed

lemma SliceStable_is_sort: "is_sort_of lt xs (SliceStable lt xs)"
  by (simp add: is_sort_of_def SliceStable_sorted)

text \<open>Equal elements keep their order.\<close>

lemma filter_ins_left:
  assumes "sorted_wrt (\<lambda>a b. \<not> lt a b) ys"
  shows "filter (\<lambda>y. \<not> lt a y \<and> \<not> lt y a) (ins_left lt x ys)
    = filter (\<lambda>y. \<not> lt a y \<and> \<not> lt y a) (x # ys)"
  using assms
proof (induction ys)
  case (Cons y ys)
  show ?case
  proof (cases "lt x y")
    case True
    then have "\<not> ((\<not> lt a x \<and> \<not> lt x a) \<and> (\<not> lt a y \<and> \<not> lt y a))"
      using incomp_trans by blast
    with True Cons show ?thesis by auto
  qed auto
qed simp

lemma SliceStable_stable:
  "filter (\<lambda>y. \<not> lt a y \<and> \<not> lt y a) (SliceStable lt xs)
    = filter (\<lambda>y. \<not> lt a y \<and> \<not> lt y a) xs"
proof -
  let ?e = "\<lambda>y. \<not> lt a y \<and> \<not> lt y a"
  have "sorted_wrt (\<lambda>a b. \<not> lt a b) ys \<Longrightarrow>
      filter ?e (foldl (\<lambda>acc x. ins_left lt x acc) ys xs) = rev (filter ?e xs) @ filter ?e ys" for ys
  proof (induction xs arbitrary: ys)
    case (Cons x xs)
    then show ?case
      by (simp add: sorted_ins_left filter_ins_left del: filter.simps) simp
  qed simp
  from this [of "[]"] show ?thesis by (simp add: SliceStable_def flip: rev_filter)
qed

text \<open>A sorted list is determined by the order within each class of equal elements.\<close>

lemma stable_unique:
  assumes "sorted_wrt (\<lambda>a b. \<not> lt b a) xs" and "sorted_wrt (\<lambda>a b. \<not> lt b a) ys"
    and "\<And>a. filter (\<lambda>y. \<not> lt a y \<and> \<not> lt y a) xs = filter (\<lambda>y. \<not> lt a y \<and> \<not> lt y a) ys"
  shows "xs = ys"
  using assms
proof (induction xs arbitrary: ys)
  case Nil
  then show ?case
  proof (cases ys)
    case (Cons y ys')
    with Nil(3) [of y] irrefl show ?thesis by simp
  qed simp
next
  case (Cons x xs)
  let ?e = "\<lambda>a y. \<not> lt a y \<and> \<not> lt y a"
  have xe: "filter (?e x) ys = x # filter (?e x) xs"
    using Cons.prems(3) [of x] irrefl by simp
  then obtain y ys' where ys: "ys = y # ys'" by (cases ys) auto
  from xe have "x \<in> set ys" by (metis filter_is_subset in_mono list.set_intros(1))
  with Cons.prems(2) ys have 1: "\<not> lt x y" using irrefl by auto
  from Cons.prems(3) [of y] ys irrefl have "y \<in> set (filter (?e y) (x # xs))" by simp
  with Cons.prems(1) have 2: "\<not> lt y x" using irrefl by auto
  from xe ys 1 2 have "y = x" by simp
  moreover have "xs = ys'"
  proof (rule Cons.IH)
    show "sorted_wrt (\<lambda>a b. \<not> lt b a) xs" using Cons.prems(1) by simp
    show "sorted_wrt (\<lambda>a b. \<not> lt b a) ys'" using Cons.prems(2) ys by simp
    fix a
    show "filter (?e a) xs = filter (?e a) ys'"
      using Cons.prems(3) [of a] ys \<open>y = x\<close> by (simp split: if_splits)
  qed
  ultimately show ?case by (simp add: ys)
qed

end

text \<open>The closures of the program compare a numeric key; both directions are strict weak orders.\<close>

lemma key_desc_order: "less_order (\<lambda>a b. key a > (key b :: 'k::linorder))"
  by unfold_locales auto

lemma key_asc_order: "less_order (\<lambda>a b. key a < (key b :: 'k::linorder))"
  by unfold_locales auto

text \<open>\<^verbatim>\<open>sort.Strings\<close>: byte-wise lexicographic order, a total order, so the result is unique.\<close>

fun str_less :: "string \<Rightarrow> string \<Rightarrow> bool" where
  "str_less xs [] \<longleftrightarrow> False"
| "str_less [] (y # ys) \<longleftrightarrow> True"
| "str_less (x # xs) (y # ys) \<longleftrightarrow> ord x < (ord y :: nat) \<or> x = y \<and> str_less xs ys"

lemma str_less_irrefl: "\<not> str_less x x"
  by (induction x) auto

lemma str_less_trans: "str_less x y \<Longrightarrow> str_less y z \<Longrightarrow> str_less x z"
proof (induction x y arbitrary: z rule: str_less.induct)
  case (2 y ys)
  then show ?case by (cases z) auto
next
  case (3 x xs y ys)
  then show ?case by (cases z) auto
qed simp

lemma str_less_total: "\<not> str_less x y \<Longrightarrow> \<not> str_less y x \<Longrightarrow> x = y"
proof (induction x y rule: str_less.induct)
  case (1 xs)
  then show ?case by (cases xs) auto
next
  case (3 x xs y ys)
  then have "ord x = (ord y :: nat)" by auto
  then have "x = y" by (simp add: of_char_eq_iff)
  with 3 show ?case by simp
qed simp

interpretation strings: less_order str_less
proof
  show "\<not> str_less x z" if "\<not> str_less x y" "\<not> str_less y z" for x y z
    using that str_less_total str_less_trans by metis
qed (auto simp: str_less_irrefl intro: str_less_trans)

definition sort_strings :: "string list \<Rightarrow> string list" where
  "sort_strings xs = SliceStable str_less xs"

lemma set_sort_strings [simp]: "set (sort_strings xs) = set xs"
  by (simp add: sort_strings_def)

end
