(* ===== verification/InputMon.thy ===== *)
theory InputMon
  imports KeyCodes GoSort
begin

text \<open>
  Model of \<^verbatim>\<open>inputmon/bus.go\<close> and \<^verbatim>\<open>inputmon/inputmon.go\<close>: the classification of a device's
  bus, the quoting of names, the records of the key log, and the monitor. The monitor is modelled
  twice: as the sequential handlers of the code and as a step relation in which the scanning
  goroutine and the readers interleave between their critical sections. A device carries the
  number of its allocation, which is what the code's pointer comparison looks at.
\<close>

section \<open>Bus kinds\<close>

definition busWired :: string where "busWired = ''wired''"
definition busWireless :: string where "busWireless = ''wireless''"
definition busVirtual :: string where "busVirtual = ''virtual''"
definition busOther :: string where "busOther = ''other''"

definition isHexByte :: "char \<Rightarrow> bool" where
  "isHexByte c \<longleftrightarrow> 48 \<le> ord c \<and> ord c \<le> (57::nat) \<or> 97 \<le> ord c \<and> ord c \<le> (102::nat)"

definition looksLikeMAC :: "string \<Rightarrow> bool" where
  "looksLikeMAC s =
     (let head = (case index_byte s (CHR ''/'') of Some i \<Rightarrow> take i s | None \<Rightarrow> s);
          parts = split_on (CHR '':'') head
      in length parts = 6 \<and>
         list_all (\<lambda>p. \<not> (length p \<noteq> 2 \<or> \<not> isHexByte (p ! 0) \<or> \<not> isHexByte (p ! 1))) parts)"

definition busKind :: "(string \<Rightarrow> string) \<Rightarrow> string \<Rightarrow> string" where
  "busKind uni phys =
     (let p = ToLower uni (TrimSpace phys) in
      if p = '''' then busVirtual
      else if prefix ''usb-'' p then busWired
      else if str_contains p ''serio'' \<or> prefix ''isa0060'' p then busWired
      else if looksLikeMAC p then busWireless
      else busOther)"

section \<open>Quoting\<close>

text \<open>
  \<^verbatim>\<open>unicode.IsPrint\<close> of the runes above Latin-1 is a table of the standard library, the
  parameter \<open>prt\<close>; below, it is what the package documents: the graphic characters and the
  ordinary space.
\<close>

definition IsPrint :: "(nat \<Rightarrow> bool) \<Rightarrow> nat \<Rightarrow> bool" where
  "IsPrint prt r =
     (if r \<le> 0xff then 0x20 \<le> r \<and> r \<le> 0x7e \<or> 0xa1 \<le> r \<and> r \<noteq> 0xad else prt r)"

definition repr_rune :: "(nat \<Rightarrow> bool) \<Rightarrow> char \<Rightarrow> nat \<Rightarrow> string" where
  "repr_rune prt quote r =
     (if r = ord quote \<or> r = 92 then CHR 92 # encode_rune r
      else if r = 9 then [CHR 92, CHR ''t'']
      else if r = 10 then [CHR 92, CHR ''n'']
      else if r = 13 then [CHR 92, CHR ''r'']
      else if IsPrint prt r then encode_rune r
      else if r \<le> 0xff then CHR 92 # CHR ''x'' # hex_pad 2 r
      else if r \<le> 0xffff then CHR 92 # CHR ''u'' # hex_pad 4 r
      else CHR 92 # CHR ''U'' # hex_pad 8 r)"

definition single_quote :: char where "single_quote = CHR 39"
definition double_quote :: char where "double_quote = CHR 34"

definition reprSingle :: "(nat \<Rightarrow> bool) \<Rightarrow> string \<Rightarrow> string" where
  "reprSingle prt s =
     (let quote = (if single_quote \<in> set s \<and> double_quote \<notin> set s then double_quote else single_quote)
      in quote # concat (map (\<lambda>(r, _). repr_rune prt quote r) (runes s)) @ [quote])"

text \<open>Nothing below the space comes out of the quoting.\<close>

definition no_control :: "string \<Rightarrow> bool" where
  "no_control s \<longleftrightarrow> list_all (\<lambda>c. 32 \<le> ord c \<and> ord c \<noteq> (127::nat)) s"

lemma no_control_simps [simp]:
  "no_control []" "no_control (c # s) \<longleftrightarrow> 32 \<le> ord c \<and> ord c \<noteq> (127::nat) \<and> no_control s"
  "no_control (s @ t) \<longleftrightarrow> no_control s \<and> no_control t"
  by (auto simp: no_control_def)

lemma no_control_hex: "no_control (hex_pad k v)"
  unfolding no_control_def list_all_iff using hex_pad_chars [of _ k v] by fastforce

lemma no_control_encode: "32 \<le> r \<Longrightarrow> r \<noteq> 127 \<Longrightarrow> no_control (encode_rune r)"
  by (auto simp: encode_rune_def Let_def RuneError_def)

lemma no_control_repr_rune:
  assumes "quote = single_quote \<or> quote = double_quote"
  shows "no_control (repr_rune prt quote r)"
proof -
  have "32 \<le> (ord quote :: nat)" "ord quote \<noteq> (127::nat)"
    using assms by (auto simp: single_quote_def double_quote_def)
  moreover have "32 \<le> r \<and> r \<noteq> 127" if "IsPrint prt r" using that by (auto simp: IsPrint_def split: if_splits)
  ultimately show ?thesis
    by (auto simp: repr_rune_def no_control_hex no_control_encode)
qed

lemma reprSingle_no_control: "no_control (reprSingle prt s)"
proof -
  have "no_control (concat (map (\<lambda>(r, _). repr_rune prt q r) rs))" if "q = single_quote \<or> q = double_quote" for q rs
    by (induction rs) (auto simp: no_control_repr_rune that)
  then have "no_control (concat (map (\<lambda>(r, _). repr_rune prt single_quote r) (runes s)))"
    and "no_control (concat (map (\<lambda>(r, _). repr_rune prt double_quote r) (runes s)))"
    by blast+
  moreover have "no_control [single_quote]" "no_control [double_quote]"
    by (simp_all add: single_quote_def double_quote_def)
  ultimately show ?thesis by (simp add: reprSingle_def)
qed

text \<open>A name of plain printable ASCII is only wrapped.\<close>

definition plain :: "string \<Rightarrow> bool" where
  "plain s \<longleftrightarrow> list_all (\<lambda>c. 32 \<le> ord c \<and> ord c < (127::nat) \<and> c \<noteq> CHR 92 \<and> c \<noteq> single_quote) s"

lemma encode_rune_ascii: "r < 128 \<Longrightarrow> encode_rune r = [char_of r]"
  by (simp add: encode_rune_def)

lemma reprSingle_plain:
  assumes "plain s"
  shows "reprSingle prt s = single_quote # s @ [single_quote]"
proof -
  have q: "single_quote \<notin> set s" using assms by (auto simp: plain_def list_all_iff)
  have "concat (map (\<lambda>(r, _). repr_rune prt single_quote r) (runes s)) = s"
    using assms
  proof (induction s)
    case (Cons c s)
    then have c: "32 \<le> (ord c :: nat)" "ord c < (127::nat)" "c \<noteq> CHR 92" "c \<noteq> single_quote" "plain s"
      by (auto simp: plain_def)
    from c(3) have "ord c \<noteq> (92::nat)" using of_char_eq_iff [of c "CHR 92", where ?'a = nat] by simp
    moreover have "ord c \<noteq> (ord single_quote :: nat)" using c(4) by (simp add: of_char_eq_iff)
    ultimately have "repr_rune prt single_quote (ord c) = [c]"
      using c by (simp add: repr_rune_def IsPrint_def encode_rune_ascii)
    with c Cons.IH show ?case by simp
  qed simp
  with q show ?thesis by (simp add: reprSingle_def)
qed

section \<open>Records of the log\<close>

definition fmtTime :: "rat \<Rightarrow> string" where
  "fmtTime t = FormatFloat 6 t"

definition now :: "int \<Rightarrow> string" where
  "now nanos = fmtTime (fdiv (float_of_int nanos) (float_of_int (10 ^ 9)))"

definition logFields :: "string list \<Rightarrow> string \<Rightarrow> string" where
  "logFields fs logf = logf @ join [CHR 9] fs @ [CHR 10]"

record device =
  d_path :: string
  d_name :: string
  d_keyCap :: bool
  d_kind :: string
  d_id :: nat

text \<open>The records the monitor writes, with the values their fields are printed from.\<close>

datatype logged =
    Added string device string
  | Key inputEvent device
  | Removed string device
  | AuditStart string nat nat

definition capStr :: "bool \<Rightarrow> string" where
  "capStr b = (if b then ''key-capable'' else ''non-key'')"

fun rec_fields :: "(nat \<Rightarrow> bool) \<Rightarrow> logged \<Rightarrow> string list" where
  "rec_fields prt (Added t d phys) =
     [t, ''DEVICE_ADDED'', d_path d, reprSingle prt (d_name d), ''phys='' @ reprSingle prt phys, capStr (d_keyCap d)]"
| "rec_fields prt (Key ev d) =
     [fmtTime (eventTimestamp ev), ''KEY'', d_path d, reprSingle prt (d_name d), keyname (ev_Code ev),
      Itoa (ev_Value ev), d_kind d]"
| "rec_fields prt (Removed t d) = [t, ''DEVICE_REMOVED'', d_path d, reprSingle prt (d_name d)]"
| "rec_fields prt (AuditStart t pid n) =
     [t, ''AUDIT_START'', ''pid='' @ Itoa (int pid), ''devices='' @ Itoa (int n)]"

text \<open>The file after a sequence of records.\<close>

definition log_file :: "(nat \<Rightarrow> bool) \<Rightarrow> logged list \<Rightarrow> string" where
  "log_file prt rs = foldl (\<lambda>f r. logFields (rec_fields prt r) f) '''' rs"

section \<open>Handlers\<close>

record monitor =
  m_known :: "string \<Rightarrow> device option"
  m_log :: "logged list"
  m_closed :: "nat set"
  m_next :: nat

definition monitor0 :: monitor where
  "monitor0 = \<lparr>m_known = Map.empty, m_log = [], m_closed = {}, m_next = 0\<rparr>"

definition write_log :: "logged \<Rightarrow> monitor \<Rightarrow> monitor" where
  "write_log r m = m\<lparr>m_log := m_log m @ [r]\<rparr>"

definition close_fd :: "device \<Rightarrow> monitor \<Rightarrow> monitor" where
  "close_fd d m = m\<lparr>m_closed := insert (d_id d) (m_closed m)\<rparr>"

text \<open>
  The parameters of a run: the devices behind the paths, \<open>None\<close> when opening fails, and the two
  library functions above.
\<close>

record env =
  e_open :: "string \<Rightarrow> evdev option"
  e_lower :: "string \<Rightarrow> string"
  e_print :: "nat \<Rightarrow> bool"

definition mk_device :: "env \<Rightarrow> nat \<Rightarrow> string \<Rightarrow> evdev \<Rightarrow> device" where
  "mk_device e i path fd =
     \<lparr>d_path = path, d_name = deviceName fd, d_keyCap = keyCapable fd,
      d_kind = busKind (e_lower e) (devicePhys fd), d_id = i\<rparr>"

text \<open>The registration under the lock: \<open>None\<close> when the path is already there.\<close>

definition register :: "device \<Rightarrow> monitor \<Rightarrow> monitor option" where
  "register d m =
     (case m_known m (d_path d) of
        Some _ \<Rightarrow> None
      | None \<Rightarrow> Some (m\<lparr>m_known := (m_known m)(d_path d \<mapsto> d)\<rparr>))"

text \<open>\<open>openDevice\<close> returns the device whose reader it starts, if any.\<close>

definition openDevice :: "env \<Rightarrow> string \<Rightarrow> string \<Rightarrow> monitor \<Rightarrow> device option \<times> monitor" where
  "openDevice e t path m =
     (case e_open e path of
        None \<Rightarrow> (None, m)
      | Some fd \<Rightarrow>
          let d = mk_device e (m_next m) path fd;
              m = m\<lparr>m_next := Suc (m_next m)\<rparr>
          in case register d m of
               None \<Rightarrow> (None, close_fd d m)
             | Some m \<Rightarrow>
                 ((if d_keyCap d then Some d else None), write_log (Added t d (devicePhys fd)) m))"

text \<open>The glob \<^verbatim>\<open>/dev/input/event*\<close> over the entries of the directory.\<close>

definition glob_events :: "string list \<Rightarrow> string list" where
  "glob_events entries = map (in_dir ''/dev/input'') (filter (prefix ''event'') entries)"

fun scan_paths :: "env \<Rightarrow> (string \<Rightarrow> string) \<Rightarrow> string list \<Rightarrow> device list \<times> monitor \<Rightarrow> device list \<times> monitor" where
  "scan_paths e clock [] st = st"
| "scan_paths e clock (path # ps) (rs, m) =
     (if m_known m path \<noteq> None then scan_paths e clock ps (rs, m)
      else let (r, m') = openDevice e (clock path) path m
           in scan_paths e clock ps (rs @ (case r of None \<Rightarrow> [] | Some d \<Rightarrow> [d]), m'))"

definition scan :: "env \<Rightarrow> (string \<Rightarrow> string) \<Rightarrow> string list \<Rightarrow> monitor \<Rightarrow> device list \<times> monitor" where
  "scan e clock entries m = scan_paths e clock (sort_strings (glob_events entries)) ([], m)"

definition deviceCount :: "monitor \<Rightarrow> nat" where
  "deviceCount m = card (dom (m_known m))"

text \<open>The start of \<^verbatim>\<open>Run\<close>, after the log file is open: a scan, then \<^verbatim>\<open>AUDIT_START\<close>.\<close>

definition Run_start :: "env \<Rightarrow> (string \<Rightarrow> string) \<Rightarrow> string list \<Rightarrow> string \<Rightarrow> nat \<Rightarrow> device list \<times> monitor" where
  "Run_start e clock entries t pid =
     (let (rs, m) = scan e clock entries monitor0
      in (rs, write_log (AuditStart t pid (deviceCount m)) m))"

text \<open>The two halves of \<open>removeDevice\<close>, around the release of the lock.\<close>

definition unlink :: "device \<Rightarrow> monitor \<Rightarrow> monitor option" where
  "unlink d m =
     (case m_known m (d_path d) of
        None \<Rightarrow> None
      | Some cur \<Rightarrow> if d_id cur \<noteq> d_id d then None else Some (m\<lparr>m_known := (m_known m)(d_path d := None)\<rparr>))"

definition removeDevice :: "string \<Rightarrow> device \<Rightarrow> monitor \<Rightarrow> monitor" where
  "removeDevice t d m =
     (case unlink d m of
        None \<Rightarrow> close_fd d m
      | Some m' \<Rightarrow> close_fd d (write_log (Removed t d) m'))"

text \<open>
  The key events of one \<^verbatim>\<open>Read\<close>: the loop over whole events, the ones that are not \<^verbatim>\<open>EV_KEY\<close>
  skipped; \<open>None\<close> would be a panic.
\<close>

definition readEvents :: nat where "readEvents = 64"

function key_events_from :: "u8 list \<Rightarrow> nat \<Rightarrow> inputEvent list option" where
  "key_events_from buf off =
     (if off + eventSize \<le> length buf then do {
        bytes \<leftarrow> slice buf off (off + eventSize);
        r \<leftarrow> decodeEvent bytes;
        rest \<leftarrow> key_events_from buf (off + eventSize);
        Some (case r of None \<Rightarrow> rest | Some ev \<Rightarrow> if ev_Type ev \<noteq> evKey then rest else ev # rest)
      } else Some [])"
  by pat_completeness auto
termination
  by (relation "measure (\<lambda>(buf, off). length buf - off)") (auto simp: eventSize_def)

declare key_events_from.simps [simp del]

definition key_events :: "u8 list \<Rightarrow> inputEvent list option" where
  "key_events bytes = key_events_from bytes 0"

text \<open>
  A \<^verbatim>\<open>Read\<close> returns bytes or an error; the reader ends on an error or an empty read. The function
  runs the reader over the results of its reads; the second component tells whether it ended.
\<close>

datatype read_result = ReadErr | ReadBytes "u8 list"

fun reader :: "string \<Rightarrow> device \<Rightarrow> read_result list \<Rightarrow> monitor \<Rightarrow> (monitor \<times> bool) option" where
  "reader t d [] m = Some (m, False)"
| "reader t d (ReadErr # rs) m = Some (removeDevice t d m, True)"
| "reader t d (ReadBytes bs # rs) m = do {
     evs \<leftarrow> key_events (take (eventSize * readEvents) bs);
     let m' = foldl (\<lambda>m ev. write_log (Key ev d) m) m evs;
     if bs = [] then Some (removeDevice t d m', True) else reader t d rs m'
   }"

section \<open>What the log says\<close>

text \<open>Every record is one line and its fields are read back by splitting at the tabs.\<close>

definition clean_record :: "logged \<Rightarrow> bool" where
  "clean_record r =
     (case r of
        Added t d phys \<Rightarrow> no_control t \<and> no_control (d_path d)
      | Key ev d \<Rightarrow> no_control (d_path d) \<and> no_control (d_kind d)
      | Removed t d \<Rightarrow> no_control t \<and> no_control (d_path d)
      | AuditStart t pid n \<Rightarrow> no_control t)"

lemma no_control_digits:
  "(\<And>c. c \<in> set s \<Longrightarrow> is_digit c \<or> c = CHR ''.'' \<or> c = CHR ''-'') \<Longrightarrow> no_control s"
  by (fastforce simp: no_control_def list_all_iff is_digit_def)

lemma no_control_fmtTime: "no_control (fmtTime t)"
  unfolding fmtTime_def using FormatFloat_chars by (rule no_control_digits)

lemma no_control_Itoa: "no_control (Itoa i)"
  by (rule no_control_digits) (use Itoa_chars in blast)

lemma no_control_keyname: "no_control (keyname c)"
proof (cases c rule: keyname_cases)
  case (named n)
  have "32 \<le> ord x \<and> ord x \<noteq> (127::nat)" if "name_char x" for x
    using that by (auto simp: name_char_def)
  with named show ?thesis by (auto simp: clean_name_def no_control_def list_all_iff)
next
  case decimal
  then show ?thesis by (simp add: no_control_Itoa)
qed

lemma no_control_busKind: "no_control (busKind uni phys)"
  by (simp add: busKind_def Let_def busWired_def busWireless_def busVirtual_def busOther_def)

lemma clean_record_fields: "clean_record r \<Longrightarrow> list_all no_control (rec_fields prt r)"
  by (cases r)
    (simp_all add: clean_record_def reprSingle_no_control no_control_fmtTime no_control_Itoa no_control_keyname
      capStr_def)

lemma rec_fields_nonempty [simp]: "rec_fields prt r \<noteq> []"
  by (cases r) simp_all

lemma no_control_free: "no_control s \<Longrightarrow> ord c < (32::nat) \<Longrightarrow> c \<notin> set s"
  by (auto simp: no_control_def list_all_iff)

lemma log_file_append: "foldl (\<lambda>f r. logFields (rec_fields prt r) f) f rs = f @ log_file prt rs"
  unfolding log_file_def
proof (induction rs rule: rev_induct)
  case (snoc r rs)
  then show ?case by (simp add: logFields_def)
qed simp

lemma log_file_Nil [simp]: "log_file prt [] = ''''"
  by (simp add: log_file_def)

lemma log_file_Cons: "log_file prt (r # rs) = join [CHR 9] (rec_fields prt r) @ CHR 10 # log_file prt rs"
  using log_file_append [of prt "logFields (rec_fields prt r) ''''" rs]
  by (simp add: log_file_def logFields_def)

text \<open>
  C20: Splitting the key log at newlines and each line at tabs gives back exactly the fields of the
  records that were written, in order, whatever bytes device names and physical paths contain:
  the quoting keeps every separator out of the fields.
\<close>

theorem log_file_lines:
  assumes "list_all clean_record rs"
  shows "map (split_on (CHR 9)) (split_on (CHR 10) (log_file prt rs)) = map (rec_fields prt) rs @ [[[]]]"
  using assms
proof (induction rs)
  case (Cons r rs)
  let ?fs = "rec_fields prt r"
  have f: "no_control x" if "x \<in> set ?fs" for x
    using that clean_record_fields [of r prt] Cons.prems by (simp add: list_all_iff)
  have "CHR 10 \<notin> set (join [CHR 9] ?fs)"
    using set_join [of "[CHR 9]" ?fs] f no_control_free [of _ "CHR 10"] by fastforce
  moreover have "split_on (CHR 9) (join [CHR 9] ?fs) = ?fs"
    by (rule split_on_join) (use f no_control_free [of _ "CHR 9"] in auto)
  ultimately show ?case
    using Cons by (simp add: log_file_Cons split_on_append)
qed simp

text \<open>
  The witness: a device whose name holds a tab, a newline and both quotes.
\<close>

lemma log_file_lines_witness:
  "map (split_on (CHR 9)) (split_on (CHR 10)
     (log_file (\<lambda>_. True)
       [Removed ''1.5'' \<lparr>d_path = ''/dev/input/event3'', d_name = [CHR ''a'', CHR 9, CHR 10, CHR 34, CHR 39],
          d_keyCap = True, d_kind = ''wired'', d_id = 0\<rparr>]))
   = [[''1.5'', ''DEVICE_REMOVED'', ''/dev/input/event3'',
       [CHR 39, CHR ''a'', CHR 92, CHR ''t'', CHR 92, CHR ''n'', CHR 34, CHR 92, CHR 39, CHR 39]], [[]]]"
proof -
  have "reprSingle (\<lambda>_. True) [CHR ''a'', CHR 9, CHR 10, CHR 34, CHR 39]
      = [CHR 39, CHR ''a'', CHR 92, CHR ''t'', CHR 92, CHR ''n'', CHR 34, CHR 92, CHR 39, CHR 39]"
    by code_simp
  then show ?thesis by (subst log_file_lines) (simp_all add: clean_record_def)
qed

section \<open>The stream of a reader\<close>

lemma key_events_from_shift: "key_events_from (a @ b) (length a + i) = key_events_from b i"
proof (induction "length b - i" arbitrary: i rule: less_induct)
  case less
  have IH: "key_events_from (a @ b) (length a + (i + 24)) = key_events_from b (i + 24)" if "i + 24 \<le> length b"
    by (rule less) (use that in simp)
  show ?case
    using IH slice_shift [of a b i "i + 24"]
    by (subst (1 2) key_events_from.simps) (simp add: eventSize_def add.assoc split: Option.bind_splits)
qed

text \<open>
  C29: From the bytes of any sequence of kernel events, followed by a partial event, the reader
  takes exactly the key events, in order, with their code, value and time: nothing is dropped,
  invented or reordered, and the slicing does not panic.
\<close>

theorem key_events_encoded:
  assumes "list_all wf_event evs" and "length rest < 24"
  shows "key_events (concat (map encode_event evs) @ rest) = Some (filter (\<lambda>ev. ev_Type ev = evKey) evs)"
  using assms(1)
proof (induction evs)
  case Nil
  with assms(2) show ?case by (simp add: key_events_def key_events_from.simps eventSize_def)
next
  case (Cons ev evs)
  let ?b = "concat (map encode_event evs) @ rest"
  have "key_events_from (encode_event ev @ ?b) 24 = key_events ?b"
    using key_events_from_shift [of "encode_event ev" ?b 0] by (simp add: key_events_def)
  moreover have "slice (encode_event ev @ ?b) 0 24 = Some (encode_event ev)"
    by (rule slice_front) simp
  ultimately show ?case
    using Cons by (simp add: key_events_def key_events_from.simps [of _ 0] eventSize_def decodeEvent_encode)
qed

lemma key_events_encoded_witness:
  "key_events (concat (map encode_event
      [\<lparr>ev_Sec = 5, ev_Usec = 7, ev_Type = 1, ev_Code = 30, ev_Value = 1\<rparr>,
       \<lparr>ev_Sec = 5, ev_Usec = 7, ev_Type = 0, ev_Code = 0, ev_Value = 0\<rparr>]) @ [1, 2])
   = Some [\<lparr>ev_Sec = 5, ev_Usec = 7, ev_Type = 1, ev_Code = 30, ev_Value = 1\<rparr>]"
  by (subst key_events_encoded) (simp_all add: wf_event_def evKey_def)

text \<open>On any bytes the loop returns.\<close>

lemma key_events_from_total: "\<exists>evs. key_events_from b i = Some evs"
proof (induction "length b - i" arbitrary: i rule: less_induct)
  case less
  show ?case
  proof (cases "i + 24 \<le> length b")
    case True
    then have "length b - (i + 24) < length b - i" by simp
    then obtain evs where "key_events_from b (i + 24) = Some evs" using less by blast
    moreover obtain r where "decodeEvent (take 24 (drop i b)) = Some r" using decodeEvent_total by blast
    moreover have "slice b i (i + 24) = Some (take 24 (drop i b))" using True by (simp add: slice_def)
    ultimately show ?thesis
      using True by (subst key_events_from.simps) (simp add: eventSize_def split: option.splits)
  qed (simp add: key_events_from.simps eventSize_def)
qed

section \<open>A scan\<close>

text \<open>The paths that a scan opens, given what is known when it starts.\<close>

lemma openDevice_known:
  assumes "m_known m path = None" and "openDevice e t path m = (r, m')"
  shows "dom (m_known m') = dom (m_known m) \<union> (if e_open e path = None then {} else {path})"
    and "q \<noteq> path \<Longrightarrow> m_known m' q = m_known m q"
  using assms by (auto simp: openDevice_def register_def mk_device_def write_log_def Let_def split: option.splits)

lemma scan_paths_known:
  "scan_paths e clock ps (rs, m) = (rs', m') \<Longrightarrow>
     dom (m_known m') = dom (m_known m) \<union> {p \<in> set ps. e_open e p \<noteq> None} \<and> m_known m \<subseteq>\<^sub>m m_known m'"
proof (induction ps arbitrary: rs m)
  case (Cons p ps)
  show ?case
  proof (cases "m_known m p")
    case None
    obtain r m1 where o: "openDevice e (clock p) p m = (r, m1)" by fastforce
    with None Cons.prems have "scan_paths e clock ps (rs @ (case r of None \<Rightarrow> [] | Some d \<Rightarrow> [d]), m1) = (rs', m')"
      by simp
    note * = Cons.IH [OF this] openDevice_known [OF None o]
    have "m_known m \<subseteq>\<^sub>m m_known m1" using None *(3) unfolding map_le_def by (metis domIff)
    then have "m_known m \<subseteq>\<^sub>m m_known m'" using *(1) map_le_trans by blast
    moreover have "{q \<in> set (p # ps). e_open e q \<noteq> None}
        = (if e_open e p = None then {} else {p}) \<union> {q \<in> set ps. e_open e q \<noteq> None}"
      by auto
    ultimately show ?thesis using *(1,2) by (simp only: Un_assoc)
  next
    case (Some d)
    then have "{q \<in> set (p # ps). e_open e q \<noteq> None} \<union> dom (m_known m)
        = {q \<in> set ps. e_open e q \<noteq> None} \<union> dom (m_known m)"
      by auto
    then show ?thesis using Cons Some by (simp add: Un_commute)
  qed
qed simp

text \<open>
  After a scan the monitor knows exactly the devices it knew before and every
  \<^verbatim>\<open>/dev/input/event*\<close> entry that opens; a device that was known keeps its entry and its
  identity.
\<close>

theorem scan_known:
  "dom (m_known (snd (scan e clock entries m)))
     = dom (m_known m) \<union> {p. e_open e p \<noteq> None \<and> p \<in> set (glob_events entries)}
   \<and> m_known m \<subseteq>\<^sub>m m_known (snd (scan e clock entries m))"
  using scan_paths_known [of e clock "sort_strings (glob_events entries)" "[]" m]
  by (cases "scan e clock entries m") (auto simp: scan_def)

end
