(* ===== verification/InputSteps.thy ===== *)
theory InputSteps
  imports InputMon
begin

text \<open>
  The input monitor as interleaved steps: the scanning goroutine of \<^verbatim>\<open>Run\<close> and the reader
  goroutines, between their critical sections. The kernel may change what is behind a path between
  any two steps: a step that opens a path sees any device. Reachable states satisfy the invariant
  of the known-set, the per-device order of the log, and two facts about what the code does not
  guarantee: devices without keys are never forgotten, and the records of two devices that follow
  each other on one path can swap.
\<close>

section \<open>States and steps\<close>

text \<open>
  Where the scanning goroutine is: before the remaining paths of a scan, after an open, after a
  registration, or after counting the devices for \<^verbatim>\<open>AUDIT_START\<close>.
\<close>

datatype scanner =
    Scanning "string list"
  | Opened device string "string list"
  | Registered device string "string list"
  | Counted nat

text \<open>
  Where a reader is: with key events of the last read still to be written, after a failed or empty
  read, after the device left the known-set, and gone.
\<close>

datatype rphase = Reading "inputEvent list" | Ended | Unlinked | Gone

record sys =
  i_mon :: monitor
  i_scan :: scanner
  i_started :: bool
  i_readers :: "nat \<Rightarrow> (device \<times> rphase) option"

definition sys0 :: "string list \<Rightarrow> sys" where
  "sys0 entries =
     \<lparr>i_mon = monitor0, i_scan = Scanning (sort_strings (glob_events entries)), i_started = False,
      i_readers = Map.empty\<rparr>"

definition dev_of :: "(string \<Rightarrow> string) \<Rightarrow> nat \<Rightarrow> string \<Rightarrow> evdev \<Rightarrow> device" where
  "dev_of uni i path fd =
     mk_device \<lparr>e_open = (\<lambda>_. Some fd), e_lower = uni, e_print = (\<lambda>_. True)\<rparr> i path fd"

inductive istep :: "sys \<Rightarrow> sys \<Rightarrow> bool" where
  seen: "i_scan s = Scanning (p # ps) \<Longrightarrow> m_known (i_mon s) p \<noteq> None \<Longrightarrow> istep s (s\<lparr>i_scan := Scanning ps\<rparr>)"
| open_fails: "i_scan s = Scanning (p # ps) \<Longrightarrow> m_known (i_mon s) p = None \<Longrightarrow> istep s (s\<lparr>i_scan := Scanning ps\<rparr>)"
| opens: "i_scan s = Scanning (p # ps) \<Longrightarrow> m_known (i_mon s) p = None \<Longrightarrow>
    istep s (s\<lparr>i_mon := (i_mon s)\<lparr>m_next := Suc (m_next (i_mon s))\<rparr>,
               i_scan := Opened (dev_of uni (m_next (i_mon s)) p fd) (devicePhys fd) ps\<rparr>)"
| exists_already: "i_scan s = Opened d phys ps \<Longrightarrow> register d (i_mon s) = None \<Longrightarrow>
    istep s (s\<lparr>i_mon := close_fd d (i_mon s), i_scan := Scanning ps\<rparr>)"
| registers: "i_scan s = Opened d phys ps \<Longrightarrow> register d (i_mon s) = Some m \<Longrightarrow>
    istep s (s\<lparr>i_mon := m, i_scan := Registered d phys ps\<rparr>)"
| announces: "i_scan s = Registered d phys ps \<Longrightarrow>
    istep s (s\<lparr>i_mon := write_log (Added t d phys) (i_mon s), i_scan := Scanning ps,
               i_readers := (if d_keyCap d then (i_readers s)(d_id d \<mapsto> (d, Reading [])) else i_readers s)\<rparr>)"
| counts: "i_scan s = Scanning [] \<Longrightarrow> \<not> i_started s \<Longrightarrow>
    istep s (s\<lparr>i_scan := Counted (deviceCount (i_mon s))\<rparr>)"
| starts: "i_scan s = Counted n \<Longrightarrow>
    istep s (s\<lparr>i_mon := write_log (AuditStart t pid n) (i_mon s), i_scan := Scanning [], i_started := True\<rparr>)"
| rescans: "i_scan s = Scanning [] \<Longrightarrow> i_started s \<Longrightarrow>
    istep s (s\<lparr>i_scan := Scanning (sort_strings (glob_events entries))\<rparr>)"
| reads: "i_readers s i = Some (d, Reading []) \<Longrightarrow> bytes \<noteq> [] \<Longrightarrow> key_events bytes = Some evs \<Longrightarrow>
    istep s (s\<lparr>i_readers := (i_readers s)(i \<mapsto> (d, Reading evs))\<rparr>)"
| writes: "i_readers s i = Some (d, Reading (ev # evs)) \<Longrightarrow>
    istep s (s\<lparr>i_mon := write_log (Key ev d) (i_mon s), i_readers := (i_readers s)(i \<mapsto> (d, Reading evs))\<rparr>)"
| read_ends: "i_readers s i = Some (d, Reading []) \<Longrightarrow>
    istep s (s\<lparr>i_readers := (i_readers s)(i \<mapsto> (d, Ended))\<rparr>)"
| unlinks: "i_readers s i = Some (d, Ended) \<Longrightarrow> unlink d (i_mon s) = Some m \<Longrightarrow>
    istep s (s\<lparr>i_mon := m, i_readers := (i_readers s)(i \<mapsto> (d, Unlinked))\<rparr>)"
| not_linked: "i_readers s i = Some (d, Ended) \<Longrightarrow> unlink d (i_mon s) = None \<Longrightarrow>
    istep s (s\<lparr>i_mon := close_fd d (i_mon s), i_readers := (i_readers s)(i \<mapsto> (d, Gone))\<rparr>)"
| reports: "i_readers s i = Some (d, Unlinked) \<Longrightarrow>
    istep s (s\<lparr>i_mon := close_fd d (write_log (Removed t d) (i_mon s)), i_readers := (i_readers s)(i \<mapsto> (d, Gone))\<rparr>)"

inductive isteps :: "sys \<Rightarrow> sys \<Rightarrow> bool" where
  refl: "isteps s s"
| further: "isteps s t \<Longrightarrow> istep t u \<Longrightarrow> isteps s u"

inductive_cases istep_cases: "istep s t"

definition ireach :: "sys \<Rightarrow> bool" where
  "ireach s \<longleftrightarrow> (\<exists>entries. isteps (sys0 entries) s)"

lemma ireach_induct [consumes 1, case_names start step]:
  assumes "ireach s" and "\<And>entries. P (sys0 entries)" and "\<And>s t. ireach s \<Longrightarrow> P s \<Longrightarrow> istep s t \<Longrightarrow> P t"
  shows "P s"
proof -
  from assms(1) obtain entries where "isteps (sys0 entries) s" by (auto simp: ireach_def)
  then have "P s \<and> ireach s"
  proof (induction "sys0 entries" s rule: isteps.induct)
    case refl
    then show ?case using assms(2) by (auto simp: ireach_def intro: isteps.refl)
  next
    case (further t u)
    then have "P t" "ireach t" by auto
    with further show ?case using assms(3) by (auto simp: ireach_def intro: isteps.further)
  qed
  then show ?thesis ..
qed

lemma ireach_step: "ireach s \<Longrightarrow> istep s t \<Longrightarrow> ireach t"
  by (auto simp: ireach_def intro: isteps.further)

section \<open>The invariant\<close>

text \<open>A reader that still owns its place in the known-set.\<close>

definition active :: "rphase \<Rightarrow> bool" where
  "active ph \<longleftrightarrow> (case ph of Reading _ \<Rightarrow> True | Ended \<Rightarrow> True | _ \<Rightarrow> False)"

text \<open>The device in the hands of the scanner, not yet announced.\<close>

definition pending :: "scanner \<Rightarrow> device option" where
  "pending sc = (case sc of Opened d _ _ \<Rightarrow> Some d | Registered d _ _ \<Rightarrow> Some d | _ \<Rightarrow> None)"

text \<open>
  The parts of the invariant, over the known-set \<open>K\<close>, the allocation counter \<open>n\<close>, the readers \<open>R\<close>,
  the device \<open>q\<close> the scanner holds and the closed descriptors \<open>C\<close>.
\<close>

type_synonym readers = "nat \<Rightarrow> (device \<times> rphase) option"

definition ids_ok :: "(string \<Rightarrow> device option) \<Rightarrow> nat \<Rightarrow> bool" where
  "ids_ok K n \<longleftrightarrow>
     (\<forall>p d. K p = Some d \<longrightarrow> d_path d = p \<and> d_id d < n)
     \<and> (\<forall>p d q d'. K p = Some d \<longrightarrow> K q = Some d' \<longrightarrow> d_id d = d_id d' \<longrightarrow> p = q)"

definition owned :: "(string \<Rightarrow> device option) \<Rightarrow> readers \<Rightarrow> device option \<Rightarrow> bool" where
  "owned K R q \<longleftrightarrow>
     (\<forall>p d. K p = Some d \<longrightarrow>
        (if d_keyCap d then q = Some d \<or> (\<exists>ph. R (d_id d) = Some (d, ph) \<and> active ph) else R (d_id d) = None))"

definition readers_ok :: "(string \<Rightarrow> device option) \<Rightarrow> nat \<Rightarrow> readers \<Rightarrow> bool" where
  "readers_ok K n R \<longleftrightarrow>
     (\<forall>i d ph. R i = Some (d, ph) \<longrightarrow> d_id d = i \<and> i < n \<and> d_keyCap d
        \<and> (if active ph then K (d_path d) = Some d else \<forall>p d'. K p = Some d' \<longrightarrow> d_id d' \<noteq> i))"

definition scanner_ok :: "(string \<Rightarrow> device option) \<Rightarrow> nat \<Rightarrow> readers \<Rightarrow> scanner \<Rightarrow> bool" where
  "scanner_ok K n R sc \<longleftrightarrow>
     (case sc of
        Opened d _ _ \<Rightarrow> d_id d < n \<and> R (d_id d) = None \<and> K (d_path d) = None
          \<and> (\<forall>p d'. K p = Some d' \<longrightarrow> d_id d' \<noteq> d_id d)
      | Registered d _ _ \<Rightarrow> d_id d < n \<and> R (d_id d) = None \<and> K (d_path d) = Some d
      | _ \<Rightarrow> True)"

definition fds_ok :: "nat set \<Rightarrow> readers \<Rightarrow> bool" where
  "fds_ok C R \<longleftrightarrow> (\<forall>i. i \<in> C \<longleftrightarrow> (\<exists>d. R i = Some (d, Gone)))"

definition mon_ok :: "sys \<Rightarrow> bool" where
  "mon_ok s \<longleftrightarrow>
     (let K = m_known (i_mon s); n = m_next (i_mon s); R = i_readers s in
      ids_ok K n \<and> owned K R (pending (i_scan s)) \<and> readers_ok K n R \<and> scanner_ok K n R (i_scan s)
      \<and> fds_ok (m_closed (i_mon s)) R)"

lemmas ok_defs = mon_ok_def Let_def pending_def scanner_ok_def

lemma mon_ok_start: "mon_ok (sys0 entries)"
  by (simp add: ok_defs ids_ok_def owned_def readers_ok_def fds_ok_def sys0_def monitor0_def)

lemma dev_of_sel [simp]: "d_id (dev_of uni i p fd) = i" "d_path (dev_of uni i p fd) = p"
  by (simp_all add: dev_of_def mk_device_def)

lemma register_SomeD:
  "register d m = Some m' \<Longrightarrow> m_known m (d_path d) = None \<and> m' = m\<lparr>m_known := (m_known m)(d_path d \<mapsto> d)\<rparr>"
  by (auto simp: register_def split: option.splits)

lemma unlink_SomeD:
  "unlink d m = Some m' \<Longrightarrow>
     (\<exists>c. m_known m (d_path d) = Some c \<and> d_id c = d_id d) \<and> m' = m\<lparr>m_known := (m_known m)(d_path d := None)\<rparr>"
  by (auto simp: unlink_def split: option.splits if_splits)

lemma active_simps [simp]: "active (Reading evs)" "active Ended" "\<not> active Unlinked" "\<not> active Gone"
  by (simp_all add: active_def)

section \<open>Preservation\<close>

lemma ids_ok_next: "ids_ok K n \<Longrightarrow> ids_ok K (Suc n)"
  unfolding ids_ok_def using less_SucI by blast

lemma readers_ok_next: "readers_ok K n R \<Longrightarrow> readers_ok K (Suc n) R"
  unfolding readers_ok_def using less_SucI by blast

lemma ids_ok_fresh: "ids_ok K n \<Longrightarrow> K p = Some d \<Longrightarrow> d_id d \<noteq> n"
  by (auto simp: ids_ok_def)

lemma readers_ok_fresh: "readers_ok K n R \<Longrightarrow> R n = None"
  by (cases "R n") (auto simp: readers_ok_def)

lemma owned_None: "owned K R None \<Longrightarrow> owned K R q"
  by (fastforce simp: owned_def)

lemma register_ok:
  assumes "ids_ok K n" and "owned K R q" and "readers_ok K n R" and "d_id d < n" and "R (d_id d) = None"
    and "K (d_path d) = None" and "\<forall>p d'. K p = Some d' \<longrightarrow> d_id d' \<noteq> d_id d" and "q = Some d"
  shows "ids_ok (K(d_path d \<mapsto> d)) n" and "owned (K(d_path d \<mapsto> d)) R (Some d)" and "readers_ok (K(d_path d \<mapsto> d)) n R"
proof -
  show "ids_ok (K(d_path d \<mapsto> d)) n"
    using assms(1,4,6,7) unfolding ids_ok_def by (auto dest: sym)
  show "owned (K(d_path d \<mapsto> d)) R (Some d)"
    using assms(2,5,8) unfolding owned_def by (simp split: if_splits)
  show "readers_ok (K(d_path d \<mapsto> d)) n R"
    using assms(3,5,6) unfolding readers_ok_def by (fastforce split: if_splits)
qed

lemma reader_moves:
  assumes "owned K R q" and "readers_ok K n R" and "R i = Some (d, ph)" and "active ph" and "active ph'"
    and "ids_ok K n"
  shows "owned K (R(i \<mapsto> (d, ph'))) q" and "readers_ok K n (R(i \<mapsto> (d, ph')))"
proof -
  have i: "d_id d = i" "d_keyCap d" "K (d_path d) = Some d" using assms(2-4) by (auto simp: readers_ok_def)
  have eq: "d' = d" if "K p = Some d'" "d_id d' = i" for p d'
    using that assms(6) i unfolding ids_ok_def by (metis option.inject)
  show "owned K (R(i \<mapsto> (d, ph'))) q"
    using assms(1,3,5) i eq unfolding owned_def by (fastforce split: if_splits)
  show "readers_ok K n (R(i \<mapsto> (d, ph')))"
    using assms(2-5) unfolding readers_ok_def by (auto split: if_splits)
qed

lemma fds_moves:
  assumes "fds_ok C R" and "R i = Some (d, ph)" and "ph \<noteq> Gone" and "ph' \<noteq> Gone"
  shows "fds_ok C (R(i \<mapsto> (d, ph')))"
  using assms by (auto simp: fds_ok_def)

lemma scanner_moves:
  assumes "scanner_ok K n R sc" and "R i = Some (d, ph)"
  shows "scanner_ok K n (R(i \<mapsto> x)) sc"
  using assms by (cases sc) (auto simp: scanner_ok_def)

lemma unlink_ok:
  assumes "ids_ok K n" and "owned K R q" and "readers_ok K n R" and "scanner_ok K n R sc" and "q = pending sc"
    and "R i = Some (d, Ended)"
  shows "ids_ok (K(d_path d := None)) n" and "owned (K(d_path d := None)) (R(i \<mapsto> (d, Unlinked))) q"
    and "readers_ok (K(d_path d := None)) n (R(i \<mapsto> (d, Unlinked)))"
    and "scanner_ok (K(d_path d := None)) n (R(i \<mapsto> (d, Unlinked))) sc"
proof -
  have d: "d_id d = i" "d_keyCap d" "K (d_path d) = Some d" "i < n"
    using assms(3,6) unfolding readers_ok_def by force+
  have other: "d_id d' \<noteq> i" if "K p = Some d'" "p \<noteq> d_path d" for p d'
    using that d assms(1) unfolding ids_ok_def by metis
  show "ids_ok (K(d_path d := None)) n"
    using assms(1) unfolding ids_ok_def by (auto split: if_splits)
  show "owned (K(d_path d := None)) (R(i \<mapsto> (d, Unlinked))) q"
    using assms(2) other unfolding owned_def by (auto split: if_splits)
  show "readers_ok (K(d_path d := None)) n (R(i \<mapsto> (d, Unlinked)))"
    unfolding readers_ok_def
  proof (intro allI impI)
    fix j e ph
    assume j: "(R(i \<mapsto> (d, Unlinked))) j = Some (e, ph)"
    show "d_id e = j \<and> j < n \<and> d_keyCap e \<and> (if active ph then (K(d_path d := None)) (d_path e) = Some e
      else \<forall>p d'. (K(d_path d := None)) p = Some d' \<longrightarrow> d_id d' \<noteq> j)"
    proof (cases "j = i")
      case True
      with j d other show ?thesis by auto
    next
      case False
      with j have e: "R j = Some (e, ph)" by simp
      with assms(3) have "d_id e = j" "active ph \<Longrightarrow> K (d_path e) = Some e"
        unfolding readers_ok_def by auto
      with False d have "active ph \<Longrightarrow> d_path e \<noteq> d_path d" by auto
      with e assms(3) show ?thesis unfolding readers_ok_def by fastforce
    qed
  qed
  have "d_path e \<noteq> d_path d" if "sc = Registered e x y" for e x y
    using that assms(4,6) d by (auto simp: scanner_ok_def)
  then show "scanner_ok (K(d_path d := None)) n (R(i \<mapsto> (d, Unlinked))) sc"
    using assms(4,6) by (cases sc) (auto simp: scanner_ok_def split: if_splits)
qed

lemma announce_ok:
  assumes "ids_ok K n" and "owned K R (Some d)" and "readers_ok K n R" and "d_id d < n" and "R (d_id d) = None"
    and "K (d_path d) = Some d"
  shows "owned K (if d_keyCap d then R(d_id d \<mapsto> (d, Reading [])) else R) None"
    and "readers_ok K n (if d_keyCap d then R(d_id d \<mapsto> (d, Reading [])) else R)"
proof -
  have eq: "d' = d" if "K p = Some d'" "d_id d' = d_id d" for p d'
    using that assms(1,6) unfolding ids_ok_def by (metis option.inject)
  show "owned K (if d_keyCap d then R(d_id d \<mapsto> (d, Reading [])) else R) None"
    using assms(2) eq unfolding owned_def by (fastforce split: if_splits)
  show "readers_ok K n (if d_keyCap d then R(d_id d \<mapsto> (d, Reading [])) else R)"
    using assms(3,4,6) unfolding readers_ok_def by auto
qed

lemma not_active_ok:
  assumes "owned K R q" and "readers_ok K n R" and "R i = Some (d, ph)" and "\<not> active ph" and "\<not> active ph'"
  shows "owned K (R(i \<mapsto> (d, ph'))) q" and "readers_ok K n (R(i \<mapsto> (d, ph')))"
proof -
  have i: "d_id d = i" "d_keyCap d" "\<forall>p d'. K p = Some d' \<longrightarrow> d_id d' \<noteq> i"
    using assms(2-4) unfolding readers_ok_def by metis+
  show "owned K (R(i \<mapsto> (d, ph'))) q"
    using assms(1) i(3) unfolding owned_def by auto
  show "readers_ok K n (R(i \<mapsto> (d, ph')))"
    using assms(2-5) i unfolding readers_ok_def by (auto split: if_splits)
qed

lemma mon_ok_move:
  assumes "mon_ok s" and "i_readers s i = Some (d, ph)" and "active ph" and "active ph'"
    and "m_known m = m_known (i_mon s)" and "m_next m = m_next (i_mon s)" and "m_closed m = m_closed (i_mon s)"
  shows "mon_ok (s\<lparr>i_mon := m, i_readers := (i_readers s)(i \<mapsto> (d, ph'))\<rparr>)"
proof -
  note ok = assms(1) [unfolded mon_ok_def Let_def]
  have "ph \<noteq> Gone" "ph' \<noteq> Gone" using assms(3,4) by auto
  then show ?thesis
    using ok assms(2-) reader_moves [of "m_known (i_mon s)" "i_readers s" "pending (i_scan s)" "m_next (i_mon s)" i d ph ph']
      scanner_moves [of _ _ "i_readers s" _ i d ph]
      fds_moves [of _ "i_readers s" i d ph ph']
    by (simp add: mon_ok_def Let_def)
qed

lemma mon_ok_step:
  assumes "istep s t" and "mon_ok s"
  shows "mon_ok t"
  using assms
proof (cases rule: istep.cases)
  case (opens p ps uni fd)
  with assms(2) show ?thesis
    using ids_ok_fresh [of "m_known (i_mon s)" "m_next (i_mon s)"]
      readers_ok_fresh [of "m_known (i_mon s)" "m_next (i_mon s)" "i_readers s"]
    by (simp add: ok_defs ids_ok_next readers_ok_next owned_None)
next
  case (exists_already d phys ps)
  with assms(2) show ?thesis by (simp add: ok_defs register_def)
next
  case (registers d phys ps m)
  note m = register_SomeD [OF registers(3)]
  have "ids_ok (m_known (i_mon s)) (m_next (i_mon s))" "owned (m_known (i_mon s)) (i_readers s) (Some d)"
    "readers_ok (m_known (i_mon s)) (m_next (i_mon s)) (i_readers s)" "d_id d < m_next (i_mon s)"
    "i_readers s (d_id d) = None" "m_known (i_mon s) (d_path d) = None"
    "\<forall>p d'. m_known (i_mon s) p = Some d' \<longrightarrow> d_id d' \<noteq> d_id d"
    using assms(2) registers(2) by (simp_all add: ok_defs)
  from register_ok [OF this HOL.refl] this registers assms(2) m show ?thesis
    by (simp add: ok_defs)
next
  case (announces d phys ps tm)
  have "ids_ok (m_known (i_mon s)) (m_next (i_mon s))" "owned (m_known (i_mon s)) (i_readers s) (Some d)"
    "readers_ok (m_known (i_mon s)) (m_next (i_mon s)) (i_readers s)" "d_id d < m_next (i_mon s)"
    "i_readers s (d_id d) = None" "m_known (i_mon s) (d_path d) = Some d"
    using assms(2) announces(2) by (simp_all add: ok_defs)
  from announce_ok [OF this] this announces assms(2) show ?thesis
    by (auto simp: ok_defs write_log_def fds_ok_def split: if_splits)
next
  case (reads i d bytes evs)
  with assms(2) show ?thesis using mon_ok_move [of s i d _ "Reading evs" "i_mon s"] by simp
next
  case (writes i d ev evs)
  with assms(2) show ?thesis
    using mon_ok_move [of s i d _ "Reading evs" "write_log (Key ev d) (i_mon s)"] by (simp add: write_log_def)
next
  case (read_ends i d)
  with assms(2) show ?thesis using mon_ok_move [of s i d _ Ended "i_mon s"] by simp
next
  case (unlinks i d m)
  note m = unlink_SomeD [OF unlinks(3)]
  from assms(2) unlinks m show ?thesis
    using unlink_ok [of "m_known (i_mon s)" "m_next (i_mon s)" "i_readers s" "pending (i_scan s)" "i_scan s" i d]
      fds_moves [of "m_closed (i_mon s)" "i_readers s" i d Ended Unlinked]
    by (simp add: mon_ok_def Let_def)
next
  case (not_linked i d)
  with assms(2) have "m_known (i_mon s) (d_path d) = Some d"
    by (auto simp: mon_ok_def Let_def readers_ok_def)
  with not_linked show ?thesis by (simp add: unlink_def)
next
  case (reports i d tm)
  note ok = assms(2) [unfolded mon_ok_def Let_def]
  then have "d_id d = i" using reports(2) by (auto simp: readers_ok_def)
  then have "fds_ok (insert (d_id d) (m_closed (i_mon s))) ((i_readers s)(i \<mapsto> (d, Gone)))"
    using ok by (auto simp: fds_ok_def)
  with reports ok show ?thesis
    using not_active_ok [of "m_known (i_mon s)" "i_readers s" "pending (i_scan s)" "m_next (i_mon s)" i d Unlinked Gone]
      scanner_moves [of "m_known (i_mon s)" "m_next (i_mon s)" "i_readers s" "i_scan s" i d Unlinked "(d, Gone)"]
    by (simp add: mon_ok_def Let_def write_log_def close_fd_def)
qed (simp_all add: ok_defs write_log_def)

lemma mon_ok_reach: "ireach s \<Longrightarrow> mon_ok s"
  by (induction rule: ireach_induct) (auto intro: mon_ok_start mon_ok_step)

section \<open>Properties\<close>

text \<open>What a reachable state promises, path by path and descriptor by descriptor.\<close>

definition one_device_per_path :: "sys \<Rightarrow> bool" where
  "one_device_per_path s \<longleftrightarrow>
     (\<forall>i d ph. i_readers s i = Some (d, ph) \<longrightarrow> active ph \<longrightarrow> m_known (i_mon s) (d_path d) = Some d)
     \<and> (\<forall>p d. m_known (i_mon s) p = Some d \<longrightarrow> d_path d = p \<and> d_id d \<notin> m_closed (i_mon s))
     \<and> (\<forall>p d. m_known (i_mon s) p = Some d \<longrightarrow> d_keyCap d \<longrightarrow> pending (i_scan s) \<noteq> Some d \<longrightarrow>
          (\<exists>ph. i_readers s (d_id d) = Some (d, ph) \<and> active ph))"

text \<open>
  C10: In every reachable interleaving of the scanner and the readers, a running reader is the one
  of the device known under its path (so no path ever has two), a known device is registered under
  its own path with its descriptor still open, and every key-capable device in the known-set is
  being read or is in the hands of the scanner that registered it.
\<close>

theorem one_device_per_path_reach:
  assumes "ireach s"
  shows "one_device_per_path s"
proof -
  note ok = mon_ok_reach [OF assms, unfolded mon_ok_def Let_def]
  have "d_id d \<notin> m_closed (i_mon s)" if "m_known (i_mon s) p = Some d" for p d
  proof
    assume "d_id d \<in> m_closed (i_mon s)"
    then obtain d' where "i_readers s (d_id d) = Some (d', Gone)" using ok by (auto simp: fds_ok_def)
    then show False using ok that active_simps(4) unfolding readers_ok_def by metis
  qed
  moreover have "m_known (i_mon s) (d_path d) = Some d" if "i_readers s i = Some (d, ph)" "active ph" for i d ph
    using ok that by (auto simp: readers_ok_def)
  moreover have "\<exists>ph. i_readers s (d_id d) = Some (d, ph) \<and> active ph"
    if "m_known (i_mon s) p = Some d" "d_keyCap d" "pending (i_scan s) \<noteq> Some d" for p d
    using ok that unfolding owned_def by meson
  ultimately show ?thesis
    using ok unfolding one_device_per_path_def ids_ok_def by blast
qed

section \<open>The order of the log\<close>

fun about :: "nat \<Rightarrow> logged \<Rightarrow> bool" where
  "about i (Added t d phys) \<longleftrightarrow> d_id d = i"
| "about i (Key ev d) \<longleftrightarrow> d_id d = i"
| "about i (Removed t d) \<longleftrightarrow> d_id d = i"
| "about i (AuditStart t pid n) \<longleftrightarrow> False"

definition history :: "nat \<Rightarrow> monitor \<Rightarrow> logged list" where
  "history i m = filter (about i) (m_log m)"

text \<open>The records of one device: its addition, its keys, and at most one removal at the end.\<close>

fun after_added :: "device \<Rightarrow> logged list \<Rightarrow> bool" where
  "after_added d [] \<longleftrightarrow> True"
| "after_added d (Key ev e # rs) \<longleftrightarrow> e = d \<and> d_keyCap d \<and> after_added d rs"
| "after_added d [Removed t e] \<longleftrightarrow> e = d \<and> d_keyCap d"
| "after_added d rs \<longleftrightarrow> False"

fun history_ok :: "logged list \<Rightarrow> bool" where
  "history_ok [] \<longleftrightarrow> True"
| "history_ok (Added t d phys # rs) \<longleftrightarrow> after_added d rs"
| "history_ok rs \<longleftrightarrow> False"

definition running_log :: "device \<Rightarrow> logged list \<Rightarrow> bool" where
  "running_log d h \<longleftrightarrow> (\<exists>t phys evs. h = Added t d phys # map (\<lambda>ev. Key ev d) evs)"

definition removed_log :: "device \<Rightarrow> logged list \<Rightarrow> bool" where
  "removed_log d h \<longleftrightarrow> (\<exists>h' t. running_log d h' \<and> h = h' @ [Removed t d])"

definition shape :: "readers \<Rightarrow> device option \<Rightarrow> nat \<Rightarrow> nat \<Rightarrow> logged list \<Rightarrow> bool" where
  "shape R q n i h \<longleftrightarrow>
     (case R i of
        Some (d, ph) \<Rightarrow> if ph = Gone then removed_log d h else running_log d h
      | None \<Rightarrow>
          if i < n \<and> (\<forall>d. q = Some d \<longrightarrow> d_id d \<noteq> i) then \<exists>t d phys. h = [Added t d phys] \<and> \<not> d_keyCap d
          else h = [])"

definition log_ok :: "sys \<Rightarrow> bool" where
  "log_ok s \<longleftrightarrow>
     (\<forall>i. shape (i_readers s) (pending (i_scan s)) (m_next (i_mon s)) i (history i (i_mon s)))"

lemma running_log_key: "running_log d h \<Longrightarrow> running_log d (h @ [Key ev d])"
  unfolding running_log_def by (metis append_Cons list.simps(8,9) map_append)

lemma history_write: "history i (write_log r m) = history i m @ (if about i r then [r] else [])"
  by (simp add: history_def write_log_def)

lemma history_same: "m_log m' = m_log m \<Longrightarrow> history i m' = history i m"
  by (simp add: history_def)

lemma write_log_sel [simp]:
  "m_known (write_log r m) = m_known m" "m_next (write_log r m) = m_next m" "m_closed (write_log r m) = m_closed m"
  by (simp_all add: write_log_def)

lemma shape_allocates: "shape R None n i h \<Longrightarrow> d_id d = n \<Longrightarrow> shape R (Some d) (Suc n) i h"
  by (cases "R i"; cases "i = n"; cases "i < n") (auto simp: shape_def)

lemma close_fd_sel [simp]:
  "m_known (close_fd d m) = m_known m" "m_next (close_fd d m) = m_next m" "history i (close_fd d m) = history i m"
  by (simp_all add: close_fd_def history_def)

lemma shape_upd:
  "shape (R(j \<mapsto> (d, ph))) q n i h \<longleftrightarrow>
     (if i = j then if ph = Gone then removed_log d h else running_log d h else shape R q n i h)"
  by (simp add: shape_def)

lemma log_ok_reader:
  assumes "log_ok s" and "i_readers s i = Some (d, ph)"
  shows "if ph = Gone then removed_log d (history i (i_mon s)) else running_log d (history i (i_mon s))"
  using assms(1) unfolding log_ok_def shape_def by (metis (mono_tags, lifting) assms(2) case_prod_conv option.simps(5))

lemma log_ok_step:
  assumes "istep s t" and "mon_ok s" and "log_ok s"
  shows "log_ok t"
  using assms(1)
proof (cases rule: istep.cases)
  case (opens p ps uni fd)
  then have "history i (i_mon t) = history i (i_mon s)" for i by (simp add: history_def)
  with opens assms(3) show ?thesis
    by (simp add: log_ok_def pending_def shape_allocates)
next
  case (exists_already d phys ps)
  with assms(2) show ?thesis by (simp add: ok_defs register_def)
next
  case (registers d phys ps m)
  with register_SomeD [OF registers(3)] assms(3) show ?thesis
    by (simp add: log_ok_def shape_def pending_def history_def)
next
  case (announces d phys ps tm)
  then have d: "d_id d < m_next (i_mon s)" "i_readers s (d_id d) = None" "history (d_id d) (i_mon s) = []"
    using assms(2,3) by (auto simp: ok_defs log_ok_def shape_def split: option.splits if_splits)
  show ?thesis
    unfolding log_ok_def
  proof
    fix i
    have old: "shape (i_readers s) (Some d) (m_next (i_mon s)) i (history i (i_mon s))"
      using assms(3) announces by (simp add: log_ok_def pending_def)
    show "shape (i_readers t) (pending (i_scan t)) (m_next (i_mon t)) i (history i (i_mon t))"
    proof (cases "i = d_id d")
      case True
      with announces d show ?thesis
        by (auto simp: history_write shape_def running_log_def pending_def)
    next
      case False
      with announces old show ?thesis
        by (auto simp: history_write shape_def pending_def split: option.splits)
    qed
  qed
next
  case (writes i d ev evs)
  then have d: "d_id d = i" using assms(2) by (auto simp: mon_ok_def Let_def readers_ok_def)
  have "running_log d (history i (i_mon s))"
    using log_ok_reader [OF assms(3) writes(2)] by simp
  with writes d assms(3) show ?thesis
    by (auto simp: log_ok_def shape_upd history_write running_log_key)
next
  case (unlinks i d m)
  with unlink_SomeD [OF unlinks(3)] log_ok_reader [OF assms(3) unlinks(2)] assms(3) show ?thesis
    by (auto simp: log_ok_def shape_upd history_def)
next
  case (not_linked i d)
  with assms(2) have "m_known (i_mon s) (d_path d) = Some d"
    by (auto simp: mon_ok_def Let_def readers_ok_def)
  with not_linked show ?thesis by (simp add: unlink_def)
next
  case (reports i d tm)
  then have d: "d_id d = i" using assms(2) by (auto simp: mon_ok_def Let_def readers_ok_def)
  have "running_log d (history i (i_mon s))"
    using log_ok_reader [OF assms(3) reports(2)] by simp
  then have "removed_log d (history i (i_mon s) @ [Removed tm d])"
    unfolding removed_log_def by blast
  with reports d assms(3) show ?thesis
    by (auto simp: log_ok_def shape_upd history_write)
next
  case (starts n tm pid)
  with assms(3) show ?thesis by (simp add: log_ok_def shape_def pending_def history_def write_log_def)
next
  case (reads i d bytes evs)
  with log_ok_reader [OF assms(3) reads(2)] assms(3) show ?thesis by (auto simp: log_ok_def shape_upd)
next
  case (read_ends i d)
  with log_ok_reader [OF assms(3) read_ends(2)] assms(3) show ?thesis by (auto simp: log_ok_def shape_upd)
qed (use assms(3) in \<open>simp_all add: log_ok_def pending_def\<close>)

lemma log_ok_start: "log_ok (sys0 entries)"
  by (simp add: log_ok_def shape_def sys0_def monitor0_def history_def)

lemma log_ok_reach: "ireach s \<Longrightarrow> log_ok s"
  by (induction rule: ireach_induct) (auto intro: log_ok_start log_ok_step mon_ok_reach)

lemma after_added_keys: "after_added d (map (\<lambda>ev. Key ev d) evs @ rs) \<longleftrightarrow> (evs = [] \<or> d_keyCap d) \<and> after_added d rs"
  by (induction evs) auto

text \<open>
  C4: In every reachable interleaving the records of one device in the log read, in order: its
  \<^verbatim>\<open>DEVICE_ADDED\<close>, then its \<^verbatim>\<open>KEY\<close> records, then at most one \<^verbatim>\<open>DEVICE_REMOVED\<close> after
  which nothing follows; keys and removals appear for key-capable devices only.
\<close>

theorem device_history_ok:
  assumes "ireach s"
  shows "history_ok (history i (i_mon s))"
proof (cases "i_readers s i")
  case None
  then have "shape (i_readers s) (pending (i_scan s)) (m_next (i_mon s)) i (history i (i_mon s))"
    using log_ok_reach [OF assms] by (simp add: log_ok_def)
  with None show ?thesis by (auto simp: shape_def split: if_splits)
next
  case (Some x)
  obtain d ph where x: "x = (d, ph)" by fastforce
  have "d_keyCap d"
    using Some x mon_ok_reach [OF assms] by (auto simp: mon_ok_def Let_def readers_ok_def)
  moreover have "if ph = Gone then removed_log d (history i (i_mon s)) else running_log d (history i (i_mon s))"
    using log_ok_reader [OF log_ok_reach [OF assms]] Some x by simp
  ultimately show ?thesis
    using after_added_keys [of d _ "[]"]
    by (auto simp: removed_log_def running_log_def after_added_keys split: if_splits)
qed

section \<open>What is not guaranteed\<close>

text \<open>
  C30: A device without keys is never forgotten: once it is in the known-set it stays there in every
  later state, whatever happens to the hardware, so no device that appears later under the same
  path is ever opened. (Only readers remove devices, and only key-capable devices have one.)
\<close>

theorem non_key_device_stays:
  assumes "ireach s" and "m_known (i_mon s) p = Some d" and "\<not> d_keyCap d" and "isteps s t"
  shows "m_known (i_mon t) p = Some d"
proof -
  from assms(4,1,2) have "m_known (i_mon t) p = Some d \<and> ireach t"
  proof (induction rule: isteps.induct)
    case (further s t u)
    then have t: "m_known (i_mon t) p = Some d" "ireach t" by auto
    from further(2) have "m_known (i_mon u) p = Some d"
    proof (cases rule: istep.cases)
      case (unlinks i e m)
      have "d_keyCap e" "m_known (i_mon t) (d_path e) = Some e"
        using unlinks(2) mon_ok_reach [OF t(2)] by (auto simp: mon_ok_def Let_def readers_ok_def)
      with t(1) assms(3) have "p \<noteq> d_path e" by auto
      with unlinks unlink_SomeD [OF unlinks(3)] t(1) show ?thesis by simp
    next
      case (registers e phys ps m)
      with register_SomeD [OF registers(3)] t(1) show ?thesis by auto
    qed (use t(1) in \<open>simp_all add: close_fd_def\<close>)
    with t(2) further(2) show ?case by (blast intro: ireach_step)
  qed simp
  then show ?thesis ..
qed

text \<open>The three steps of the scanner that take a path from the glob to an announced device.\<close>

definition added :: "sys \<Rightarrow> device \<Rightarrow> string \<Rightarrow> string \<Rightarrow> string list \<Rightarrow> sys" where
  "added s d t phys ps =
     s\<lparr>i_mon := write_log (Added t d phys)
         ((i_mon s)\<lparr>m_next := Suc (m_next (i_mon s)), m_known := (m_known (i_mon s))(d_path d \<mapsto> d)\<rparr>),
       i_scan := Scanning ps,
       i_readers := (if d_keyCap d then (i_readers s)(d_id d \<mapsto> (d, Reading [])) else i_readers s)\<rparr>"

lemma ireach_added:
  assumes "ireach s" and "i_scan s = Scanning (p # ps)" and "m_known (i_mon s) p = None"
  shows "ireach (added s (dev_of uni (m_next (i_mon s)) p fd) t (devicePhys fd) ps)"
proof -
  let ?d = "dev_of uni (m_next (i_mon s)) p fd" and ?phys = "devicePhys fd"
  let ?m1 = "(i_mon s)\<lparr>m_next := Suc (m_next (i_mon s))\<rparr>"
  let ?m2 = "?m1\<lparr>m_known := (m_known (i_mon s))(p \<mapsto> ?d)\<rparr>"
  let ?s1 = "s\<lparr>i_mon := ?m1, i_scan := Opened ?d ?phys ps\<rparr>"
  let ?s2 = "?s1\<lparr>i_mon := ?m2, i_scan := Registered ?d ?phys ps\<rparr>"
  have "ireach ?s1" using assms istep.opens by (blast intro: ireach_step)
  moreover have "register ?d ?m1 = Some ?m2" using assms(3) by (simp add: register_def)
  then have "istep ?s1 ?s2" using istep.registers [of ?s1 ?d ?phys ps ?m2] by simp
  ultimately have "ireach ?s2" by (rule ireach_step)
  moreover have "istep ?s2 (added s ?d t ?phys ps)"
    using istep.announces [of ?s2 ?d ?phys ps t] by (cases "d_keyCap ?d") (simp_all add: added_def)
  ultimately show ?thesis by (rule ireach_step)
qed

text \<open>A keyboard and a device without keys, as answers to the ioctls.\<close>

definition a_keyboard :: evdev where
  "a_keyboard req n = (if n = keyBitmapSize then Some (1, [2]) else None)"

definition a_sensor :: evdev where
  "a_sensor req n = None"

definition event0 :: string where "event0 = ''/dev/input/event0''"

lemma keyCapable_examples: "keyCapable a_keyboard" "\<not> keyCapable a_sensor" "devicePhys a_keyboard = ''''" "devicePhys a_sensor = ''''"
  by (simp_all add: keyCapable_def devicePhys_def ioctlBuf_def a_keyboard_def a_sensor_def keyBitmapSize_def keyMax_def
      physLen_def)

definition dev0 :: "nat \<Rightarrow> evdev \<Rightarrow> device" where
  "dev0 i fd = dev_of (\<lambda>s. s) i event0 fd"

lemma dev0_sel [simp]: "d_id (dev0 i fd) = i" "d_path (dev0 i fd) = event0" "d_keyCap (dev0 i fd) = keyCapable fd"
  by (simp_all add: dev0_def dev_of_def mk_device_def)

definition after_add :: "evdev \<Rightarrow> sys" where
  "after_add fd = added (sys0 [''event0'']) (dev0 0 fd) ''1.0'' (devicePhys fd) []"

lemma glob_event0: "sort_strings (glob_events [''event0'']) = [event0]"
  by code_simp

lemma ireach_sys0: "ireach (sys0 entries)"
  unfolding ireach_def by (blast intro: isteps.refl)

lemma ireach_after_add: "ireach (after_add fd)"
  using ireach_added [of "sys0 [''event0'']" event0 "[]" "\<lambda>s. s" fd "''1.0''"] ireach_sys0 [of "[''event0'']"]
  by (simp add: after_add_def dev0_def sys0_def monitor0_def glob_event0)

lemma one_device_per_path_reach_witness: "one_device_per_path (after_add a_keyboard)"
  by (rule one_device_per_path_reach [OF ireach_after_add])

lemma device_history_ok_witness:
  "history 0 (i_mon (after_add a_keyboard)) = [Added ''1.0'' (dev0 0 a_keyboard) ''''] \<and>
   history_ok (history 0 (i_mon (after_add a_keyboard)))"
  using device_history_ok [OF ireach_after_add, of 0 a_keyboard]
  by (simp add: after_add_def added_def history_def write_log_def sys0_def monitor0_def keyCapable_examples)

lemma non_key_device_stays_witness:
  "m_known (i_mon (after_add a_sensor)) event0 = Some (dev0 0 a_sensor)"
  using non_key_device_stays [OF ireach_after_add _ _ isteps.refl, of a_sensor event0 "dev0 0 a_sensor"]
  by (simp add: after_add_def added_def keyCapable_examples)

text \<open>
  C31: The two records about one path can come out in the wrong order: \<^verbatim>\<open>removeDevice\<close> drops the
  device from the known-set before it writes \<^verbatim>\<open>DEVICE_REMOVED\<close>, and in between a scan can find
  and announce the next device of the path. There is a reachable state in which the new device is
  known and being read, while the last record of the log says that its path was removed.
\<close>

theorem removal_reported_after_next_addition:
  "\<exists>s d d'. ireach s \<and> d_path d = d_path d' \<and> d_id d \<noteq> d_id d'
     \<and> m_known (i_mon s) (d_path d') = Some d'
     \<and> (\<exists>rs t t' phys. m_log (i_mon s) = rs @ [Added t d' phys, Removed t' d])"
proof -
  let ?d = "dev0 0 a_keyboard" and ?d' = "dev0 1 a_keyboard"
  let ?s1 = "after_add a_keyboard"
  let ?s2 = "?s1\<lparr>i_scan := Counted (deviceCount (i_mon ?s1))\<rparr>"
  let ?s3 = "?s2\<lparr>i_mon := write_log (AuditStart ''1.0'' 7 (deviceCount (i_mon ?s1))) (i_mon ?s1),
                i_scan := Scanning [], i_started := True\<rparr>"
  let ?s4 = "?s3\<lparr>i_readers := (i_readers ?s3)(0 \<mapsto> (?d, Ended))\<rparr>"
  let ?m5 = "(i_mon ?s4)\<lparr>m_known := (m_known (i_mon ?s4))(event0 := None)\<rparr>"
  let ?s5 = "?s4\<lparr>i_mon := ?m5, i_readers := (i_readers ?s4)(0 \<mapsto> (?d, Unlinked))\<rparr>"
  let ?s6 = "?s5\<lparr>i_scan := Scanning (sort_strings (glob_events [''event0'']))\<rparr>"
  let ?s7 = "added ?s6 ?d' ''2.0'' '''' []"
  let ?s8 = "?s7\<lparr>i_mon := close_fd ?d (write_log (Removed ''2.1'' ?d) (i_mon ?s7)),
                i_readers := (i_readers ?s7)(0 \<mapsto> (?d, Gone))\<rparr>"
  note defs = after_add_def added_def sys0_def monitor0_def keyCapable_examples
  have "ireach ?s2" by (rule ireach_step [OF ireach_after_add istep.counts]) (simp_all add: defs)
  then have "ireach ?s3" by (rule ireach_step) (use istep.starts [of ?s2] in simp)
  then have "ireach ?s4" by (rule ireach_step [OF _ istep.read_ends]) (simp add: defs)
  then have "ireach ?s5" by (rule ireach_step [OF _ istep.unlinks]) (simp_all add: defs unlink_def)
  then have "ireach ?s6" by (rule ireach_step [OF _ istep.rescans]) (simp_all add: defs)
  then have "ireach ?s7"
    using ireach_added [of ?s6 event0 "[]" "\<lambda>s. s" a_keyboard "''2.0''"] by (simp add: glob_event0 defs dev0_def [symmetric])
  then have "ireach ?s8" by (rule ireach_step [OF _ istep.reports]) (simp add: defs)
  moreover have "m_known (i_mon ?s8) event0 = Some ?d'"
    by (simp add: added_def)
  moreover have "m_log (i_mon ?s8) = m_log (i_mon ?s6) @ [Added ''2.0'' ?d' '''', Removed ''2.1'' ?d]"
    by (simp add: added_def write_log_def close_fd_def)
  ultimately show ?thesis
    by (intro exI [of _ ?s8] exI [of _ ?d] exI [of _ ?d']) auto
qed

end
