(* ===== verification/GoNet.thy ===== *)
theory GoNet
  imports GoStrings
begin

text \<open>
  What the program uses of Go's package \<^verbatim>\<open>net\<close>: addresses as byte slices of length 4 or 16,
  the address predicates, parsing and printing of addresses, networks in CIDR form, and
  \<^verbatim>\<open>bytes.Compare\<close>. The lemmas relate the byte-wise operations to the number an address stands
  for, so that membership in a network is an interval of numbers.
\<close>

type_synonym IP = "u8 list"

section \<open>Addresses\<close>

definition v4InV6Prefix :: "u8 list" where
  "v4InV6Prefix = replicate 10 0 @ [0xff, 0xff]"

lemma v4InV6Prefix_list: "v4InV6Prefix = [0, 0, 0, 0, 0, 0, 0, 0, 0, 0, 255, 255]"
  by code_simp

definition To4 :: "IP \<Rightarrow> IP option" where
  "To4 ip =
     (if length ip = 4 then Some ip
      else if length ip = 16 \<and> take 12 ip = v4InV6Prefix then Some (drop 12 ip)
      else None)"

definition To16 :: "IP \<Rightarrow> IP option" where
  "To16 ip =
     (if length ip = 4 then Some (v4InV6Prefix @ ip)
      else if length ip = 16 then Some ip else None)"

definition ip_Equal :: "IP \<Rightarrow> IP \<Rightarrow> bool" where
  "ip_Equal ip x =
     (if length ip = length x then ip = x
      else if length ip = 4 \<and> length x = 16 then take 12 x = v4InV6Prefix \<and> ip = drop 12 x
      else if length ip = 16 \<and> length x = 4 then take 12 ip = v4InV6Prefix \<and> drop 12 ip = x
      else False)"

definition IPv4zero :: IP where "IPv4zero = v4InV6Prefix @ [0, 0, 0, 0]"
definition IPv4bcast :: IP where "IPv4bcast = v4InV6Prefix @ [255, 255, 255, 255]"
definition IPv6unspecified :: IP where "IPv6unspecified = replicate 16 0"
definition IPv6loopback :: IP where "IPv6loopback = replicate 15 0 @ [1]"

definition IsUnspecified :: "IP \<Rightarrow> bool" where
  "IsUnspecified ip \<longleftrightarrow> ip_Equal ip IPv4zero \<or> ip_Equal ip IPv6unspecified"

definition IsLoopback :: "IP \<Rightarrow> bool" where
  "IsLoopback ip =
     (case To4 ip of Some v4 \<Rightarrow> v4 ! 0 = 127 | None \<Rightarrow> ip_Equal ip IPv6loopback)"

definition IsPrivate :: "IP \<Rightarrow> bool" where
  "IsPrivate ip =
     (case To4 ip of
        Some v4 \<Rightarrow> v4 ! 0 = 10 \<or> (v4 ! 0 = 172 \<and> v4 ! 1 AND 0xf0 = 16) \<or> (v4 ! 0 = 192 \<and> v4 ! 1 = 168)
      | None \<Rightarrow> length ip = 16 \<and> ip ! 0 AND 0xfe = 0xfc)"

definition IsMulticast :: "IP \<Rightarrow> bool" where
  "IsMulticast ip =
     (case To4 ip of
        Some v4 \<Rightarrow> v4 ! 0 AND 0xf0 = 0xe0
      | None \<Rightarrow> length ip = 16 \<and> ip ! 0 = 0xff)"

definition IsLinkLocalMulticast :: "IP \<Rightarrow> bool" where
  "IsLinkLocalMulticast ip =
     (case To4 ip of
        Some v4 \<Rightarrow> v4 ! 0 = 224 \<and> v4 ! 1 = 0 \<and> v4 ! 2 = 0
      | None \<Rightarrow> length ip = 16 \<and> ip ! 0 = 0xff \<and> ip ! 1 AND 0x0f = 0x02)"

definition IsLinkLocalUnicast :: "IP \<Rightarrow> bool" where
  "IsLinkLocalUnicast ip =
     (case To4 ip of
        Some v4 \<Rightarrow> v4 ! 0 = 169 \<and> v4 ! 1 = 254
      | None \<Rightarrow> length ip = 16 \<and> ip ! 0 = 0xfe \<and> ip ! 1 AND 0xc0 = 0x80)"

definition IsGlobalUnicast :: "IP \<Rightarrow> bool" where
  "IsGlobalUnicast ip \<longleftrightarrow>
     (length ip = 4 \<or> length ip = 16) \<and> \<not> ip_Equal ip IPv4bcast \<and> \<not> IsUnspecified ip
     \<and> \<not> IsLoopback ip \<and> \<not> IsMulticast ip \<and> \<not> IsLinkLocalUnicast ip"

lemma special_ip_lists:
  "IPv4zero = [0, 0, 0, 0, 0, 0, 0, 0, 0, 0, 255, 255, 0, 0, 0, 0]"
  "IPv4bcast = [0, 0, 0, 0, 0, 0, 0, 0, 0, 0, 255, 255, 255, 255, 255, 255]"
  "IPv6unspecified = [0, 0, 0, 0, 0, 0, 0, 0, 0, 0, 0, 0, 0, 0, 0, 0]"
  "IPv6loopback = [0, 0, 0, 0, 0, 0, 0, 0, 0, 0, 0, 0, 0, 0, 0, 1]"
  by code_simp+

lemma To4_length: "To4 ip = Some v4 \<Longrightarrow> length v4 = 4"
  by (auto simp: To4_def split: if_splits)

lemma To4_len4 [simp]: "length ip = 4 \<Longrightarrow> To4 ip = Some ip"
  by (simp add: To4_def)

lemma To4_mapped [simp]: "length ip = 4 \<Longrightarrow> To4 (v4InV6Prefix @ ip) = Some ip"
  by (simp add: To4_def v4InV6Prefix_def)

section \<open>Parsing\<close>

definition dot :: char where "dot = CHR ''.''"
definition colon :: char where "colon = CHR '':''"
definition percent :: char where "percent = CHR ''%''"
definition slash :: char where "slash = CHR ''/''"

text \<open>A dotted field: digits, no leading zero, at most 255.\<close>

definition parse_octet :: "string \<Rightarrow> u8 option" where
  "parse_octet f =
     (if f = [] \<or> \<not> list_all is_digit f \<or> (hd f = CHR ''0'' \<and> 1 < length f) then None
      else case ParseUint 8 f of (n, True) \<Rightarrow> Some (word_of_nat n) | (n, False) \<Rightarrow> None)"

definition parse_v4 :: "string \<Rightarrow> u8 list option" where
  "parse_v4 s =
     (case split_on dot s of
        [a, b, c, d] \<Rightarrow>
          do { a' \<leftarrow> parse_octet a; b' \<leftarrow> parse_octet b; c' \<leftarrow> parse_octet c; d' \<leftarrow> parse_octet d;
               Some [a', b', c', d'] }
      | _ \<Rightarrow> None)"

definition hex_digit :: "char \<Rightarrow> nat option" where
  "hex_digit c =
     (let p = ord c in
      if 48 \<le> p \<and> p \<le> 57 then Some (p - 48)
      else if 97 \<le> p \<and> p \<le> 102 then Some (p - 87)
      else if 65 \<le> p \<and> p \<le> 70 then Some (p - 55)
      else None)"

definition is_hex :: "char \<Rightarrow> bool" where
  "is_hex c \<longleftrightarrow> hex_digit c \<noteq> None"

definition hex_num :: "string \<Rightarrow> nat" where
  "hex_num s = foldl (\<lambda>a c. 16 * a + the (hex_digit c)) 0 s"

text \<open>
  The loop of \<^verbatim>\<open>parseIPv6\<close>: hexadecimal groups, at most one ellipsis (the second argument is
  its place among the bytes), possibly a dotted tail.
\<close>

function v6_loop :: "u8 list \<Rightarrow> nat option \<Rightarrow> string \<Rightarrow> (u8 list \<times> nat option \<times> string) option" where
  "v6_loop ip ell s =
     (if 16 \<le> length ip then Some (ip, ell, s)
      else let ds = takeWhile is_hex s; r = dropWhile is_hex s in
        if ds = [] \<or> 4 < length ds then None
        else if r \<noteq> [] \<and> hd r = dot then
          (if ell = None \<and> length ip \<noteq> 12 then None
           else if 16 < length ip + 4 then None
           else map_option (\<lambda>b. (ip @ b, ell, [])) (parse_v4 s))
        else let g = hex_num ds; ip' = ip @ [word_of_nat (g div 256), word_of_nat (g mod 256)] in
          if r = [] then Some (ip', ell, [])
          else if hd r \<noteq> colon \<or> tl r = [] then None
          else if hd (tl r) = colon then
            (if ell \<noteq> None then None
             else if tl (tl r) = [] then Some (ip', Some (length ip'), [])
             else v6_loop ip' (Some (length ip')) (tl (tl r)))
          else v6_loop ip' ell (tl r))"
  by pat_completeness auto
termination
proof (relation "measure (\<lambda>(ip, ell, s). length s)", goal_cases)
  case 1
  show ?case by simp
next
  case (2 ip ell s x xa xb xc)
  have "length (dropWhile is_hex s) \<le> length s" by (rule length_dropWhile_le)
  with 2 show ?case by (cases "dropWhile is_hex s") (auto simp: Let_def)
next
  case (3 ip ell s x xa xb xc)
  have "length (dropWhile is_hex s) \<le> length s" by (rule length_dropWhile_le)
  with 3 show ?case by (cases "dropWhile is_hex s") (auto simp: Let_def)
qed

declare v6_loop.simps [simp del]

definition parse_v6 :: "string \<Rightarrow> u8 list option" where
  "parse_v6 s =
     (let lead = (2 \<le> length s \<and> s ! 0 = colon \<and> s ! 1 = colon);
          s' = (if lead then drop 2 s else s);
          ell0 = (if lead then Some 0 else None)
      in if lead \<and> s' = [] then Some (replicate 16 0)
         else case v6_loop [] ell0 s' of
             None \<Rightarrow> None
           | Some (ip, ell, rest) \<Rightarrow>
               if rest \<noteq> [] then None
               else if length ip < 16 then
                 (case ell of None \<Rightarrow> None
                  | Some e \<Rightarrow> Some (take e ip @ replicate (16 - length ip) 0 @ drop e ip))
               else if ell \<noteq> None then None else Some ip)"

text \<open>
  \<^verbatim>\<open>netip.ParseAddr\<close> without a zone: the first of dot, colon and percent decides the family.
  A zone makes \<^verbatim>\<open>net.ParseIP\<close> return nil.
\<close>

definition ParseAddr :: "string \<Rightarrow> u8 list option" where
  "ParseAddr s =
     (case filter (\<lambda>c. c = dot \<or> c = colon \<or> c = percent) s of
        [] \<Rightarrow> None
      | c # _ \<Rightarrow> if c = dot then parse_v4 s
                else if c = colon then (if percent \<in> set s then None else parse_v6 s)
                else None)"

definition ParseIP :: "string \<Rightarrow> IP option" where
  "ParseIP s = Option.bind (ParseAddr s) To16"

lemma ParseIP_length: "ParseIP s = Some ip \<Longrightarrow> length ip = 16"
  by (auto simp: ParseIP_def To16_def v4InV6Prefix_def bind_eq_Some_conv split: if_splits)

section \<open>Printing\<close>

text \<open>\<^verbatim>\<open>IP.String\<close> of a 4- or 16-byte address; the longest run of zero groups becomes an ellipsis.\<close>

definition v4_string :: "u8 list \<Rightarrow> string" where
  "v4_string ip = join [dot] (map (\<lambda>b. dec (unat b)) ip)"

fun groups :: "u8 list \<Rightarrow> nat list" where
  "groups (a # b # r) = (unat a * 256 + unat b) # groups r"
| "groups r = []"

fun hex_short :: "nat \<Rightarrow> string" where
  "hex_short v = (if v < 16 then [hex_char v] else hex_short (v div 16) @ [hex_char (v mod 16)])"

declare hex_short.simps [simp del]

definition zero_run :: "nat list \<Rightarrow> nat \<Rightarrow> nat" where
  "zero_run gs i = length (takeWhile (\<lambda>g. g = 0) (drop i gs))"

definition best_run :: "nat list \<Rightarrow> (nat \<times> nat) option" where
  "best_run gs =
     foldl (\<lambda>best i. let l = zero_run gs i in
              if 2 \<le> l \<and> (case best of None \<Rightarrow> True | Some (_, m) \<Rightarrow> m < l)
              then Some (i, l) else best)
       None [0..<length gs]"

definition v6_string :: "u8 list \<Rightarrow> string" where
  "v6_string ip =
     (let gs = groups ip; show = (\<lambda>xs. join [colon] (map hex_short xs)) in
      case best_run gs of
        None \<Rightarrow> show gs
      | Some (i, l) \<Rightarrow> show (take i gs) @ [colon, colon] @ show (drop (i + l) gs))"

definition ip_String :: "IP \<Rightarrow> string" where
  "ip_String ip =
     (if ip = [] then ''<nil>''
      else if length ip \<noteq> 4 \<and> length ip \<noteq> 16 then
        CHR ''?'' # concat (map (\<lambda>b. hex_pad 2 (unat b)) ip)
      else case To4 ip of Some v4 \<Rightarrow> v4_string v4 | None \<Rightarrow> v6_string ip)"

section \<open>Networks\<close>

record IPNet =
  netIP :: "u8 list"
  netMask :: "u8 list"

text \<open>The byte with the \<open>k\<close> high bits set, and \<^verbatim>\<open>net.CIDRMask(n, 8 * len)\<close>.\<close>

definition high_bits :: "nat \<Rightarrow> u8" where
  "high_bits k = NOT (mask (8 - k))"

primrec CIDRMask :: "nat \<Rightarrow> nat \<Rightarrow> u8 list" where
  "CIDRMask n 0 = []"
| "CIDRMask n (Suc len) = high_bits (min n 8) # CIDRMask (n - 8) len"

definition and_bytes :: "u8 list \<Rightarrow> u8 list \<Rightarrow> u8 list" where
  "and_bytes xs ys = map2 (AND) xs ys"

definition ParseCIDR :: "string \<Rightarrow> IPNet option" where
  "ParseCIDR s =
     (case index_byte s slash of
        None \<Rightarrow> None
      | Some i \<Rightarrow>
          (case ParseAddr (take i s) of
             None \<Rightarrow> None
           | Some ip \<Rightarrow>
               (case ParseUint 16 (drop (Suc i) s) of
                  (n, ok) \<Rightarrow>
                    if ok \<and> n \<le> 8 * length ip then
                      let m = CIDRMask n (length ip)
                      in Some \<lparr>netIP = and_bytes ip m, netMask = m\<rparr>
                    else None)))"

text \<open>\<^verbatim>\<open>IPNet.Contains\<close>, through \<^verbatim>\<open>networkNumberAndMask\<close>.\<close>

definition network_number :: "IPNet \<Rightarrow> (u8 list \<times> u8 list) option" where
  "network_number n =
     (let ip = (case To4 (netIP n) of Some v4 \<Rightarrow> v4 | None \<Rightarrow> netIP n); m = netMask n in
      if length ip \<noteq> 4 \<and> length ip \<noteq> 16 then None
      else if length m = 4 then (if length ip = 4 then Some (ip, m) else None)
      else if length m = 16 then Some (ip, if length ip = 4 then drop 12 m else m)
      else None)"

definition Contains :: "IPNet \<Rightarrow> IP \<Rightarrow> bool" where
  "Contains n ip0 =
     (case network_number n of
        None \<Rightarrow> False
      | Some (nn, m) \<Rightarrow>
          let ip = (case To4 ip0 of Some v4 \<Rightarrow> v4 | None \<Rightarrow> ip0)
          in length ip = length nn \<and> and_bytes nn m = and_bytes ip m)"

section \<open>\<^verbatim>\<open>bytes.Compare\<close>\<close>

fun bytes_Compare :: "u8 list \<Rightarrow> u8 list \<Rightarrow> int" where
  "bytes_Compare [] [] = 0"
| "bytes_Compare [] (y # ys) = -1"
| "bytes_Compare (x # xs) [] = 1"
| "bytes_Compare (x # xs) (y # ys) =
     (if x < y then -1 else if y < x then 1 else bytes_Compare xs ys)"

section \<open>Addresses as numbers\<close>

primrec be_nat :: "u8 list \<Rightarrow> nat" where
  "be_nat [] = 0"
| "be_nat (b # bs) = unat b * 256 ^ length bs + be_nat bs"

lemma unat_byte_bound [simp]: "unat (b :: u8) < 256"
  using unsigned_less [of b, where ?'a = nat] by simp

lemma be_nat_bound: "be_nat bs < 256 ^ length bs"
proof (induction bs)
  case (Cons b bs)
  have "unat b * 256 ^ length bs + be_nat bs < (unat b + 1) * 256 ^ length bs"
    using Cons by simp
  also have "\<dots> \<le> 256 * 256 ^ length bs"
    using unat_byte_bound [of b] by (intro mult_le_mono1) linarith
  finally show ?case by simp
qed simp

lemma be_nat_append: "be_nat (xs @ ys) = be_nat xs * 256 ^ length ys + be_nat ys"
  by (induction xs) (auto simp: power_add algebra_simps)

lemma be_nat_replicate_0 [simp]: "be_nat (replicate n 0) = 0"
  by (induction n) auto

text \<open>A leading byte decides first: the arithmetic behind every comparison below.\<close>

lemma radix_less_iff:
  assumes "X < (m :: nat)" and "Y < m"
  shows "x * m + X < y * m + Y \<longleftrightarrow> x < y \<or> x = y \<and> X < Y"
proof (cases x y rule: linorder_cases)
  case less
  then have "(x + 1) * m \<le> y * m" by (intro mult_le_mono1) simp
  then have "x * m + m \<le> y * m" by simp
  with assms less show ?thesis by linarith
next
  case greater
  then have "(y + 1) * m \<le> x * m" by (intro mult_le_mono1) simp
  then have "y * m + m \<le> x * m" by simp
  with assms greater show ?thesis by linarith
qed simp

lemma radix_eq_iff:
  assumes "X < (m :: nat)" and "Y < m"
  shows "x * m + X = y * m + Y \<longleftrightarrow> x = y \<and> X = Y"
proof -
  have "x * m + X = y * m + Y \<longleftrightarrow> \<not> x * m + X < y * m + Y \<and> \<not> y * m + Y < x * m + X"
    by (metis nat_neq_iff)
  then show ?thesis
    unfolding radix_less_iff [OF assms] radix_less_iff [OF assms(2,1)] by auto
qed

lemma be_nat_inject: "length xs = length ys \<Longrightarrow> be_nat xs = be_nat ys \<longleftrightarrow> xs = ys"
proof (induction xs ys rule: list_induct2)
  case (Cons x xs y ys)
  have "be_nat xs < 256 ^ length ys" "be_nat ys < 256 ^ length ys"
    using be_nat_bound [of xs] be_nat_bound [of ys] Cons by simp_all
  then show ?case
    using Cons by (simp add: radix_eq_iff word_unat_eq_iff)
qed simp

text \<open>On keys of one width \<^verbatim>\<open>bytes.Compare\<close> compares the numbers.\<close>

lemma bytes_Compare_num:
  "length xs = length ys \<Longrightarrow>
     bytes_Compare xs ys =
       (if be_nat xs < be_nat ys then -1 else if be_nat ys < be_nat xs then 1 else 0)"
proof (induction xs ys rule: list_induct2)
  case (Cons x xs y ys)
  have b: "be_nat xs < 256 ^ length ys" "be_nat ys < 256 ^ length ys"
    using be_nat_bound [of xs] be_nat_bound [of ys] Cons by simp_all
  show ?case
    using Cons radix_less_iff [OF b, of "unat x" "unat y"]
      radix_less_iff [OF b(2,1), of "unat y" "unat x"]
    by (auto simp: word_less_nat_alt word_unat_eq_iff)
qed simp

lemma high_bits_eq_iff:
  assumes "n \<le> 8"
  shows "x AND high_bits n = y AND high_bits n \<longleftrightarrow> unat x div 2 ^ (8 - n) = unat y div 2 ^ (8 - n)"
proof -
  have e: "z AND high_bits n = push_bit (8 - n) (drop_bit (8 - n) z)" for z :: u8
    by (rule bit_eqI) (auto simp: high_bits_def bit_simps dest: bit_imp_le_length)
  have d: "drop_bit (8 - n) z = drop_bit (8 - n) w \<longleftrightarrow> unat z div 2 ^ (8 - n) = unat w div 2 ^ (8 - n)"
    for z w :: u8
    unfolding word_unat_eq_iff unat_drop_bit_eq by (simp add: drop_bit_eq_div)
  have "drop_bit (8 - n) (push_bit (8 - n) (drop_bit (8 - n) z)) = drop_bit (8 - n) z" for z :: u8
    by (rule bit_eqI) (auto simp: bit_simps dest: bit_imp_le_length)
  then show ?thesis unfolding e d [symmetric] by metis
qed

lemma length_CIDRMask [simp]: "length (CIDRMask n len) = len"
  by (induction len arbitrary: n) auto

lemma length_and_bytes [simp]: "length (and_bytes xs ys) = min (length xs) (length ys)"
  by (simp add: and_bytes_def)

lemma and_bytes_Cons [simp]: "and_bytes (x # xs) (y # ys) = (x AND y) # and_bytes xs ys"
  by (simp add: and_bytes_def)

lemma and_bytes_Nil [simp]: "and_bytes [] ys = []"
  by (simp add: and_bytes_def)

lemma high_bits_0 [simp]: "high_bits 0 = 0"
  by (simp add: high_bits_def mask_eq_exp_minus_1)

lemma and_bytes_CIDRMask_0: "and_bytes xs (CIDRMask 0 (length xs)) = replicate (length xs) 0"
  by (induction xs) auto

text \<open>Sharing the first \<open>n\<close> bits is agreeing up to the low bits of the number.\<close>

lemma div_lead_byte:
  assumes "X < 256 ^ l" and "k \<le> 8 * l"
  shows "(x * 256 ^ l + X) div 2 ^ k = x * 2 ^ (8 * l - k) + (X::nat) div 2 ^ k"
proof -
  have "(256::nat) ^ l = 2 ^ (8 * l - k) * 2 ^ k"
    using assms by (simp flip: power_add add: power_mult)
  then have e: "x * 256 ^ l + X = X + (x * 2 ^ (8 * l - k)) * 2 ^ k" by simp
  show ?thesis unfolding e by simp
qed

lemma and_bytes_CIDRMask_iff:
  assumes "length xs = length ys" and "n \<le> 8 * length xs"
  shows "and_bytes xs (CIDRMask n (length xs)) = and_bytes ys (CIDRMask n (length xs))
    \<longleftrightarrow> be_nat xs div 2 ^ (8 * length xs - n) = be_nat ys div 2 ^ (8 * length xs - n)"
  using assms
proof (induction xs ys arbitrary: n rule: list_induct2)
  case (Cons x xs y ys)
  let ?l = "length ys"
  have b: "be_nat xs < 256 ^ ?l" "be_nat ys < 256 ^ ?l"
    using be_nat_bound [of xs] be_nat_bound [of ys] Cons.hyps by simp_all
  show ?case
  proof (cases "8 \<le> n")
    case True
    let ?k = "8 * ?l - (n - 8)"
    have k: "8 * length (x # xs) - n = ?k" "?k \<le> 8 * ?l" using True Cons.hyps by auto
    have q: "X div 2 ^ ?k < 2 ^ (8 * ?l - ?k)" if "X < 256 ^ ?l" for X :: nat
    proof -
      have "(256::nat) ^ ?l = 2 ^ ?k * 2 ^ (8 * ?l - ?k)"
        using k(2) by (simp flip: power_add add: power_mult)
      with that show ?thesis by (simp add: less_mult_imp_div_less mult.commute)
    qed
    have h: "z AND high_bits 8 = z" for z by (simp add: high_bits_def)
    have IH: "and_bytes xs (CIDRMask (n - 8) (length xs)) = and_bytes ys (CIDRMask (n - 8) (length xs))
        \<longleftrightarrow> be_nat xs div 2 ^ ?k = be_nat ys div 2 ^ ?k"
      using Cons.IH [of "n - 8"] Cons.prems Cons.hyps True by simp
    have L: "be_nat (x # xs) div 2 ^ ?k = unat x * 2 ^ (8 * ?l - ?k) + be_nat xs div 2 ^ ?k"
      "be_nat (y # ys) div 2 ^ ?k = unat y * 2 ^ (8 * ?l - ?k) + be_nat ys div 2 ^ ?k"
      using div_lead_byte [OF b(1) k(2)] div_lead_byte [OF b(2) k(2)] Cons.hyps by simp_all
    show ?thesis
      unfolding k(1) L radix_eq_iff [OF q [OF b(1)] q [OF b(2)]]
      using IH True by (simp add: h word_unat_eq_iff min_def)
  next
    case False
    have e: "8 * length (x # xs) - n = 8 * ?l + (8 - n)" using False Cons.hyps by simp
    have d: "(z * 256 ^ ?l + Z) div 2 ^ (8 * ?l + (8 - n)) = z div 2 ^ (8 - n)"
      if "Z < 256 ^ ?l" for z Z :: nat
      using that by (simp add: power_add power_mult div_mult2_eq)
    have L: "be_nat (x # xs) div 2 ^ (8 * ?l + (8 - n)) = unat x div 2 ^ (8 - n)"
      "be_nat (y # ys) div 2 ^ (8 * ?l + (8 - n)) = unat y div 2 ^ (8 - n)"
      using d [OF b(1)] d [OF b(2)] Cons.hyps by simp_all
    show ?thesis
      unfolding e L
      using False Cons.hyps and_bytes_CIDRMask_0 [of xs] and_bytes_CIDRMask_0 [of ys]
        high_bits_eq_iff [of n x y] by simp
  qed
qed simp

end
