(* ===== verification/Classify.thy ===== *)
theory Classify
  imports GoNet
begin

text \<open>
  Model of \<^verbatim>\<open>web/netmon/classify.go\<close>: whether a peer address is worth reverse DNS and
  GeoIP (\<^verbatim>\<open>global\<close>) or stays local (\<^verbatim>\<open>lan\<close>). The tables are the source's CIDR strings,
  parsed as at package initialisation. The reference specification below is written with
  intervals of address numbers and shares nothing with the byte masks of the code.
\<close>

section \<open>The code\<close>

definition specialV4CIDRs :: "string list" where
  "specialV4CIDRs =
    [''0.0.0.0/8'', ''100.64.0.0/10'', ''192.0.0.0/24'', ''192.0.2.0/24'', ''198.18.0.0/15'',
     ''198.51.100.0/24'', ''203.0.113.0/24'', ''240.0.0.0/4'', ''255.255.255.255/32'']"

definition specialV6CIDRs :: "string list" where
  "specialV6CIDRs =
    [''2001:db8::/32'', ''2001::/23'', ''2002::/16'', ''3fff::/20'', ''64:ff9b:1::/48'',
     ''::/8'', ''100::/8'', ''200::/7'', ''400::/6'', ''800::/5'', ''1000::/4'',
     ''4000::/3'', ''6000::/3'', ''8000::/3'', ''a000::/3'', ''c000::/3'',
     ''e000::/4'', ''f000::/5'', ''f800::/6'', ''fe00::/9'']"

definition globalExceptionCIDRs :: "string list" where
  "globalExceptionCIDRs =
    [''192.0.0.9/32'', ''192.0.0.10/32'', ''2001:1::1/128'', ''2001:1::2/128'', ''2001:3::/32'',
     ''2001:4:112::/48'', ''2001:20::/28'', ''2001:30::/28'']"

definition parseCIDRs :: "string list \<Rightarrow> IPNet list" where
  "parseCIDRs cidrs = List.map_filter ParseCIDR cidrs"

definition specialNets :: "IPNet list" where
  "specialNets = parseCIDRs (specialV4CIDRs @ specialV6CIDRs)"

definition exceptionNets :: "IPNet list" where
  "exceptionNets = parseCIDRs globalExceptionCIDRs"

definition isLAN :: "IP \<Rightarrow> bool" where
  "isLAN ip0 =
     (let ip = (case To4 ip0 of Some v4 \<Rightarrow> v4 | None \<Rightarrow> ip0) in
      if IsLoopback ip \<or> IsLinkLocalUnicast ip \<or> IsLinkLocalMulticast ip \<or> IsMulticast ip
         \<or> IsUnspecified ip \<or> IsPrivate ip then True
      else if list_ex (\<lambda>n. Contains n ip) exceptionNets then False
      else if list_ex (\<lambda>n. Contains n ip) specialNets then True
      else if \<not> IsGlobalUnicast ip then True
      else False)"

datatype scope = Lan | Global

definition classify :: "string \<Rightarrow> scope" where
  "classify ip =
     (case ParseIP ip of
        None \<Rightarrow> Lan
      | Some a \<Rightarrow> if isLAN a then Lan else Global)"

section \<open>The tables, evaluated\<close>

definition net_of :: "u8 list \<times> nat \<Rightarrow> IPNet" where
  "net_of bn = (let m = CIDRMask (snd bn) (length (fst bn))
     in \<lparr>netIP = and_bytes (fst bn) m, netMask = m\<rparr>)"

definition specialBlocks :: "(u8 list \<times> nat) list" where
  "specialBlocks =
    [([0, 0, 0, 0], 8), ([100, 64, 0, 0], 10), ([192, 0, 0, 0], 24), ([192, 0, 2, 0], 24),
     ([198, 18, 0, 0], 15), ([198, 51, 100, 0], 24), ([203, 0, 113, 0], 24), ([240, 0, 0, 0], 4),
     ([255, 255, 255, 255], 32),
     (0x20 # 0x01 # 0x0d # 0xb8 # replicate 12 0, 32), (0x20 # 0x01 # replicate 14 0, 23),
     (0x20 # 0x02 # replicate 14 0, 16), (0x3f # 0xff # replicate 14 0, 20),
     (0 # 0x64 # 0xff # 0x9b # 0 # 1 # replicate 10 0, 48),
     (replicate 16 0, 8), (0x01 # replicate 15 0, 8), (0x02 # replicate 15 0, 7),
     (0x04 # replicate 15 0, 6), (0x08 # replicate 15 0, 5), (0x10 # replicate 15 0, 4),
     (0x40 # replicate 15 0, 3), (0x60 # replicate 15 0, 3), (0x80 # replicate 15 0, 3),
     (0xa0 # replicate 15 0, 3), (0xc0 # replicate 15 0, 3), (0xe0 # replicate 15 0, 4),
     (0xf0 # replicate 15 0, 5), (0xf8 # replicate 15 0, 6), (0xfe # replicate 15 0, 9)]"

definition exceptionBlocks :: "(u8 list \<times> nat) list" where
  "exceptionBlocks =
    [([192, 0, 0, 9], 32), ([192, 0, 0, 10], 32),
     (0x20 # 0x01 # 0 # 1 # replicate 11 0 @ [1], 128), (0x20 # 0x01 # 0 # 1 # replicate 11 0 @ [2], 128),
     (0x20 # 0x01 # 0 # 3 # replicate 12 0, 32),
     (0x20 # 0x01 # 0 # 4 # 0x01 # 0x12 # replicate 10 0, 48),
     (0x20 # 0x01 # 0 # 0x20 # replicate 12 0, 28), (0x20 # 0x01 # 0 # 0x30 # replicate 12 0, 28)]"

lemma specialNets_eq: "specialNets = map net_of specialBlocks"
  by code_simp

lemma exceptionNets_eq: "exceptionNets = map net_of exceptionBlocks"
  by code_simp

section \<open>Networks as intervals\<close>

text \<open>A block is good when it stays in its own family after masking.\<close>

definition good_block :: "u8 list \<times> nat \<Rightarrow> bool" where
  "good_block bn \<longleftrightarrow>
     (length (fst bn) = 4 \<and> snd bn \<le> 32)
     \<or> (length (fst bn) = 16 \<and> snd bn \<le> 128 \<and> To4 (netIP (net_of bn)) = None)"

lemma blocks_good: "list_all good_block specialBlocks" "list_all good_block exceptionBlocks"
  by code_simp+

lemma and_bytes_idem [simp]: "length b = length m \<Longrightarrow> and_bytes (and_bytes b m) m = and_bytes b m"
  by (induction b m rule: list_induct2) (auto simp: and.assoc)

lemma To4_None_length: "To4 ip = None \<Longrightarrow> length ip \<noteq> 4"
  by (auto simp: To4_def split: if_splits)

lemma Contains_net_of:
  assumes g: "good_block (b, n)" and ip: "length ip = 4 \<or> To4 ip = None"
  shows "Contains (net_of (b, n)) ip \<longleftrightarrow>
    length ip = length b \<and> be_nat ip div 2 ^ (8 * length b - n) = be_nat b div 2 ^ (8 * length b - n)"
proof -
  let ?m = "CIDRMask n (length b)"
  have nn: "network_number (net_of (b, n)) = Some (and_bytes b ?m, ?m)"
    using g by (auto simp: good_block_def network_number_def net_of_def Let_def)
  have un: "(case To4 ip of Some v4 \<Rightarrow> v4 | None \<Rightarrow> ip) = ip"
    using ip by (auto split: option.splits)
  have n: "n \<le> 8 * length b" using g by (auto simp: good_block_def)
  show ?thesis
  proof (cases "length ip = length b")
    case True
    have "and_bytes ip ?m = and_bytes b ?m \<longleftrightarrow>
        be_nat ip div 2 ^ (8 * length b - n) = be_nat b div 2 ^ (8 * length b - n)"
      using and_bytes_CIDRMask_iff [OF True, of n] n True by simp
    moreover have "Contains (net_of (b, n)) ip \<longleftrightarrow> and_bytes b ?m = and_bytes ip ?m"
      by (simp add: Contains_def nn un True)
    ultimately show ?thesis using True by auto
  qed (simp add: Contains_def nn un)
qed

lemma list_ex_net_of:
  assumes "list_all good_block bs" and "length ip = 4 \<or> To4 ip = None"
  shows "list_ex (\<lambda>n. Contains n ip) (map net_of bs) \<longleftrightarrow>
    list_ex (\<lambda>(b, n). length ip = length b \<and>
      be_nat ip div 2 ^ (8 * length b - n) = be_nat b div 2 ^ (8 * length b - n)) bs"
  using assms(1)
proof (induction bs)
  case (Cons bn bs)
  then show ?case using Contains_net_of [OF _ assms(2)] by (cases bn) auto
qed simp

lemma div_eq_iff_interval: "0 < m \<Longrightarrow> (x::nat) div m = c \<longleftrightarrow> c * m \<le> x \<and> x < (c + 1) * m"
  by (metis Suc_eq_plus1 div_nat_eqI less_mult_imp_div_less div_times_less_eq_dividend
      dividend_less_div_times mult.commute mult_Suc_right)

definition in_block :: "nat \<Rightarrow> nat \<times> nat \<Rightarrow> nat \<Rightarrow> bool" where
  "in_block bits bn x \<longleftrightarrow> fst bn \<le> x \<and> x < fst bn + 2 ^ (bits - snd bn)"

definition dotted :: "nat \<Rightarrow> nat \<Rightarrow> nat \<Rightarrow> nat \<Rightarrow> nat" where
  "dotted a b c d = ((a * 256 + b) * 256 + c) * 256 + d"

text \<open>The IPv4 special-purpose registry, and the two addresses inside it that are routable.\<close>

definition reserved_v4 :: "(nat \<times> nat) list" where
  "reserved_v4 =
    [(dotted 0 0 0 0, 8), (dotted 10 0 0 0, 8), (dotted 100 64 0 0, 10), (dotted 127 0 0 0, 8),
     (dotted 169 254 0 0, 16), (dotted 172 16 0 0, 12), (dotted 192 0 0 0, 24),
     (dotted 192 0 2 0, 24), (dotted 192 168 0 0, 16), (dotted 198 18 0 0, 15),
     (dotted 198 51 100 0, 24), (dotted 203 0 113 0, 24), (dotted 224 0 0 0, 3)]"

definition routable_v4 :: "nat \<Rightarrow> bool" where
  "routable_v4 x \<longleftrightarrow>
     x = dotted 192 0 0 9 \<or> x = dotted 192 0 0 10 \<or> \<not> list_ex (\<lambda>bn. in_block 32 bn x) reserved_v4"

lemma dotted_inject:
  assumes "b < 256" "c < 256" "d < 256" "q < 256" "r < 256" "t < 256"
  shows "dotted a b c d = dotted p q r t \<longleftrightarrow> a = p \<and> b = q \<and> c = r \<and> d = t"
  using assms by (simp only: dotted_def radix_eq_iff conj_assoc)

lemma be_nat_v4: "be_nat [a, b, c, d] = dotted (unat a) (unat b) (unat c) (unat d)"
  by (simp add: dotted_def algebra_simps)

lemma high4: "x AND 0xf0 = (y AND 0xf0 :: u8) \<longleftrightarrow> unat x div 16 = unat y div 16"
proof -
  have "high_bits 4 = 0xf0" by (simp add: high_bits_def mask_eq_exp_minus_1)
  with high_bits_eq_iff [of 4 x y] show ?thesis by simp
qed

text \<open>Blocks of 8, 12, 16, 24 and 4 bits fix leading octets.\<close>

lemma in_block_octets:
  assumes "B < 256" "C < 256" "D < 256"
  shows "in_block 32 (dotted p 0 0 0, 8) (dotted A B C D) \<longleftrightarrow> A = p"
    and "q < 256 \<Longrightarrow> in_block 32 (dotted p q 0 0, 16) (dotted A B C D) \<longleftrightarrow> A = p \<and> B = q"
    and "q < 256 \<Longrightarrow> r < 256 \<Longrightarrow> in_block 32 (dotted p q r 0, 24) (dotted A B C D) \<longleftrightarrow> A = p \<and> B = q \<and> C = r"
    and "in_block 32 (dotted (16 * p) 0 0 0, 4) (dotted A B C D) \<longleftrightarrow> A div 16 = p"
    and "q < 16 \<Longrightarrow> in_block 32 (dotted p (16 * q) 0 0, 12) (dotted A B C D) \<longleftrightarrow> A = p \<and> B div 16 = q"
proof -
  show "in_block 32 (dotted p 0 0 0, 8) (dotted A B C D) \<longleftrightarrow> A = p"
    using assms by (auto simp: in_block_def dotted_def)
  show "in_block 32 (dotted (16 * p) 0 0 0, 4) (dotted A B C D) \<longleftrightarrow> A div 16 = p"
    using assms by (auto simp: in_block_def dotted_def)
  show "in_block 32 (dotted p q 0 0, 16) (dotted A B C D) \<longleftrightarrow> A = p \<and> B = q" if "q < 256"
  proof -
    have "in_block 32 (dotted p q 0 0, 16) (dotted A B C D) \<longleftrightarrow> A * 256 + B = p * 256 + q"
      using assms that by (auto simp: in_block_def dotted_def)
    then show ?thesis using assms that by (simp add: radix_eq_iff)
  qed
  show "in_block 32 (dotted p q r 0, 24) (dotted A B C D) \<longleftrightarrow> A = p \<and> B = q \<and> C = r"
    if "q < 256" "r < 256"
  proof -
    have "in_block 32 (dotted p q r 0, 24) (dotted A B C D)
        \<longleftrightarrow> (A * 256 + B) * 256 + C = (p * 256 + q) * 256 + r"
      using assms that by (auto simp: in_block_def dotted_def)
    then show ?thesis using assms that by (simp only: radix_eq_iff conj_assoc)
  qed
  assume q: "q < 16"
  define h where "h = B div 16"
  have "16 * h \<le> B" "B < 16 * h + 16" "h < 16" using assms by (auto simp: h_def)
  then have "in_block 32 (dotted p (16 * q) 0 0, 12) (dotted A B C D) \<longleftrightarrow> A * 16 + h = p * 16 + q"
    using assms by (auto simp: in_block_def dotted_def)
  then show "in_block 32 (dotted p (16 * q) 0 0, 12) (dotted A B C D) \<longleftrightarrow> A = p \<and> B div 16 = q"
    using q \<open>h < 16\<close> by (simp add: radix_eq_iff h_def)
qed

lemma v4_predicates:
  fixes a b c d :: u8
  defines "N \<equiv> be_nat [a, b, c, d]"
  shows "IsLoopback [a, b, c, d] \<longleftrightarrow> in_block 32 (dotted 127 0 0 0, 8) N"
    and "IsLinkLocalUnicast [a, b, c, d] \<longleftrightarrow> in_block 32 (dotted 169 254 0 0, 16) N"
    and "IsLinkLocalMulticast [a, b, c, d] \<longleftrightarrow> in_block 32 (dotted 224 0 0 0, 24) N"
    and "IsMulticast [a, b, c, d] \<longleftrightarrow> in_block 32 (dotted 224 0 0 0, 4) N"
    and "IsUnspecified [a, b, c, d] \<longleftrightarrow> N = 0"
    and "IsPrivate [a, b, c, d] \<longleftrightarrow> in_block 32 (dotted 10 0 0 0, 8) N
      \<or> in_block 32 (dotted 172 16 0 0, 12) N \<or> in_block 32 (dotted 192 168 0 0, 16) N"
    and "ip_Equal [a, b, c, d] IPv4bcast \<longleftrightarrow> N = dotted 255 255 255 255"
proof -
  obtain A B C D where n: "unat a = A" "unat b = B" "unat c = C" "unat d = D"
    and B: "A < 256" "B < 256" "C < 256" "D < 256"
    using unat_byte_bound by blast
  note O = in_block_octets [OF B(2-4), where A = A]
  have N: "N = dotted A B C D" by (simp only: N_def be_nat_v4 n)
  note D = N word_unat_eq_iff n
  show "IsLoopback [a, b, c, d] \<longleftrightarrow> in_block 32 (dotted 127 0 0 0, 8) N"
    by (simp add: IsLoopback_def D O)
  show "IsLinkLocalUnicast [a, b, c, d] \<longleftrightarrow> in_block 32 (dotted 169 254 0 0, 16) N"
    by (simp add: IsLinkLocalUnicast_def D O)
  show "IsLinkLocalMulticast [a, b, c, d] \<longleftrightarrow> in_block 32 (dotted 224 0 0 0, 24) N"
    by (simp add: IsLinkLocalMulticast_def D O)
  have "a AND 0xf0 = 0xe0 \<longleftrightarrow> A div 16 = 14" using high4 [of a "0xe0"] n by simp
  then show "IsMulticast [a, b, c, d] \<longleftrightarrow> in_block 32 (dotted 224 0 0 0, 4) N"
    using O(4) [of 14] by (simp add: IsMulticast_def N)
  show "IsUnspecified [a, b, c, d] \<longleftrightarrow> N = 0"
    by (auto simp: IsUnspecified_def ip_Equal_def special_ip_lists v4InV6Prefix_list D dotted_def)
  have "b AND 0xf0 = 16 \<longleftrightarrow> B div 16 = 1" using high4 [of b 16] n by simp
  then show "IsPrivate [a, b, c, d] \<longleftrightarrow> in_block 32 (dotted 10 0 0 0, 8) N
      \<or> in_block 32 (dotted 172 16 0 0, 12) N \<or> in_block 32 (dotted 192 168 0 0, 16) N"
    using O(5) [of 1 172] by (auto simp: IsPrivate_def D O)
  show "ip_Equal [a, b, c, d] IPv4bcast \<longleftrightarrow> N = dotted 255 255 255 255"
    using B dotted_inject [of B C D 255 255 255 A 255]
    by (simp add: ip_Equal_def special_ip_lists v4InV6Prefix_list D)
qed

section \<open>IPv4: the code against the registry\<close>

lemma list_ex_special_v4:
  assumes "length ip = 4"
  shows "list_ex (\<lambda>n. Contains n ip) specialNets \<longleftrightarrow>
      in_block 32 (dotted 0 0 0 0, 8) (be_nat ip) \<or> in_block 32 (dotted 100 64 0 0, 10) (be_nat ip)
      \<or> in_block 32 (dotted 192 0 0 0, 24) (be_nat ip) \<or> in_block 32 (dotted 192 0 2 0, 24) (be_nat ip)
      \<or> in_block 32 (dotted 198 18 0 0, 15) (be_nat ip) \<or> in_block 32 (dotted 198 51 100 0, 24) (be_nat ip)
      \<or> in_block 32 (dotted 203 0 113 0, 24) (be_nat ip) \<or> in_block 32 (dotted 240 0 0 0, 4) (be_nat ip)
      \<or> in_block 32 (dotted 255 255 255 255, 32) (be_nat ip)"
  unfolding specialNets_eq list_ex_net_of [OF blocks_good(1) disjI1 [OF assms]]
  by (simp add: assms specialBlocks_def in_block_def dotted_def div_eq_iff_interval)

lemma list_ex_exception_v4:
  assumes "length ip = 4"
  shows "list_ex (\<lambda>n. Contains n ip) exceptionNets \<longleftrightarrow>
      be_nat ip = dotted 192 0 0 9 \<or> be_nat ip = dotted 192 0 0 10"
  unfolding exceptionNets_eq list_ex_net_of [OF blocks_good(2) disjI1 [OF assms]]
  by (simp add: assms exceptionBlocks_def dotted_def)

lemma length_4E:
  assumes "length ip = 4"
  obtains a b c d where "ip = [a, b, c, d]"
  using assms by (auto simp: numeral_eq_Suc length_Suc_conv)

lemma isLAN_v4:
  assumes "length ip = 4"
  shows "isLAN ip \<longleftrightarrow> \<not> routable_v4 (be_nat ip)"
proof -
  obtain a b c d where ip: "ip = [a, b, c, d]" using length_4E [OF assms] .
  define N where "N = be_nat ip"
  note P = v4_predicates [of a b c d, folded ip, folded N_def]
  have N: "N < 2 ^ 32" using be_nat_bound [of ip] assms by (simp add: N_def)
  have G: "IsGlobalUnicast ip \<longleftrightarrow> N \<noteq> dotted 255 255 255 255 \<and> N \<noteq> 0
      \<and> \<not> in_block 32 (dotted 127 0 0 0, 8) N \<and> \<not> in_block 32 (dotted 224 0 0 0, 4) N
      \<and> \<not> in_block 32 (dotted 169 254 0 0, 16) N"
    by (simp add: IsGlobalUnicast_def P assms)
  note S = list_ex_special_v4 [OF assms, folded N_def] list_ex_exception_v4 [OF assms, folded N_def]
  show ?thesis
    unfolding isLAN_def To4_len4 [OF assms] option.case Let_def P G S N_def [symmetric]
    using N unfolding routable_v4_def reserved_v4_def in_block_def dotted_def by auto
qed

section \<open>IPv6: the code against the registry\<close>

text \<open>The number of \<open>a:b:c::\<close>.\<close>

definition hextets :: "nat \<Rightarrow> nat \<Rightarrow> nat \<Rightarrow> nat" where
  "hextets a b c = ((a * 65536 + b) * 65536 + c) * 2 ^ 80"

text \<open>
  The routable IPv6 addresses: global unicast \<open>2000::/3\<close> less the special-purpose blocks in it, and
  the anycast and overlay blocks that are routable again. Site-local addresses, \<open>fec0::/10\<close>, are a
  block of their own: deprecated, and not routable.
\<close>

definition routable_v6 :: "nat \<Rightarrow> bool" where
  "routable_v6 x \<longleftrightarrow>
     (in_block 128 (hextets 0x2000 0 0, 3) x
        \<and> \<not> in_block 128 (hextets 0x2001 0 0, 23) x \<and> \<not> in_block 128 (hextets 0x2001 0xdb8 0, 32) x
        \<and> \<not> in_block 128 (hextets 0x2002 0 0, 16) x \<and> \<not> in_block 128 (hextets 0x3fff 0 0, 20) x)
     \<or> x = hextets 0x2001 1 0 + 1 \<or> x = hextets 0x2001 1 0 + 2
     \<or> in_block 128 (hextets 0x2001 3 0, 32) x \<or> in_block 128 (hextets 0x2001 4 0x112, 48) x
     \<or> in_block 128 (hextets 0x2001 0x20 0, 28) x \<or> in_block 128 (hextets 0x2001 0x30 0, 28) x"

definition site_local_v6 :: "nat \<Rightarrow> bool" where
  "site_local_v6 x \<longleftrightarrow> in_block 128 (hextets 0xfec0 0 0, 10) x"

lemma length_16E:
  assumes "length ip = 16"
  obtains a b r where "ip = a # b # r" "length r = 14"
  using assms by (auto simp: numeral_eq_Suc length_Suc_conv)

lemma high_masks:
  "x AND 0xfe = (y AND 0xfe :: u8) \<longleftrightarrow> unat x div 2 = unat y div 2"
  "x AND 0xc0 = (y AND 0xc0 :: u8) \<longleftrightarrow> unat x div 64 = unat y div 64"
proof -
  have "high_bits 7 = 0xfe" "high_bits 2 = 0xc0" by (simp_all add: high_bits_def mask_eq_exp_minus_1)
  with high_bits_eq_iff [of 7 x y] high_bits_eq_iff [of 2 x y]
  show "x AND 0xfe = (y AND 0xfe :: u8) \<longleftrightarrow> unat x div 2 = unat y div 2"
    "x AND 0xc0 = (y AND 0xc0 :: u8) \<longleftrightarrow> unat x div 64 = unat y div 64" by simp_all
qed

lemma v6_predicates:
  assumes "length ip = 16" and v6: "To4 ip = None"
  defines "N \<equiv> be_nat ip"
  shows "IsLoopback ip \<longleftrightarrow> N = 1"
    and "IsUnspecified ip \<longleftrightarrow> N = 0"
    and "IsLinkLocalUnicast ip \<longleftrightarrow> in_block 128 (hextets 0xfe80 0 0, 10) N"
    and "IsMulticast ip \<longleftrightarrow> in_block 128 (hextets 0xff00 0 0, 8) N"
    and "IsLinkLocalMulticast ip \<Longrightarrow> in_block 128 (hextets 0xff00 0 0, 8) N"
    and "IsPrivate ip \<longleftrightarrow> in_block 128 (hextets 0xfc00 0 0, 7) N"
    and "\<not> ip_Equal ip IPv4bcast"
proof -
  obtain a b r where ip: "ip = a # b # r" and r: "length r = 14" using length_16E [OF assms(1)] .
  obtain A B R where n: "unat a = A" "unat b = B" "be_nat r = R" by blast
  have B: "A < 256" "B < 256" "R < 2 ^ 112"
    using be_nat_bound [of r] unat_byte_bound [of a] unat_byte_bound [of b] r n by simp_all
  have N: "N = A * 2 ^ 120 + B * 2 ^ 112 + R" by (simp add: N_def ip r n)
  note I = be_nat_inject [of ip, symmetric]
  show "IsLoopback ip \<longleftrightarrow> N = 1"
    using I [of IPv6loopback] assms(1) v6
    by (simp add: IsLoopback_def ip_Equal_def special_ip_lists N_def)
  have "ip \<noteq> IPv4zero" "ip \<noteq> IPv4bcast"
    using v6 by (auto simp: To4_def special_ip_lists v4InV6Prefix_list)
  then show "IsUnspecified ip \<longleftrightarrow> N = 0" "\<not> ip_Equal ip IPv4bcast"
    using I [of IPv6unspecified] assms(1)
    by (simp_all add: IsUnspecified_def ip_Equal_def special_ip_lists N_def)
  have a: "a = c \<longleftrightarrow> A = unat c" for c :: u8 using n by (simp add: word_unat_eq_iff)
  have m8: "A = 0xff \<longleftrightarrow> in_block 128 (hextets 0xff00 0 0, 8) N"
    using B by (auto simp: N in_block_def hextets_def)
  show "IsMulticast ip \<longleftrightarrow> in_block 128 (hextets 0xff00 0 0, 8) N"
    using m8 assms(1) v6 a [of 255] by (simp add: IsMulticast_def ip)
  show "IsLinkLocalMulticast ip \<Longrightarrow> in_block 128 (hextets 0xff00 0 0, 8) N"
    using m8 v6 a [of 255] by (simp add: IsLinkLocalMulticast_def ip)
  have "b AND 0xc0 = 0x80 \<longleftrightarrow> B div 64 = 2" using high_masks(2) [of b "0x80"] n by simp
  moreover have "A = 0xfe \<and> B div 64 = 2 \<longleftrightarrow> in_block 128 (hextets 0xfe80 0 0, 10) N"
  proof -
    define h where "h = B div 64"
    have h: "64 * h \<le> B" "B < 64 * h + 64" "h < 4" using B by (auto simp: h_def)
    have "in_block 128 (hextets 0xfe80 0 0, 10) N \<longleftrightarrow> A * 4 + h = 0xfe * 4 + 2"
      using B h by (auto simp: N in_block_def hextets_def)
    then show ?thesis using h(3) radix_eq_iff [of h 4 2 A 254] by (simp add: h_def)
  qed
  ultimately show "IsLinkLocalUnicast ip \<longleftrightarrow> in_block 128 (hextets 0xfe80 0 0, 10) N"
    using assms(1) v6 a [of 254] by (simp add: IsLinkLocalUnicast_def ip)
  have "a AND 0xfe = 0xfc \<longleftrightarrow> A div 2 = 126" using high_masks(1) [of a "0xfc"] n by simp
  moreover have "A div 2 = 126 \<longleftrightarrow> in_block 128 (hextets 0xfc00 0 0, 7) N"
    using B by (auto simp: N in_block_def hextets_def div_eq_iff_interval)
  ultimately show "IsPrivate ip \<longleftrightarrow> in_block 128 (hextets 0xfc00 0 0, 7) N"
    using assms(1) v6 by (simp add: IsPrivate_def ip)
qed

lemma list_ex_special_v6:
  assumes "length ip = 16" "To4 ip = None"
  shows "list_ex (\<lambda>n. Contains n ip) specialNets \<longleftrightarrow>
    list_ex (\<lambda>bn. in_block 128 bn (be_nat ip))
     [(hextets 0x2001 0xdb8 0, 32), (hextets 0x2001 0 0, 23), (hextets 0x2002 0 0, 16),
      (hextets 0x3fff 0 0, 20), (hextets 0x64 0xff9b 1, 48), (hextets 0 0 0, 8),
      (hextets 0x100 0 0, 8), (hextets 0x200 0 0, 7), (hextets 0x400 0 0, 6), (hextets 0x800 0 0, 5),
      (hextets 0x1000 0 0, 4), (hextets 0x4000 0 0, 3), (hextets 0x6000 0 0, 3),
      (hextets 0x8000 0 0, 3), (hextets 0xa000 0 0, 3), (hextets 0xc000 0 0, 3),
      (hextets 0xe000 0 0, 4), (hextets 0xf000 0 0, 5), (hextets 0xf800 0 0, 6), (hextets 0xfe00 0 0, 9)]"
  unfolding specialNets_eq list_ex_net_of [OF blocks_good(1) disjI2 [OF assms(2)]]
  by (simp add: assms specialBlocks_def in_block_def hextets_def div_eq_iff_interval)

lemma list_ex_exception_v6:
  assumes "length ip = 16" "To4 ip = None"
  shows "list_ex (\<lambda>n. Contains n ip) exceptionNets \<longleftrightarrow>
    be_nat ip = hextets 0x2001 1 0 + 1 \<or> be_nat ip = hextets 0x2001 1 0 + 2
    \<or> in_block 128 (hextets 0x2001 3 0, 32) (be_nat ip) \<or> in_block 128 (hextets 0x2001 4 0x112, 48) (be_nat ip)
    \<or> in_block 128 (hextets 0x2001 0x20 0, 28) (be_nat ip) \<or> in_block 128 (hextets 0x2001 0x30 0, 28) (be_nat ip)"
  unfolding exceptionNets_eq list_ex_net_of [OF blocks_good(2) disjI2 [OF assms(2)]]
  by (simp add: assms exceptionBlocks_def in_block_def hextets_def div_eq_iff_interval be_nat_append)
    (intro disj_cong refl; auto)

text \<open>The part of the address space outside \<open>2000::/3\<close> and \<open>fec0::/10\<close>, as the tables cut it.\<close>

lemma cover_v6:
  assumes "(x :: nat) < 2 ^ 128"
  shows "list_ex (\<lambda>bn. in_block 128 bn x)
     [(hextets 0 0 0, 8), (hextets 0x100 0 0, 8), (hextets 0x200 0 0, 7), (hextets 0x400 0 0, 6),
      (hextets 0x800 0 0, 5), (hextets 0x1000 0 0, 4)] \<longleftrightarrow> x < hextets 0x2000 0 0"
   and "list_ex (\<lambda>bn. in_block 128 bn x)
     [(hextets 0x4000 0 0, 3), (hextets 0x6000 0 0, 3), (hextets 0x8000 0 0, 3), (hextets 0xa000 0 0, 3),
      (hextets 0xc000 0 0, 3), (hextets 0xe000 0 0, 4), (hextets 0xf000 0 0, 5), (hextets 0xf800 0 0, 6)]
      \<longleftrightarrow> hextets 0x4000 0 0 \<le> x \<and> x < hextets 0xfc00 0 0"
  using assms by (auto simp: in_block_def hextets_def)

lemma isLAN_v6:
  assumes "length ip = 16" "To4 ip = None"
  shows "isLAN ip \<longleftrightarrow> \<not> (routable_v6 (be_nat ip) \<or> site_local_v6 (be_nat ip))"
proof -
  define N where "N = be_nat ip"
  note P = v6_predicates [OF assms, folded N_def]
  have N: "N < 2 ^ 128" using be_nat_bound [of ip] assms by (simp add: N_def)
  note S = list_ex_special_v6 [OF assms, folded N_def] list_ex_exception_v6 [OF assms, folded N_def]
  define M where "M \<longleftrightarrow> in_block 128 (hextets 0xff00 0 0, 8) N"
  define L where "L \<longleftrightarrow> in_block 128 (hextets 0xfe80 0 0, 10) N"
  define U where "U \<longleftrightarrow> in_block 128 (hextets 0xfc00 0 0, 7) N"
  define E where "E \<longleftrightarrow> list_ex (\<lambda>n. Contains n ip) exceptionNets"
  define T where "T \<longleftrightarrow> list_ex (\<lambda>n. Contains n ip) specialNets"
  have G: "IsGlobalUnicast ip \<longleftrightarrow> N \<noteq> 0 \<and> N \<noteq> 1 \<and> \<not> M \<and> \<not> L"
    using assms(1) by (auto simp: IsGlobalUnicast_def P M_def L_def)
  have "isLAN ip \<longleftrightarrow> N = 0 \<or> N = 1 \<or> L \<or> M \<or> U \<or> \<not> E \<and> T"
    using P(5) by (auto simp: isLAN_def assms P G M_def L_def U_def E_def T_def)
  moreover have "T \<longleftrightarrow> N < hextets 0x2000 0 0 \<or> (hextets 0x4000 0 0 \<le> N \<and> N < hextets 0xfc00 0 0)
      \<or> in_block 128 (hextets 0x2001 0xdb8 0, 32) N \<or> in_block 128 (hextets 0x2001 0 0, 23) N
      \<or> in_block 128 (hextets 0x2002 0 0, 16) N \<or> in_block 128 (hextets 0x3fff 0 0, 20) N
      \<or> in_block 128 (hextets 0x64 0xff9b 1, 48) N \<or> in_block 128 (hextets 0xfe00 0 0, 9) N"
    unfolding T_def S cover_v6 [OF N, symmetric] by auto
  moreover have E: "E \<Longrightarrow> hextets 0x2000 0 0 \<le> N \<and> N < hextets 0x4000 0 0"
    unfolding E_def S in_block_def hextets_def by (elim disjE) simp_all
  have Z: "N \<noteq> 0 \<and> N \<noteq> 1" if "hextets 0x2000 0 0 \<le> N"
    using that by (auto simp: hextets_def)
  have three: "in_block 128 (hextets 0x2000 0 0, 3) N \<longleftrightarrow> hextets 0x2000 0 0 \<le> N \<and> N < hextets 0x4000 0 0"
    by (simp add: in_block_def hextets_def)
  have low: "\<not> in_block 128 (hextets 0x64 0xff9b 1, 48) N" if "hextets 0x2000 0 0 \<le> N"
    using that by (simp add: in_block_def hextets_def)
  have high: "\<not> L \<and> \<not> M \<and> \<not> U \<and> \<not> in_block 128 (hextets 0xfe00 0 0, 9) N
      \<and> \<not> in_block 128 (hextets 0xfec0 0 0, 10) N" if "N < hextets 0xfc00 0 0"
    using that by (simp add: L_def M_def U_def in_block_def hextets_def)
  have mid: "\<not> in_block 128 (hextets 0x2001 0xdb8 0, 32) N \<and> \<not> in_block 128 (hextets 0x2001 0 0, 23) N
      \<and> \<not> in_block 128 (hextets 0x2002 0 0, 16) N \<and> \<not> in_block 128 (hextets 0x3fff 0 0, 20) N"
    if "hextets 0x4000 0 0 \<le> N"
    using that by (simp add: in_block_def hextets_def)
  have top: "L \<or> M \<or> U \<or> in_block 128 (hextets 0xfe00 0 0, 9) N \<longleftrightarrow> \<not> in_block 128 (hextets 0xfec0 0 0, 10) N"
    if "hextets 0xfc00 0 0 \<le> N"
    using that N unfolding L_def M_def U_def in_block_def hextets_def by simp linarith
  have step: "hextets 0x2000 0 0 < hextets 0x4000 0 0" "hextets 0x4000 0 0 < hextets 0xfc00 0 0"
    by (simp_all add: hextets_def)
  have route: "routable_v6 N \<or> site_local_v6 N \<longleftrightarrow> (hextets 0x2000 0 0 \<le> N \<and> N < hextets 0x4000 0 0
      \<and> \<not> in_block 128 (hextets 0x2001 0xdb8 0, 32) N \<and> \<not> in_block 128 (hextets 0x2001 0 0, 23) N
      \<and> \<not> in_block 128 (hextets 0x2002 0 0, 16) N \<and> \<not> in_block 128 (hextets 0x3fff 0 0, 20) N)
      \<or> E \<or> in_block 128 (hextets 0xfec0 0 0, 10) N"
    unfolding routable_v6_def site_local_v6_def three E_def S by blast
  ultimately have lan: "isLAN ip \<longleftrightarrow> N = 0 \<or> N = 1 \<or> L \<or> M \<or> U \<or> \<not> E \<and> T" and "T \<longleftrightarrow> N < hextets 0x2000 0 0 \<or> (hextets 0x4000 0 0 \<le> N \<and> N < hextets 0xfc00 0 0)
      \<or> in_block 128 (hextets 0x2001 0xdb8 0, 32) N \<or> in_block 128 (hextets 0x2001 0 0, 23) N
      \<or> in_block 128 (hextets 0x2002 0 0, 16) N \<or> in_block 128 (hextets 0x3fff 0 0, 20) N
      \<or> in_block 128 (hextets 0x64 0xff9b 1, 48) N \<or> in_block 128 (hextets 0xfe00 0 0, 9) N"
    by blast+
  note T = this(2)
  consider "N < hextets 0x2000 0 0" | "hextets 0x2000 0 0 \<le> N" "N < hextets 0x4000 0 0"
    | "hextets 0x4000 0 0 \<le> N" "N < hextets 0xfc00 0 0" | "hextets 0xfc00 0 0 \<le> N"
    by linarith
  then have "N = 0 \<or> N = 1 \<or> L \<or> M \<or> U \<or> \<not> E \<and> T \<longleftrightarrow> \<not> (routable_v6 N \<or> site_local_v6 N)"
  proof cases
    case 1
    then show ?thesis using E T high step unfolding route by auto
  next
    case 2
    then show ?thesis using T Z low high step unfolding route by auto
  next
    case 3
    then show ?thesis using E T high step unfolding route by auto
  next
    case 4
    then have "2 ^ 125 < N" by (simp add: hextets_def)
    with 4 show ?thesis using E T Z top low mid step unfolding route by auto
  qed
  with lan show ?thesis by (simp add: N_def)
qed

section \<open>Classification\<close>

lemma isLAN_To4: "To4 ip = Some v4 \<Longrightarrow> isLAN ip = isLAN v4"
  by (simp add: isLAN_def To4_length)

text \<open>What an address string says, an IPv4-mapped IPv6 address counting as IPv4.\<close>

definition routable :: "string \<Rightarrow> bool" where
  "routable s =
     (case ParseIP s of
        None \<Rightarrow> False
      | Some ip \<Rightarrow> (case To4 ip of Some v4 \<Rightarrow> routable_v4 (be_nat v4) | None \<Rightarrow> routable_v6 (be_nat ip)))"

definition site_local :: "string \<Rightarrow> bool" where
  "site_local s =
     (case ParseIP s of
        None \<Rightarrow> False
      | Some ip \<Rightarrow> To4 ip = None \<and> site_local_v6 (be_nat ip))"

lemma site_local_not_routable:
  assumes "site_local_v6 x"
  shows "\<not> routable_v6 x"
proof -
  have "hextets 0x4000 0 0 \<le> x" using assms by (simp add: site_local_v6_def in_block_def hextets_def)
  moreover have "y < hextets 0x4000 0 0" if "routable_v6 y" for y
    using that unfolding routable_v6_def in_block_def hextets_def by (elim disjE conjE) simp_all
  ultimately show ?thesis by (meson not_less)
qed

lemma classify_split: "classify s = (if routable s \<or> site_local s then Global else Lan)"
proof (cases "ParseIP s")
  case (Some ip)
  note ip = Some
  show ?thesis
  proof (cases "To4 ip")
    case None
    then show ?thesis
      by (simp add: classify_def ip routable_def site_local_def isLAN_v6 [OF ParseIP_length [OF ip]])
  next
    case (Some v4)
    then show ?thesis
      by (simp add: classify_def ip routable_def site_local_def isLAN_To4 [OF Some] isLAN_v4 [OF To4_length [OF Some]])
  qed
qed (simp add: classify_def routable_def site_local_def)

text \<open>
  C24: On every string, \<^verbatim>\<open>classify\<close> answers \<^verbatim>\<open>global\<close> exactly when the string is a globally routable
  address, by the intervals of the address registries, or one of the deprecated site-local block
  \<open>fec0::/10\<close>. The second case is none of the first: this block is the one that the tables of
  the code leave out, against its comments.
\<close>

theorem classify_routable:
  "(classify s = Global \<longleftrightarrow> routable s \<or> site_local s) \<and> (classify s = Lan \<longleftrightarrow> \<not> routable s \<and> \<not> site_local s)
   \<and> \<not> (routable s \<and> site_local s)"
  using site_local_not_routable
  by (auto simp: classify_split routable_def site_local_def split: option.splits)

theorem site_local_is_global: "classify ''fec0::1'' = Global"
  by code_simp

end
