(* ===== verification/Netlink.thy ===== *)
theory Netlink
  imports GoNet
begin

text \<open>
  Model of \<^verbatim>\<open>web/netmon/netlink.go\<close>: the sock_diag request, and the decoder of the
  multipart replies. Every slice expression keeps its bounds check, so that the absence of panics
  on arbitrary kernel data is a theorem. The callback \<^verbatim>\<open>fn\<close> is a state transformer; the
  datagrams a \<^verbatim>\<open>Recvfrom\<close> loop sees are a list. The encoder at the end writes replies the
  way the kernel does and serves the round trip.
\<close>

section \<open>The request\<close>

definition nlmsgHdrLen :: nat where "nlmsgHdrLen = 16"
definition inetDiagReqV2Len :: nat where "inetDiagReqV2Len = 56"
definition inetDiagMsgLen :: nat where "inetDiagMsgLen = 72"
definition tcpInfoMinLen :: nat where "tcpInfoMinLen = 136"
definition tcpiBytesAckedOff :: nat where "tcpiBytesAckedOff = 120"
definition tcpiBytesRecvOff :: nat where "tcpiBytesRecvOff = 128"
definition recvBufLen :: nat where "recvBufLen = 65536"
definition sockDiagByFamily :: u16 where "sockDiagByFamily = 20"
definition nlmFRequest :: u16 where "nlmFRequest = 1"
definition nlmFDump :: u16 where "nlmFDump = 0x300"
definition nlmsgError :: u16 where "nlmsgError = 2"
definition nlmsgDone :: u16 where "nlmsgDone = 3"
definition inetDiagInfoType :: u16 where "inetDiagInfoType = 2"
definition inetDiagInfoBit :: u8 where "inetDiagInfoBit = 2"
definition afInet :: u8 where "afInet = 2"
definition afInet6 :: u8 where "afInet6 = 10"
definition ipprotoTCP :: u8 where "ipprotoTCP = 6"
definition ipprotoUDP :: u8 where "ipprotoUDP = 17"
definition tcpEstablished :: u8 where "tcpEstablished = 1"
definition tcpListen :: u8 where "tcpListen = 10"
definition statesAll :: u32 where "statesAll = 0xffffffff"

lemmas netlink_consts = nlmsgHdrLen_def inetDiagReqV2Len_def inetDiagMsgLen_def tcpInfoMinLen_def
  tcpiBytesAckedOff_def tcpiBytesRecvOff_def recvBufLen_def sockDiagByFamily_def nlmFRequest_def
  nlmFDump_def nlmsgError_def nlmsgDone_def inetDiagInfoType_def inetDiagInfoBit_def afInet_def
  afInet6_def ipprotoTCP_def ipprotoUDP_def tcpEstablished_def tcpListen_def statesAll_def

definition stateMask :: "u8 \<Rightarrow> u32" where
  "stateMask state = push_bit (unat state) 1"

definition align4 :: "int \<Rightarrow> int" where
  "align4 n = (n + 3) AND NOT 3"

text \<open>Stores into a fixed buffer.\<close>

definition put_at :: "nat \<Rightarrow> u8 list \<Rightarrow> u8 list \<Rightarrow> u8 list" where
  "put_at off bs buf = take off buf @ bs @ drop (off + length bs) buf"

definition buildRequest :: "u8 \<Rightarrow> u8 \<Rightarrow> u32 \<Rightarrow> u8 \<Rightarrow> u8 list" where
  "buildRequest family protocol states ext =
     (let total = nlmsgHdrLen + inetDiagReqV2Len;
          buf = replicate total 0;
          buf = put_at 0 (put_le32 (word_of_nat total)) buf;
          buf = put_at 4 (put_le16 sockDiagByFamily) buf;
          buf = put_at 6 (put_le16 (nlmFRequest OR nlmFDump)) buf;
          buf = put_at 8 (put_le32 1) buf;
          buf = put_at 12 (put_le32 0) buf;
          buf = buf[nlmsgHdrLen := family];
          buf = buf[nlmsgHdrLen + 1 := protocol];
          buf = buf[nlmsgHdrLen + 2 := ext];
          buf = buf[nlmsgHdrLen + 3 := 0]
      in put_at (nlmsgHdrLen + 4) (put_le32 states) buf)"

section \<open>Decimal errno strings\<close>

text \<open>
  \<^verbatim>\<open>itoa\<close> on an \<^verbatim>\<open>int\<close> of 64 bits, with its 20-byte buffer filled from the end;
  negating the least integer wraps. A store below index 0 is the panic.
\<close>

fun itoa_loop :: "nat \<Rightarrow> nat \<Rightarrow> string \<Rightarrow> (nat \<times> string) option" where
  "itoa_loop n i buf =
     (if n = 0 then Some (i, buf)
      else if i = 0 then None
      else itoa_loop (n div 10) (i - 1) (buf[i - 1 := digit_char (n mod 10)]))"

declare itoa_loop.simps [simp del]

definition neg64 :: "int \<Rightarrow> int" where
  "neg64 n = (if n = - (2 ^ 63) then n else - n)"

definition itoa :: "int \<Rightarrow> string option" where
  "itoa n =
     (if n = 0 then Some ''0''
      else let neg = n < 0; n' = (if neg then neg64 n else n) in
        case itoa_loop (nat n') 20 (replicate 20 (CHR 0x00)) of
          None \<Rightarrow> None
        | Some (i, buf) \<Rightarrow>
            if neg then (if i = 0 then None else slice (buf[i - 1 := CHR ''-'']) (i - 1) 20)
            else slice buf i 20)"

section \<open>Replies\<close>

record diagSocket =
  sk_family :: u8
  sk_state :: u8
  sk_srcIP :: IP
  sk_srcPort :: int
  sk_dstIP :: IP
  sk_dstPort :: int
  sk_inode :: u32
  sk_rxOK :: bool
  sk_rx :: u64
  sk_txOK :: bool
  sk_tx :: u64

definition zero_socket :: diagSocket where
  "zero_socket = \<lparr>sk_family = 0, sk_state = 0, sk_srcIP = [], sk_srcPort = 0, sk_dstIP = [], sk_dstPort = 0,
     sk_inode = 0, sk_rxOK = False, sk_rx = 0, sk_txOK = False, sk_tx = 0\<rparr>"

definition decodeIP :: "u8 list \<Rightarrow> u8 \<Rightarrow> IP option" where
  "decodeIP b family =
     (if family = afInet then slice b 0 4
      else do {
        ip \<leftarrow> slice b 0 16;
        Some (case To4 ip of Some v4 \<Rightarrow> v4 | None \<Rightarrow> ip)
      })"

function parseRtattrs :: "u8 list \<Rightarrow> nat \<Rightarrow> diagSocket \<Rightarrow> diagSocket option" where
  "parseRtattrs attrs off s =
     (if off + 4 \<le> length attrs then do {
        rtaLen \<leftarrow> map_option unat (le16_at attrs off);
        rtaType \<leftarrow> le16_at attrs (off + 2);
        if rtaLen < 4 \<or> length attrs < off + rtaLen then Some s
        else do {
          body \<leftarrow> slice attrs (off + 4) (off + rtaLen);
          s' \<leftarrow> (if rtaType = inetDiagInfoType \<and> tcpInfoMinLen \<le> length body then do {
                   tx \<leftarrow> le64_at body tcpiBytesAckedOff;
                   rx \<leftarrow> le64_at body tcpiBytesRecvOff;
                   Some (s\<lparr>sk_tx := tx, sk_txOK := True, sk_rx := rx, sk_rxOK := True\<rparr>)
                 } else Some s);
          parseRtattrs attrs (off + nat (align4 (int rtaLen))) s'
        }
      } else Some s)"
  by pat_completeness auto

definition parseDiagMsg :: "u8 list \<Rightarrow> u8 \<Rightarrow> (diagSocket option) option" where
  "parseDiagMsg payload reqFamily =
     (if length payload < inetDiagMsgLen then Some None
      else do {
        family \<leftarrow> index payload 0;
        state \<leftarrow> index payload 1;
        sport \<leftarrow> be16_at payload 4;
        dport \<leftarrow> be16_at payload 6;
        src \<leftarrow> Option.bind (slice payload 8 24) (\<lambda>b. decodeIP b family);
        dst \<leftarrow> Option.bind (slice payload 24 40) (\<lambda>b. decodeIP b family);
        inode \<leftarrow> le32_at payload 68;
        attrs \<leftarrow> slice payload inetDiagMsgLen (length payload);
        s \<leftarrow> parseRtattrs attrs 0
          (zero_socket\<lparr>sk_family := family, sk_state := state, sk_srcPort := uint sport,
             sk_dstPort := uint dport, sk_srcIP := src, sk_dstIP := dst, sk_inode := inode\<rparr>);
        Some (Some s)
      })"

text \<open>
  One pass of the loop of \<^verbatim>\<open>parseDatagram\<close> at offset \<open>off\<close>: \<open>Inl\<close> leaves the loop with
  done and the error, \<open>Inr\<close> goes on at the next offset, with the socket for the callback if
  the message held one.
\<close>

definition datagram_pass ::
  "u8 list \<Rightarrow> u8 \<Rightarrow> nat \<Rightarrow> ((bool \<times> string option) + (nat \<times> diagSocket option)) option" where
  "datagram_pass data family off =
     (if \<not> off + nlmsgHdrLen \<le> length data then Some (Inl (False, None))
      else do {
        msgLen \<leftarrow> map_option unat (le32_at data off);
        msgType \<leftarrow> le16_at data (off + 4);
        if msgLen < nlmsgHdrLen \<or> length data < off + msgLen then Some (Inl (False, None))
        else do {
          payload \<leftarrow> slice data (off + nlmsgHdrLen) (off + msgLen);
          if msgType = nlmsgDone then Some (Inl (True, None))
          else if msgType = nlmsgError then
            (if 4 \<le> length payload then do {
               code \<leftarrow> le32_at payload 0;
               if code \<noteq> 0 then do {
                 e \<leftarrow> itoa (sint (- code));
                 Some (Inl (True, Some (''netlink error: errno '' @ e)))
               } else Some (Inl (True, None))
             } else Some (Inl (True, None)))
          else do {
            r \<leftarrow> parseDiagMsg payload family;
            Some (Inr (off + nat (align4 (int msgLen)), r))
          }
        }
      })"

text \<open>The outcome of one datagram: the callback's state, done or not, the error.\<close>

function datagram_loop ::
  "u8 list \<Rightarrow> u8 \<Rightarrow> ('st \<Rightarrow> diagSocket \<Rightarrow> 'st) \<Rightarrow> nat \<Rightarrow> 'st \<Rightarrow> ('st \<times> bool \<times> string option) option" where
  "datagram_loop data family fn off st =
     (case datagram_pass data family off of
        None \<Rightarrow> None
      | Some (Inl (d, e)) \<Rightarrow> Some (st, d, e)
      | Some (Inr (off', None)) \<Rightarrow> datagram_loop data family fn off' st
      | Some (Inr (off', Some s)) \<Rightarrow> datagram_loop data family fn off' (fn st s))"
  by pat_completeness auto

lemma align4_eq: "align4 n = 4 * ((n + 3) div 4)"
proof -
  have "align4 n = push_bit 2 (drop_bit 2 (n + 3))"
  proof -
    have three: "(3 :: int) = mask 2" by (simp add: mask_eq_exp_minus_1)
    have "m - 2 + 2 = m" if "2 \<le> m" for m :: nat using that by simp
    then show ?thesis
      unfolding align4_def by (intro bit_eqI) (auto simp: bit_simps three)
  qed
  then show ?thesis by (simp add: push_bit_eq_mult drop_bit_eq_div)
qed

lemma align4_ge: "n \<le> align4 n" and align4_less: "align4 n < n + 4"
  by (simp_all add: align4_eq)

lemma align4_mult [simp]: "align4 (4 * n) = 4 * n"
  by (simp add: align4_eq)

lemma align4_nat: "n \<le> nat (align4 (int n))"
  using align4_ge [of "int n"] by linarith

termination parseRtattrs
proof (relation "measure (\<lambda>(attrs, off, s). length attrs - off)", goal_cases)
  case (2 attrs off s l t b s')
  then show ?case using align4_nat [of l] by auto
qed simp

lemma datagram_pass_Inr:
  "datagram_pass data family off = Some (Inr (off', r)) \<Longrightarrow> off < off' \<and> off + 16 \<le> length data"
proof -
  assume "datagram_pass data family off = Some (Inr (off', r))"
  then obtain z where "off + 16 \<le> length data" "\<not> unat (z :: u32) < 16" "off' = off + nat (align4 (uint z))"
    by (auto simp: datagram_pass_def nlmsgHdrLen_def bind_eq_Some_conv split: if_splits)
  then show ?thesis using align4_nat [of "unat z"] by simp
qed

termination datagram_loop
  by (relation "measure (\<lambda>(data, fam, fn, off, st). length data - off)")
    (auto dest!: datagram_pass_Inr)

declare parseRtattrs.simps [simp del] datagram_loop.simps [simp del]

definition parseDatagram ::
  "u8 list \<Rightarrow> u8 \<Rightarrow> ('st \<Rightarrow> diagSocket \<Rightarrow> 'st) \<Rightarrow> 'st \<Rightarrow> ('st \<times> bool \<times> string option) option" where
  "parseDatagram data family fn st = datagram_loop data family fn 0 st"

section \<open>No panics, whatever the kernel sends\<close>

lemma buildRequest_layout:
  "buildRequest family protocol states ext =
     put_le32 72 @ put_le16 20 @ put_le16 0x301 @ put_le32 1 @ put_le32 0
       @ [family, protocol, ext, 0] @ put_le32 states @ replicate 48 0"
proof -
  have l: "\<exists>a b c d. put_le32 w = [a, b, c, d]" for w
  proof -
    have "4 = Suc (Suc (Suc (Suc 0)))" by simp
    then show ?thesis unfolding put_le32_def by (simp only: le_bytes.simps) blast
  qed
  obtain a b c d where w: "put_le32 states = [a, b, c, d]" using l by blast
  have k: "put_le32 72 = [72, 0, 0, 0]" "put_le16 20 = [20, 0]" "put_le16 0x301 = [1, 3]"
    "put_le32 1 = [1, 0, 0, 0]" "put_le32 0 = [0, 0, 0, 0]" "nlmFRequest OR nlmFDump = 0x301"
    by code_simp+
  obtain R :: "u8 list" where R: "replicate 48 0 = R" by blast
  have "replicate 72 0 = replicate 24 0 @ R"
    by (simp flip: replicate_add add: R [symmetric])
  also have "replicate 24 0 = [0,0,0,0,0,0,0,0,0,0,0,0,0,0,0,0,0,0,0,0,0,0,0,0::u8]"
    by code_simp
  finally have r: "replicate 72 0 = [0,0,0,0,0,0,0,0,0,0,0,0,0,0,0,0,0,0,0,0,0,0,0,0] @ R" .
  have n: "16 + 56 = (72 :: nat)" "word_of_nat 72 = (72 :: u32)" by simp_all
  show ?thesis
    unfolding buildRequest_def Let_def netlink_consts(1,2,8) k w n r R by (simp add: put_at_def)
qed

definition set_counters :: "diagSocket \<Rightarrow> u64 \<Rightarrow> u64 \<Rightarrow> diagSocket" where
  "set_counters s tx rx = s\<lparr>sk_tx := tx, sk_txOK := True, sk_rx := rx, sk_rxOK := True\<rparr>"

lemma set_counters_set [simp]: "set_counters (set_counters s tx rx) tx' rx' = set_counters s tx' rx'"
  by (simp add: set_counters_def)

lemma parseRtattrs_total:
  "\<exists>s'. parseRtattrs attrs off s = Some s' \<and> (s' = s \<or> (\<exists>tx rx. s' = set_counters s tx rx))"
proof (induction attrs off s rule: parseRtattrs.induct)
  case (1 attrs off s)
  show ?case
  proof (cases "off + 4 \<le> length attrs")
    case False
    then show ?thesis by (simp add: parseRtattrs.simps [of attrs off s])
  next
    case True
    then obtain l where l: "map_option unat (le16_at attrs off) = Some l"
      using le16_at_Some [of off attrs] by auto
    from True obtain t where t: "le16_at attrs (off + 2) = Some t"
      using le16_at_Some [of "off + 2" attrs] by auto
    note unf = parseRtattrs.simps [of attrs off s] True l t
    show ?thesis
    proof (cases "l < 4 \<or> length attrs < off + l")
      case True
      with unf show ?thesis by simp
    next
      case False
      then obtain body where b: "slice attrs (off + 4) (off + l) = Some body" and lb: "length body = l - 4"
        using slice_Some [of "off + 4" "off + l" attrs] slice_length [of attrs "off + 4" "off + l"] by auto
      let ?B = "if t = inetDiagInfoType \<and> tcpInfoMinLen \<le> length body then do {
                   tx \<leftarrow> le64_at body tcpiBytesAckedOff;
                   rx \<leftarrow> le64_at body tcpiBytesRecvOff;
                   Some (s\<lparr>sk_tx := tx, sk_txOK := True, sk_rx := rx, sk_rxOK := True\<rparr>)
                 } else Some s"
      obtain s1 where s1: "?B = Some s1" and d1: "s1 = s \<or> (\<exists>tx rx. s1 = set_counters s tx rx)"
      proof (cases "t = inetDiagInfoType \<and> tcpInfoMinLen \<le> length body")
        case c: True
        then obtain tx rx where "le64_at body tcpiBytesAckedOff = Some tx" "le64_at body tcpiBytesRecvOff = Some rx"
          using le64_at_Some [of tcpiBytesAckedOff body] le64_at_Some [of tcpiBytesRecvOff body]
          by (auto simp: tcpInfoMinLen_def tcpiBytesAckedOff_def tcpiBytesRecvOff_def)
        with c that [of "set_counters s tx rx"] show thesis by (simp add: set_counters_def) blast
      qed (use that in auto)
      from False b s1 unf
      have "parseRtattrs attrs off s = parseRtattrs attrs (off + nat (align4 (int l))) s1"
        by simp
      with "1.IH" [OF True l t False b s1] d1 show ?thesis
        by auto blast
    qed
  qed
qed

text \<open>What the callback may rely on.\<close>

definition wf_ip :: "u8 \<Rightarrow> IP \<Rightarrow> bool" where
  "wf_ip family ip \<longleftrightarrow> length ip = 4 \<or> family \<noteq> afInet \<and> length ip = 16 \<and> To4 ip = None"

definition wf_socket :: "diagSocket \<Rightarrow> bool" where
  "wf_socket s \<longleftrightarrow> wf_ip (sk_family s) (sk_srcIP s) \<and> wf_ip (sk_family s) (sk_dstIP s)
     \<and> 0 \<le> sk_srcPort s \<and> sk_srcPort s < 65536 \<and> 0 \<le> sk_dstPort s \<and> sk_dstPort s < 65536
     \<and> sk_rxOK s = sk_txOK s \<and> (sk_rxOK s \<or> sk_rx s = 0 \<and> sk_tx s = 0)"

lemma decodeIP_total:
  assumes "length b = 16"
  shows "\<exists>ip. decodeIP b family = Some ip \<and> wf_ip family ip"
  using assms by (auto simp: decodeIP_def slice_simps wf_ip_def To4_length split: option.splits)

lemma uint16_bound: "0 \<le> uint (w :: u16) \<and> uint w < 65536"
  using uint_lt2p [of w] by simp

lemma parseDiagMsg_total:
  "\<exists>r. parseDiagMsg payload family = Some r \<and> (case r of None \<Rightarrow> True | Some s \<Rightarrow> wf_socket s)"
proof (cases "length payload < inetDiagMsgLen")
  case False
  then have l: "72 \<le> length payload" by (simp add: inetDiagMsgLen_def)
  let ?f = "payload ! 0"
  obtain src where src: "Option.bind (slice payload 8 24) (\<lambda>b. decodeIP b ?f) = Some src" "wf_ip ?f src"
    using decodeIP_total [of "take 16 (drop 8 payload)" ?f] l by (auto simp: slice_simps)
  obtain dst where dst: "Option.bind (slice payload 24 40) (\<lambda>b. decodeIP b ?f) = Some dst" "wf_ip ?f dst"
    using decodeIP_total [of "take 16 (drop 24 payload)" ?f] l by (auto simp: slice_simps)
  obtain sp dp ino where w: "be16_at payload 4 = Some sp"
    "be16_at payload 6 = Some dp" "le32_at payload 68 = Some ino"
    using l be16_at_Some [of 4 payload] be16_at_Some [of 6 payload] le32_at_Some [of 68 payload] by auto
  let ?s = "zero_socket\<lparr>sk_family := ?f, sk_state := payload ! 1, sk_srcPort := uint sp,
             sk_dstPort := uint dp, sk_srcIP := src, sk_dstIP := dst, sk_inode := ino\<rparr>"
  obtain s' where s': "parseRtattrs (drop 72 payload) 0 ?s = Some s'"
    "s' = ?s \<or> (\<exists>tx rx. s' = set_counters ?s tx rx)"
    using parseRtattrs_total by blast
  have "index payload 0 = Some ?f" "index payload 1 = Some (payload ! 1)"
    "slice payload 72 (length payload) = Some (drop 72 payload)"
    using l by (auto simp: slice_simps intro!: index_Some)
  then have "parseDiagMsg payload family = Some (Some s')"
    using l s'(1) unfolding parseDiagMsg_def inetDiagMsgLen_def by (simp add: src dst w bind.bind_lunit del: bind_assoc One_nat_def)
  moreover have "wf_socket s'"
    using s'(2) src(2) dst(2) uint16_bound [of sp] uint16_bound [of dp]
    by (auto simp: wf_socket_def set_counters_def zero_socket_def)
  ultimately show ?thesis by simp
qed (simp add: parseDiagMsg_def)

text \<open>The walk only appends sockets for the callback: folding it is folding the callback.\<close>

abbreviation snoc :: "'a list \<Rightarrow> 'a \<Rightarrow> 'a list" where
  "snoc xs x \<equiv> xs @ [x]"

lemma itoa_loop_frame:
  "n < 10 ^ k \<Longrightarrow> k \<le> i \<Longrightarrow> i \<le> length buf \<Longrightarrow>
     \<exists>j buf'. itoa_loop n i buf = Some (j, buf') \<and> length buf' = length buf
       \<and> i - k \<le> j \<and> j \<le> i \<and> drop j buf' = (if n = 0 then [] else dec n) @ drop i buf"
proof (induction n i buf arbitrary: k rule: itoa_loop.induct)
  case (1 n i buf)
  show ?case
  proof (cases "n = 0")
    case True
    then show ?thesis by (simp add: itoa_loop.simps [of 0 i buf])
  next
    case False
    with "1.prems"(1) obtain k' where k: "k = Suc k'" by (cases k) auto
    with "1.prems" have i: "i \<noteq> 0" by simp
    let ?b = "buf[i - 1 := digit_char (n mod 10)]"
    have "n div 10 < 10 ^ k'" using "1.prems"(1) k by auto
    moreover have "k' \<le> i - 1" "i - 1 \<le> length ?b" using "1.prems"(2,3) k by simp_all
    ultimately obtain j buf' where
      j: "itoa_loop (n div 10) (i - 1) ?b = Some (j, buf')" "length buf' = length buf" "i - 1 - k' \<le> j" "j \<le> i - 1"
      and d: "drop j buf' = (if n div 10 = 0 then [] else dec (n div 10)) @ drop (i - 1) ?b"
      using "1.IH" [OF False i, of k'] by (metis length_list_update)
    have "drop (i - 1) ?b = digit_char (n mod 10) # drop i buf"
      using i "1.prems"(3) by (simp add: drop_update_swap Cons_nth_drop_Suc [symmetric])
    then have "drop j buf' = dec n @ drop i buf"
      unfolding d using False by (cases "n < 10") (simp_all add: dec.simps [of n] div_eq_0_iff)
    with j k False i show ?thesis by (auto simp: itoa_loop.simps [of n i buf])
  qed
qed

lemma itoa_Itoa:
  assumes "- (2 ^ 63) < n" and "n < 2 ^ 63"
  shows "itoa n = Some (Itoa n)"
proof (cases "n = 0")
  case True
  then show ?thesis by (simp add: itoa_def Itoa_def dec.simps [of 0] digit_char_def, code_simp)
next
  case False
  let ?m = "nat \<bar>n\<bar>"
  have "?m < 10 ^ 19" using assms by simp
  from itoa_loop_frame [OF this, of 20 "replicate 20 (CHR 0x00)"] False
  obtain j buf where j: "itoa_loop ?m 20 (replicate 20 (CHR 0x00)) = Some (j, buf)" "length buf = 20"
    "1 \<le> j" "j \<le> 20" "drop j buf = dec ?m" by auto
  show ?thesis
  proof (cases "n < 0")
    case True
    have "drop (j - 1) (buf[j - 1 := CHR ''-'']) = CHR ''-'' # dec ?m"
      using j by (simp add: drop_update_swap Cons_nth_drop_Suc [symmetric])
    moreover have "length (dec ?m) = 20 - j" using j(2,5) by (metis length_drop)
    ultimately show ?thesis using True False j assms
      by (simp add: itoa_def neg64_def Itoa_def slice_Some)
  next
    case False
    moreover have "length (dec ?m) = 20 - j" using j(2,5) by (metis length_drop)
    ultimately show ?thesis using \<open>n \<noteq> 0\<close> j by (simp add: itoa_def Itoa_def slice_Some)
  qed
qed

lemma itoa_int32: "itoa (sint (w :: u32)) = Some (Itoa (sint w))"
proof (rule itoa_Itoa)
  show "- (2 ^ 63) < sint w" "sint w < 2 ^ 63"
    using sint_ge [of w] sint_lt [of w] by simp_all
qed

lemma datagram_loop_fold:
  "datagram_loop data family fn off (foldl fn st acc)
     = map_option (\<lambda>(ss, d, e). (foldl fn st ss, d, e)) (datagram_loop data family snoc off acc)"
proof (induction data family fn off "foldl fn st acc" arbitrary: acc rule: datagram_loop.induct)
  case (1 data family fn off)
  note unf = datagram_loop.simps [of data family fn off] datagram_loop.simps [of data family snoc off]
  show ?case
  proof (cases "datagram_pass data family off")
    case (Some p)
    show ?thesis
    proof (cases p)
      case (Inr q)
      obtain off' r where q: "q = (off', r)" by (cases q)
      show ?thesis
      proof (cases r)
        case None
        with "1"(1) [OF Some Inr q [symmetric] None refl] Some Inr q show ?thesis by (simp add: unf)
      next
        case (Some s)
        have "foldl fn st (acc @ [s]) = fn (foldl fn st acc) s" by simp
        from "1"(2) [OF \<open>_ = Some p\<close> Inr q [symmetric] Some, of "acc @ [s]"] \<open>_ = Some p\<close> Inr q Some
        show ?thesis by (simp add: unf)
      qed
    qed (use Some unf in auto)
  qed (simp add: unf)
qed

lemma datagram_pass_total:
  "\<exists>p. datagram_pass data family off = Some p
     \<and> (case p of Inl (d, e) \<Rightarrow> e = None \<or> d
         | Inr (off', r) \<Rightarrow> (case r of None \<Rightarrow> True | Some s \<Rightarrow> wf_socket s))"
proof (cases "off + 16 \<le> length data")
  case False
  then show ?thesis by (simp add: datagram_pass_def nlmsgHdrLen_def)
next
  case True
  obtain l where l: "le32_at data off = Some l" using le32_at_Some [of off data] True by auto
  obtain t where t: "le16_at data (off + 4) = Some t" using le16_at_Some [of "off + 4" data] True by auto
  show ?thesis
  proof (cases "unat l < 16 \<or> length data < off + unat l")
    case bad: True
    then show ?thesis using True by (simp add: datagram_pass_def nlmsgHdrLen_def l t)
  next
    case ok: False
    then obtain pl where pl: "slice data (off + 16) (off + unat l) = Some pl"
      using slice_Some [of "off + 16" "off + unat l" data] by auto
    obtain r where r: "parseDiagMsg pl family = Some r" "case r of None \<Rightarrow> True | Some s \<Rightarrow> wf_socket s"
      using parseDiagMsg_total by blast
    show ?thesis
    proof (cases "t = nlmsgDone \<or> t = nlmsgError \<and> \<not> 4 \<le> length pl \<or> t \<noteq> nlmsgError")
      case simple: True
      then show ?thesis using True ok r by (auto simp: datagram_pass_def nlmsgHdrLen_def l t pl)
    next
      case False
      then obtain c where c: "le32_at pl 0 = Some c" using le32_at_Some [of 0 pl] by auto
      show ?thesis
        using False True ok by (auto simp: datagram_pass_def nlmsgHdrLen_def l t pl c itoa_int32)
    qed
  qed
qed

lemma datagram_loop_total:
  assumes "list_all wf_socket acc"
  shows "\<exists>ss d e. datagram_loop data family snoc off acc = Some (ss, d, e)
    \<and> list_all wf_socket ss \<and> (e = None \<or> d)"
  using assms
proof (induction data family "snoc :: diagSocket list \<Rightarrow> _" off acc rule: datagram_loop.induct)
  case (1 data family off acc)
  note unf = datagram_loop.simps [of data family snoc off acc]
  obtain p where p: "datagram_pass data family off = Some p"
    "case p of Inl (d, e) \<Rightarrow> e = None \<or> d
         | Inr (off', r) \<Rightarrow> (case r of None \<Rightarrow> True | Some s \<Rightarrow> wf_socket s)"
    using datagram_pass_total by blast
  show ?case
  proof (cases p)
    case (Inr q)
    obtain off' r where q: "q = (off', r)" by (cases q)
    show ?thesis
    proof (cases r)
      case None
      with 1(1) [OF p(1) Inr q [symmetric] None 1(3)] p Inr q show ?thesis by (simp add: unf)
    next
      case (Some s)
      with p(2) Inr q 1(3) have "list_all wf_socket (acc @ [s])" by simp
      with 1(2) [OF p(1) Inr q [symmetric] Some] p Inr q Some show ?thesis by (simp add: unf)
    qed
  qed (use p 1(3) unf in auto)
qed

text \<open>
  C23: Decoding any byte string in place of a kernel datagram ends without a panic; every
  socket handed to the callback has addresses of its family's length (v4-mapped ones collapsed to
  IPv4), ports in range and either both byte counters or none; an error always ends the dump.
\<close>

theorem parseDatagram_total:
  "\<exists>ss d e. parseDatagram data family snoc [] = Some (ss, d, e)
     \<and> list_all wf_socket ss \<and> (e = None \<or> d)
     \<and> parseDatagram data family fn st = Some (foldl fn st ss, d, e)"
proof -
  obtain ss d e where *: "datagram_loop data family snoc 0 [] = Some (ss, d, e)"
    "list_all wf_socket ss" "e = None \<or> d"
    using datagram_loop_total [of "[]" data family 0] by auto
  with datagram_loop_fold [of data family fn 0 st "[]"] show ?thesis
    by (auto simp: parseDatagram_def)
qed

section \<open>The receive loop\<close>

text \<open>
  What \<^verbatim>\<open>Recvfrom\<close> returns, one after the other; the kernel cuts a datagram to the buffer. The
  dump waits when the list runs out. The system calls that precede the loop give their errno.
\<close>

datatype recv = Interrupted | RecvErr int | Received "u8 list"

datatype dump_error = Errno int | NetlinkError string

datatype 'st dump = Waiting 'st | Returned 'st "dump_error option"

record nl_calls =
  nl_socket :: "int option"
  nl_bind :: "int option"
  nl_sendto :: "u8 list \<Rightarrow> int option"
  nl_recv :: "recv list"

fun recv_loop :: "u8 \<Rightarrow> ('st \<Rightarrow> diagSocket \<Rightarrow> 'st) \<Rightarrow> 'st \<Rightarrow> recv list \<Rightarrow> 'st dump option" where
  "recv_loop family fn st [] = Some (Waiting st)"
| "recv_loop family fn st (Interrupted # rs) = recv_loop family fn st rs"
| "recv_loop family fn st (RecvErr n # rs) = Some (Returned st (Some (Errno n)))"
| "recv_loop family fn st (Received bs # rs) =
     (let buf = take recvBufLen bs in
      if buf = [] then Some (Returned st None)
      else case parseDatagram buf family fn st of
          None \<Rightarrow> None
        | Some (st', d, Some e) \<Rightarrow> Some (Returned st' (Some (NetlinkError e)))
        | Some (st', d, None) \<Rightarrow>
            if d then Some (Returned st' None) else recv_loop family fn st' rs)"

definition netlinkDump ::
  "nl_calls \<Rightarrow> u8 \<Rightarrow> u8 \<Rightarrow> u32 \<Rightarrow> u8 \<Rightarrow> ('st \<Rightarrow> diagSocket \<Rightarrow> 'st) \<Rightarrow> 'st \<Rightarrow> 'st dump option" where
  "netlinkDump w family protocol states ext fn st =
     (case nl_socket w of
        Some n \<Rightarrow> Some (Returned st (Some (Errno n)))
      | None \<Rightarrow>
      case nl_bind w of
        Some n \<Rightarrow> Some (Returned st (Some (Errno n)))
      | None \<Rightarrow>
      case nl_sendto w (buildRequest family protocol states ext) of
        Some n \<Rightarrow> Some (Returned st (Some (Errno n)))
      | None \<Rightarrow> recv_loop family fn st (nl_recv w))"

section \<open>The kernel's side of the format\<close>

text \<open>
  A reply as the kernel lays it out: attributes and messages start on 4-byte boundaries. The
  reply carries the fields the program skips, attributes of other types around the counters,
  and a \<^verbatim>\<open>tcp_info\<close> that may be longer than the part read.
\<close>

definition pad4 :: "u8 list \<Rightarrow> u8 list" where
  "pad4 bs = bs @ replicate (nat (align4 (int (length bs))) - length bs) 0"

definition rtattr :: "u16 \<times> u8 list \<Rightarrow> u8 list" where
  "rtattr = (\<lambda>(typ, body). pad4 (put_le16 (word_of_nat (4 + length body)) @ put_le16 typ @ body))"

definition nlmsg :: "u16 \<Rightarrow> u8 list \<Rightarrow> u8 list \<Rightarrow> u8 list" where
  "nlmsg typ rest payload =
     pad4 (put_le32 (word_of_nat (16 + length payload)) @ put_le16 typ @ rest @ payload)"

record reply =
  rp_sock :: diagSocket
  rp_type :: u16
  rp_hdr :: "u8 list"
  rp_timer :: "u8 list"
  rp_misc :: "u8 list"
  rp_pre :: "(u16 \<times> u8 list) list"
  rp_post :: "(u16 \<times> u8 list) list"
  rp_info :: "u8 list"
  rp_tail :: "u8 list"

definition addr16 :: "u8 \<Rightarrow> IP \<Rightarrow> u8 list" where
  "addr16 family ip =
     (if length ip = 16 then ip else if family = afInet then ip @ replicate 12 0 else v4InV6Prefix @ ip)"

definition info_attr :: "reply \<Rightarrow> (u16 \<times> u8 list) list" where
  "info_attr r =
     (let s = rp_sock r in
      if sk_rxOK s then [(inetDiagInfoType, rp_info r @ put_le64 (sk_tx s) @ put_le64 (sk_rx s) @ rp_tail r)]
      else [])"

definition diag_payload :: "reply \<Rightarrow> u8 list" where
  "diag_payload r =
     (let s = rp_sock r in
      [sk_family s, sk_state s] @ rp_timer r
        @ put_be16 (word_of_int (sk_srcPort s)) @ put_be16 (word_of_int (sk_dstPort s))
        @ addr16 (sk_family s) (sk_srcIP s) @ addr16 (sk_family s) (sk_dstIP s)
        @ rp_misc r @ put_le32 (sk_inode s)
        @ concat (map rtattr (rp_pre r @ info_attr r @ rp_post r)))"

definition encode_reply :: "reply \<Rightarrow> u8 list" where
  "encode_reply r = nlmsg (rp_type r) (rp_hdr r) (diag_payload r)"

definition done_msg :: "u8 list \<Rightarrow> u8 list \<Rightarrow> u8 list" where
  "done_msg rest payload = nlmsg nlmsgDone rest payload"

definition wf_attr :: "u16 \<times> u8 list \<Rightarrow> bool" where
  "wf_attr a \<longleftrightarrow> fst a \<noteq> inetDiagInfoType \<and> length (snd a) < 65532"

definition wf_reply :: "reply \<Rightarrow> bool" where
  "wf_reply r \<longleftrightarrow> wf_socket (rp_sock r)
     \<and> rp_type r \<noteq> nlmsgDone \<and> rp_type r \<noteq> nlmsgError \<and> length (rp_hdr r) = 10
     \<and> length (rp_timer r) = 2 \<and> length (rp_misc r) = 28
     \<and> list_all wf_attr (rp_pre r) \<and> list_all wf_attr (rp_post r)
     \<and> length (rp_info r) = 120 \<and> length (rp_tail r) < 65000 \<and> length (diag_payload r) < 2 ^ 31"

section \<open>Decoding what the kernel encodes\<close>

lemma parseRtattrs_shift: "parseRtattrs (a @ attrs) (length a + off) s = parseRtattrs attrs off s"
proof (induction attrs off s rule: parseRtattrs.induct)
  case (1 attrs off s)
  show ?case
    unfolding parseRtattrs.simps [of "a @ attrs" "length a + off" s] parseRtattrs.simps [of attrs off s]
    apply (simp only: length_append add.assoc read_at_shift slice_shift add_le_cancel_left add_less_cancel_left)
    apply (intro if_cong refl Option.bind_cong)
    apply (rule 1; assumption)
    done
qed

lemma length_pad4 [simp]: "length (pad4 bs) = nat (align4 (int (length bs)))"
  using align4_nat [of "length bs"] by (simp add: pad4_def)

lemma parseRtattrs_rtattr:
  assumes "length body < 65532"
  shows "parseRtattrs (rtattr (typ, body) @ rest) 0 s =
    (if typ = inetDiagInfoType \<and> tcpInfoMinLen \<le> length body then do {
       tx \<leftarrow> le64_at body tcpiBytesAckedOff;
       rx \<leftarrow> le64_at body tcpiBytesRecvOff;
       parseRtattrs rest 0 (set_counters s tx rx)
     } else parseRtattrs rest 0 s)"
proof -
  define h where "h = put_le16 (word_of_nat (4 + length body)) @ put_le16 typ"
  obtain z where z: "rtattr (typ, body) = h @ body @ z" by (simp add: rtattr_def pad4_def h_def)
  have h: "length h = 4" by (simp add: h_def)
  let ?n = "nat (align4 (int (4 + length body)))"
  have n: "length (rtattr (typ, body)) = ?n" by (simp add: rtattr_def)
  have len: "4 + length body \<le> length (rtattr (typ, body) @ rest)"
    unfolding z using h by simp
  have a: "map_option unat (le16_at (rtattr (typ, body) @ rest) 0) = Some (4 + length body)"
  proof -
    have "unat (word_of_nat (4 + length body) :: u16) = 4 + length body"
      using assms by (simp only: unat_of_nat) simp
    then show ?thesis by (simp add: z h_def read_at_front del: of_nat_add)
  qed
  have b: "le16_at (rtattr (typ, body) @ rest) (0 + 2) = Some typ"
    by (simp add: z h_def read_at_skip read_at_front)
  have c: "slice (rtattr (typ, body) @ rest) (0 + 4) (0 + (4 + length body)) = Some body"
    using slice_append_mid [of h body "z @ rest"] by (simp add: z h)
  have sh: "parseRtattrs (rtattr (typ, body) @ rest) (0 + ?n) s' = parseRtattrs rest 0 s'" for s'
    using parseRtattrs_shift [of "rtattr (typ, body)" rest 0 s'] by (simp add: n)
  have "0 + 4 \<le> length (rtattr (typ, body) @ rest)" using len by simp
  then show ?thesis
    unfolding parseRtattrs.simps [of "rtattr (typ, body) @ rest" 0 s] a b bind.bind_lunit c
    using len sh by (auto simp: set_counters_def not_less intro!: Option.bind_cong)
qed

lemma parseRtattrs_other:
  "list_all wf_attr as \<Longrightarrow> parseRtattrs (concat (map rtattr as) @ rest) 0 s = parseRtattrs rest 0 s"
proof (induction as)
  case (Cons a as)
  then show ?case
    using parseRtattrs_rtattr [of "snd a" "fst a" "concat (map rtattr as) @ rest" s]
    by (simp add: wf_attr_def)
qed simp

lemma parseRtattrs_Nil [simp]: "parseRtattrs [] 0 s = Some s"
  by (simp add: parseRtattrs.simps)

lemma parseRtattrs_reply:
  assumes "wf_reply r"
  shows "parseRtattrs (concat (map rtattr (rp_pre r @ info_attr r @ rp_post r))) 0 s =
    Some (if sk_rxOK (rp_sock r) then set_counters s (sk_tx (rp_sock r)) (sk_rx (rp_sock r)) else s)"
proof -
  have w: "list_all wf_attr (rp_pre r)" "list_all wf_attr (rp_post r)" "length (rp_info r) = 120"
    "length (rp_tail r) < 65000" using assms by (simp_all add: wf_reply_def)
  note e = parseRtattrs_other [OF w(2), where rest = "[]", simplified]
  let ?b = "rp_info r @ put_le64 (sk_tx (rp_sock r)) @ put_le64 (sk_rx (rp_sock r)) @ rp_tail r"
  have "length ?b < 65532" using w by simp
  from parseRtattrs_rtattr [OF this, of inetDiagInfoType] show ?thesis
    using w by (simp add: parseRtattrs_other [OF w(1)] info_attr_def Let_def e tcpInfoMinLen_def
        tcpiBytesAckedOff_def tcpiBytesRecvOff_def read_at_skip read_at_front)
qed

lemma decodeIP_addr16:
  assumes "wf_ip family ip"
  shows "length (addr16 family ip) = 16" and "decodeIP (addr16 family ip) family = Some ip"
proof -
  show "length (addr16 family ip) = 16"
    using assms by (auto simp: wf_ip_def addr16_def v4InV6Prefix_def)
  then show "decodeIP (addr16 family ip) family = Some ip"
    using assms
    by (auto simp: wf_ip_def decodeIP_def addr16_def slice_def)
qed

lemma parseDiagMsg_payload:
  assumes "wf_reply r"
  shows "parseDiagMsg (diag_payload r) family = Some (Some (rp_sock r))"
proof -
  define s where "s = rp_sock r"
  have s: "wf_socket s" "length (rp_timer r) = 2" "length (rp_misc r) = 28"
    using assms by (simp_all add: wf_reply_def s_def)
  define as where "as = concat (map rtattr (rp_pre r @ info_attr r @ rp_post r))"
  let ?src = "addr16 (sk_family s) (sk_srcIP s)" and ?dst = "addr16 (sk_family s) (sk_dstIP s)"
  obtain t1 t2 where t: "rp_timer r = [t1, t2]" using s(2) by (auto simp: length_Suc_conv numeral_2_eq_2)
  define h where "h = [sk_family s, sk_state s, t1, t2]"
  have h: "length h = 4" "h ! 0 = sk_family s" "h ! 1 = sk_state s" by (simp_all add: h_def)
  have p: "diag_payload r = h @ put_be16 (word_of_int (sk_srcPort s)) @ put_be16 (word_of_int (sk_dstPort s))
        @ ?src @ ?dst @ rp_misc r @ put_le32 (sk_inode s) @ as"
    by (simp add: diag_payload_def Let_def t h_def s_def as_def)
  have ip: "wf_ip (sk_family s) (sk_srcIP s)" "wf_ip (sk_family s) (sk_dstIP s)"
    using s(1) by (simp_all add: wf_socket_def)
  note l = decodeIP_addr16(1) [OF ip(1)] decodeIP_addr16(1) [OF ip(2)]
  have len: "length (diag_payload r) = 72 + length as" by (simp add: p h l s(3))
  have idx: "index (diag_payload r) 0 = Some (sk_family s)" "index (diag_payload r) 1 = Some (sk_state s)"
    using h by (simp_all add: p index_def nth_append)
  have rd: "be16_at (diag_payload r) 4 = Some (word_of_int (sk_srcPort s))"
    "be16_at (diag_payload r) 6 = Some (word_of_int (sk_dstPort s))"
    "le32_at (diag_payload r) 68 = Some (sk_inode s)"
    by (simp_all add: p h l s(3) read_at_skip read_at_front)
  have sl: "slice (diag_payload r) 8 24 = Some ?src" "slice (diag_payload r) 24 40 = Some ?dst"
    "slice (diag_payload r) 72 (72 + length as) = Some as"
    by (simp_all add: p h l s(3) slice_parts)
  have port: "uint (word_of_int (sk_srcPort s) :: u16) = sk_srcPort s"
    "uint (word_of_int (sk_dstPort s) :: u16) = sk_dstPort s"
    using s(1) by (simp_all add: wf_socket_def uint_word_of_int)
  have attrs: "parseRtattrs as 0
          (zero_socket\<lparr>sk_family := sk_family s, sk_state := sk_state s, sk_srcPort := sk_srcPort s,
             sk_dstPort := sk_dstPort s, sk_srcIP := sk_srcIP s, sk_dstIP := sk_dstIP s,
             sk_inode := sk_inode s\<rparr>) = Some s"
    unfolding as_def parseRtattrs_reply [OF assms]
    using s(1) by (auto simp: s_def wf_socket_def set_counters_def zero_socket_def)
  have "\<not> length (diag_payload r) < 72" by (simp add: len)
  then show ?thesis
    unfolding parseDiagMsg_def inetDiagMsgLen_def len idx rd sl bind.bind_lunit
      decodeIP_addr16(2) [OF ip(1)] decodeIP_addr16(2) [OF ip(2)] port attrs
    by (simp add: s_def)
qed

lemma map_option_bind: "map_option f (Option.bind x g) = Option.bind x (\<lambda>y. map_option f (g y))"
  by (cases x) auto

lemma datagram_pass_shift:
  "datagram_pass (a @ data) family (length a + off)
     = map_option (map_sum id (map_prod ((+) (length a)) id)) (datagram_pass data family off)"
  unfolding datagram_pass_def
  by (simp only: length_append add.assoc read_at_shift slice_shift add_le_cancel_left add_less_cancel_left)
    (simp add: map_option_bind if_distrib [of "map_option _"] add.assoc cong: if_cong)

lemma datagram_loop_shift:
  "datagram_loop (a @ data) family fn (length a + off) st = datagram_loop data family fn off st"
proof (induction data family fn off st rule: datagram_loop.induct)
  case (1 data family fn off st)
  note unf = datagram_loop.simps [of "a @ data" family fn "length a + off" st]
    datagram_loop.simps [of data family fn off st]
  show ?case
  proof (cases "datagram_pass data family off")
    case (Some p)
    note p = Some
    show ?thesis
    proof (cases p)
      case (Inr q)
      obtain off' r where q: "q = (off', r)" by (cases q)
      show ?thesis
        using "1" [OF p Inr q [symmetric]] p Inr q
        by (cases r) (auto simp: unf datagram_pass_shift)
    qed (use p in \<open>auto simp: unf datagram_pass_shift\<close>)
  qed (simp add: unf datagram_pass_shift)
qed

text \<open>One message at the head of a datagram.\<close>

lemma datagram_pass_nlmsg:
  assumes "length h = 10" and "length payload < 2 ^ 31"
  shows "datagram_pass (nlmsg typ h payload @ rest) family 0 =
    (if typ = nlmsgDone then Some (Inl (True, None))
     else if typ = nlmsgError then
       (if 4 \<le> length payload then do {
          code \<leftarrow> le32_at payload 0;
          if code \<noteq> 0 then do {
            e \<leftarrow> itoa (sint (- code));
            Some (Inl (True, Some (''netlink error: errno '' @ e)))
          } else Some (Inl (True, None))
        } else Some (Inl (True, None)))
     else map_option (\<lambda>r. Inr (length (nlmsg typ h payload), r)) (parseDiagMsg payload family))"
proof -
  define g where "g = put_le32 (word_of_nat (16 + length payload)) @ put_le16 typ @ h"
  obtain z where z: "nlmsg typ h payload = g @ payload @ z" by (simp add: nlmsg_def pad4_def g_def)
  have g: "length g = 16" by (simp add: g_def assms)
  have n: "length (nlmsg typ h payload) = nat (align4 (int (16 + length payload)))"
    using assms(1) by (simp add: nlmsg_def)
  have "unat (word_of_nat (16 + length payload) :: u32) = 16 + length payload"
    using assms(2) by (simp only: unat_of_nat) simp
  then have l: "map_option unat (le32_at (nlmsg typ h payload @ rest) 0) = Some (16 + length payload)"
    by (simp add: z g_def read_at_front del: of_nat_add)
  have t: "le16_at (nlmsg typ h payload @ rest) (0 + 4) = Some typ"
    by (simp add: z g_def read_at_skip read_at_front)
  have p: "slice (nlmsg typ h payload @ rest) (0 + 16) (0 + (16 + length payload)) = Some payload"
    using slice_append_mid [of g payload "z @ rest"] by (simp add: z g)
  have len: "16 + length payload \<le> length (nlmsg typ h payload @ rest)" by (simp add: z g)
  show ?thesis
    unfolding datagram_pass_def nlmsgHdrLen_def l t bind.bind_lunit p
    using len n by (auto simp: map_option_case Option.bind_def split: option.splits)
qed

lemma datagram_loop_reply:
  assumes "wf_reply r"
  shows "datagram_loop (encode_reply r @ rest) family fn 0 st = datagram_loop rest family fn 0 (fn st (rp_sock r))"
proof -
  have w: "rp_type r \<noteq> nlmsgDone" "rp_type r \<noteq> nlmsgError" "length (rp_hdr r) = 10"
    "length (diag_payload r) < 2 ^ 31" using assms by (simp_all add: wf_reply_def)
  have "datagram_pass (encode_reply r @ rest) family 0 = Some (Inr (length (encode_reply r), Some (rp_sock r)))"
    unfolding encode_reply_def datagram_pass_nlmsg [OF w(3,4)]
    using w by (simp add: parseDiagMsg_payload [OF assms])
  then show ?thesis
    using datagram_loop_shift [of "encode_reply r" rest family fn 0]
    by (simp add: datagram_loop.simps [of "encode_reply r @ rest"])
qed

lemma datagram_loop_replies:
  "list_all wf_reply rs \<Longrightarrow>
     datagram_loop (concat (map encode_reply rs) @ rest) family fn 0 st
       = datagram_loop rest family fn 0 (foldl fn st (map rp_sock rs))"
  by (induction rs arbitrary: st) (auto simp: datagram_loop_reply)

lemma datagram_loop_Nil [simp]: "datagram_loop [] family fn 0 st = Some (st, False, None)"
  by (simp add: datagram_loop.simps datagram_pass_def nlmsgHdrLen_def)

lemma datagram_loop_done:
  assumes "length h = 10" and "length p < 2 ^ 31"
  shows "datagram_loop (done_msg h p @ rest) family fn 0 st = Some (st, True, None)"
  by (simp add: datagram_loop.simps done_msg_def datagram_pass_nlmsg [OF assms])

lemma recv_loop_interrupts [simp]:
  "recv_loop family fn st (replicate k Interrupted @ rs) = recv_loop family fn st rs"
  by (induction k) auto

lemma nlmsg_nonempty [simp]: "nlmsg typ h payload \<noteq> []"
proof -
  have "4 \<le> length (nlmsg typ h payload)"
    using align4_nat [of "4 + (2 + (length h + length payload))"] by (simp add: nlmsg_def)
  then show ?thesis by auto
qed

text \<open>A batch: some interrupted calls, then a datagram of replies.\<close>

definition batch :: "nat \<times> reply list \<Rightarrow> recv list" where
  "batch = (\<lambda>(k, rs). replicate k Interrupted @ [Received (concat (map encode_reply rs))])"

definition wf_batch :: "nat \<times> reply list \<Rightarrow> bool" where
  "wf_batch = (\<lambda>(k, rs). rs \<noteq> [] \<and> list_all wf_reply rs \<and> length (concat (map encode_reply rs)) \<le> recvBufLen)"

lemma recv_loop_batches:
  "list_all wf_batch bs \<Longrightarrow>
     recv_loop family fn st (concat (map batch bs) @ rs)
       = recv_loop family fn (foldl fn st (map rp_sock (concat (map snd bs)))) rs"
proof (induction bs arbitrary: st)
  case (Cons b bs)
  obtain k rs1 where b: "b = (k, rs1)" by (cases b)
  with Cons.prems obtain r rs2 where rs1: "rs1 = r # rs2" by (cases rs1) (auto simp: wf_batch_def)
  let ?d = "concat (map encode_reply rs1)"
  have w: "list_all wf_reply rs1" "length ?d \<le> recvBufLen" using Cons.prems b by (simp_all add: wf_batch_def)
  have ne: "?d \<noteq> []" using w(1) rs1 by (simp add: encode_reply_def)
  have "parseDatagram ?d family fn st = Some (foldl fn st (map rp_sock rs1), False, None)" for st
    using datagram_loop_replies [OF w(1), of "[]"] by (simp add: parseDatagram_def)
  moreover have "batch b = replicate k Interrupted @ [Received ?d]" by (simp add: batch_def b)
  ultimately show ?case using Cons b w ne by (simp add: Let_def del: concat_eq_Nil_conv)
qed simp

text \<open>
  C6: When the kernel answers a dump with datagrams of well-formed replies, calls in between
  interrupted or not, and closes it with \<^verbatim>\<open>NLMSG_DONE\<close>, \<^verbatim>\<open>netlinkDump\<close> returns without
  error and has passed exactly the kernel's sockets, in order, to the callback: addresses, ports,
  inode and byte counters survive encoding, alignment and foreign attributes.
\<close>

theorem netlinkDump_complete:
  assumes "nl_socket w = None" and "nl_bind w = None"
    and "nl_sendto w (buildRequest family protocol states ext) = None"
    and "nl_recv w = concat (map batch bs) @ replicate k Interrupted
      @ Received (concat (map encode_reply ls) @ done_msg h p @ junk) # rest"
    and "list_all wf_batch bs" and "list_all wf_reply ls" and "length h = 10"
    and "length (concat (map encode_reply ls) @ done_msg h p) \<le> recvBufLen"
  shows "netlinkDump w family protocol states ext fn st
    = Some (Returned (foldl fn st (map rp_sock (concat (map snd bs) @ ls))) None)"
proof -
  let ?d = "concat (map encode_reply ls) @ done_msg h p"
  have "length p < 2 ^ 31"
    using assms(7,8) align4_nat [of "16 + length p"]
    by (simp add: done_msg_def nlmsg_def recvBufLen_def)
  then have dn: "datagram_loop (done_msg h p @ x) family fn 0 st' = Some (st', True, None)" for x st'
    by (rule datagram_loop_done [OF assms(7)])
  obtain x where x: "take recvBufLen (?d @ junk) = ?d @ x"
    using assms(8) by (metis append_Nil2 take_append take_all)
  have "parseDatagram (?d @ x) family fn st' = Some (foldl fn st' (map rp_sock ls), True, None)" for st'
    by (simp add: parseDatagram_def datagram_loop_replies [OF assms(6)] dn)
  moreover have "done_msg h p \<noteq> []" by (simp add: done_msg_def)
  ultimately have fin: "recv_loop family fn st' (Received (?d @ junk) # rest)
      = Some (Returned (foldl fn st' (map rp_sock ls)) None)" for st'
    unfolding recv_loop.simps Let_def x by simp
  show ?thesis
    using fin by (simp add: netlinkDump_def assms(1-4) recv_loop_batches [OF assms(5)])
qed

definition sample_reply :: reply where
  "sample_reply = \<lparr>rp_sock = \<lparr>sk_family = 10, sk_state = 1, sk_srcIP = [10, 0, 0, 2], sk_srcPort = 51234,
       sk_dstIP = [0x20, 0x01, 0x0d, 0xb8, 0, 0, 0, 0, 0, 0, 0, 0, 0, 0, 0, 7], sk_dstPort = 443,
       sk_inode = 77, sk_rxOK = True, sk_rx = 4096, sk_txOK = True, sk_tx = 512\<rparr>,
     rp_type = 20, rp_hdr = replicate 10 0, rp_timer = [0, 0], rp_misc = replicate 28 0,
     rp_pre = [(8, [1])], rp_post = [(5, [2, 3, 4])], rp_info = replicate 120 9, rp_tail = [1, 2]\<rparr>"

lemma netlinkDump_complete_witness:
  "netlinkDump \<lparr>nl_socket = None, nl_bind = None, nl_sendto = \<lambda>_. None,
       nl_recv = batch (1, [sample_reply]) @ [Received (done_msg (replicate 10 0) [0, 0, 0, 0])]\<rparr>
     afInet6 ipprotoTCP (stateMask tcpEstablished) inetDiagInfoBit snoc []
   = Some (Returned [rp_sock sample_reply] None)"
proof -
  have "wf_batch (1, [sample_reply])" by code_simp
  then show ?thesis
    using netlinkDump_complete [of "\<lparr>nl_socket = None, nl_bind = None, nl_sendto = \<lambda>_. None,
       nl_recv = batch (1, [sample_reply]) @ [Received (done_msg (replicate 10 0) [0, 0, 0, 0])]\<rparr>"
       afInet6 ipprotoTCP "stateMask tcpEstablished" inetDiagInfoBit "[(1, [sample_reply])]" 0 "[]"
       "replicate 10 0" "[0, 0, 0, 0]" "[]" "[]" snoc "[]"]
    by (simp add: done_msg_def nlmsg_def align4_eq recvBufLen_def)
qed

end
