(* ===== verification/RangeIndex.thy ===== *)
theory RangeIndex
  imports GoNet GoSort
begin

text \<open>
  What \<^verbatim>\<open>countryDB\<close> and \<^verbatim>\<open>asnDB\<close> share: ranges sorted by their start, the running maximum
  of the ends, and a search that walks back over nested ranges. The locale states the layout a
  database provides and the search its lookup performs; inside it the lookup is shown to find the
  last range that covers the key. Each database interprets it with its own definitions. The rows
  of a CSV file come from a reader whose \<open>k\<close>-th call has a result; reading loops until the end
  of the file.
\<close>

section \<open>The search\<close>

definition covers :: "u8 list \<Rightarrow> u8 list \<Rightarrow> u8 list \<Rightarrow> bool" where
  "covers s e x \<longleftrightarrow> bytes_Compare s x \<le> 0 \<and> bytes_Compare x e \<le> 0"

primrec walk_back ::
  "(nat \<Rightarrow> u8 list) \<Rightarrow> (nat \<Rightarrow> u8 list) \<Rightarrow> (nat \<Rightarrow> u8 list) \<Rightarrow> u8 list \<Rightarrow> nat \<Rightarrow> nat option" where
  "walk_back start stop maxend x 0 = None"
| "walk_back start stop maxend x (Suc j) =
     (if bytes_Compare (maxend j) x < 0 then None
      else if covers (start j) (stop j) x then Some j
      else walk_back start stop maxend x j)"

definition range_find ::
  "nat \<Rightarrow> (nat \<Rightarrow> u8 list) \<Rightarrow> (nat \<Rightarrow> u8 list) \<Rightarrow> (nat \<Rightarrow> u8 list) \<Rightarrow> u8 list \<Rightarrow> nat option" where
  "range_find n start stop maxend x =
     (case Search n (\<lambda>k. 0 < bytes_Compare (start k) x) of
        0 \<Rightarrow> None
      | Suc i \<Rightarrow> if bytes_Compare x (stop i) \<le> 0 then Some i
                else walk_back start stop maxend x i)"

text \<open>
  What a caller may expect of an answer \<open>r\<close> for the key \<open>x\<close>: it is the miss value and no row
  covers the key, or it comes from a covering row whose start is largest among the covering rows.
\<close>

definition answers ::
  "('row \<Rightarrow> u8 list) \<Rightarrow> ('row \<Rightarrow> u8 list) \<Rightarrow> ('row \<Rightarrow> 'r) \<Rightarrow> 'r \<Rightarrow> 'row list \<Rightarrow> u8 list \<Rightarrow> 'r \<Rightarrow> bool" where
  "answers s e v miss rows x r \<longleftrightarrow>
     r = miss \<and> (\<forall>row\<in>set rows. \<not> covers (s row) (e row) x)
     \<or> (\<exists>row\<in>set rows. covers (s row) (e row) x \<and> r = v row
          \<and> (\<forall>row'\<in>set rows. covers (s row') (e row') x \<longrightarrow> be_nat (s row') \<le> be_nat (s row)))"

locale range_index =
  fixes wf :: "'db \<Rightarrow> bool"
    and width :: "'db \<Rightarrow> nat"
    and size :: "'db \<Rightarrow> nat"
    and start :: "'db \<Rightarrow> nat \<Rightarrow> u8 list"
    and stop :: "'db \<Rightarrow> nat \<Rightarrow> u8 list"
    and maxend :: "'db \<Rightarrow> nat \<Rightarrow> u8 list"
    and lookup :: "'db \<Rightarrow> u8 list \<Rightarrow> 'r"
    and res :: "'db \<Rightarrow> nat option \<Rightarrow> 'r"
  assumes key_width: "wf d \<Longrightarrow> i < size d \<Longrightarrow>
      length (start d i) = width d \<and> length (stop d i) = width d \<and> length (maxend d i) = width d"
    and starts_sorted: "wf d \<Longrightarrow> i \<le> j \<Longrightarrow> j < size d \<Longrightarrow> be_nat (start d i) \<le> be_nat (start d j)"
    and maxend_bound: "wf d \<Longrightarrow> i \<le> j \<Longrightarrow> j < size d \<Longrightarrow> be_nat (stop d i) \<le> be_nat (maxend d j)"
    and lookup_find: "wf d \<Longrightarrow> length x = width d \<Longrightarrow>
      lookup d x = res d (range_find (size d) (start d) (stop d) (maxend d) x)"
begin

lemma covers_num:
  assumes "wf d" and "i < size d" and "length x = width d"
  shows "covers (start d i) (stop d i) x \<longleftrightarrow>
    be_nat (start d i) \<le> be_nat x \<and> be_nat x \<le> be_nat (stop d i)"
  using key_width [OF assms(1,2)] assms(3) by (auto simp: covers_def bytes_Compare_num)

lemma walk_back_spec:
  assumes "wf d" and "length x = width d" and "n \<le> size d"
  shows "case walk_back (start d) (stop d) (maxend d) x n of
      None \<Rightarrow> \<forall>j<n. \<not> covers (start d j) (stop d j) x
    | Some j \<Rightarrow> j < n \<and> covers (start d j) (stop d j) x
        \<and> (\<forall>k. j < k \<and> k < n \<longrightarrow> \<not> covers (start d k) (stop d k) x)"
  using assms(3)
proof (induction n)
  case (Suc j)
  have w: "length (maxend d j) = length x" using key_width [OF assms(1), of j] Suc assms(2) by simp
  consider "bytes_Compare (maxend d j) x < 0" | "\<not> bytes_Compare (maxend d j) x < 0"
      "covers (start d j) (stop d j) x"
    | "\<not> bytes_Compare (maxend d j) x < 0" "\<not> covers (start d j) (stop d j) x" by blast
  then show ?case
  proof cases
    case 1
    then have m: "be_nat (maxend d j) < be_nat x" using w by (auto simp: bytes_Compare_num split: if_splits)
    have "\<not> covers (start d k) (stop d k) x" if "k < Suc j" for k
      using maxend_bound [OF assms(1), of k j] that Suc.prems m covers_num [OF assms(1) _ assms(2), of k]
      by auto
    with 1 show ?thesis by simp
  next
    case 3
    then show ?thesis using Suc by (auto simp: less_Suc_eq split: option.splits)
  qed auto
qed simp

lemma range_find_spec:
  assumes wf: "wf d" and x: "length x = width d"
  shows "case range_find (size d) (start d) (stop d) (maxend d) x of
      None \<Rightarrow> \<forall>j < size d. \<not> covers (start d j) (stop d j) x
    | Some j \<Rightarrow> j < size d \<and> covers (start d j) (stop d j) x
        \<and> (\<forall>k. j < k \<and> k < size d \<longrightarrow> \<not> covers (start d k) (stop d k) x)"
proof -
  let ?f = "\<lambda>k. 0 < bytes_Compare (start d k) x"
  have f: "?f k \<longleftrightarrow> be_nat x < be_nat (start d k)" if "k < size d" for k
    using key_width [OF wf that] x by (auto simp: bytes_Compare_num)
  have mono: "?f b" if "a \<le> b" "b < size d" "?f a" for a b
    using starts_sorted [OF wf that(1,2)] that f [of a] f [of b] by auto
  let ?m = "Search (size d) ?f"
  have least: "?m \<le> size d" "\<And>k. k < ?m \<Longrightarrow> \<not> ?f k" "\<And>k. ?m \<le> k \<Longrightarrow> k < size d \<Longrightarrow> ?f k"
    using Search_least [of "size d" ?f] mono by blast+
  have above: "\<not> covers (start d k) (stop d k) x" if "?m \<le> k" "k < size d" for k
    using least(3) [OF that] f [OF that(2)] covers_num [OF wf that(2) x] by auto
  show ?thesis
  proof (cases ?m)
    case 0
    with above show ?thesis by (simp add: range_find_def)
  next
    case (Suc i)
    then have i: "i < size d" "\<not> ?f i" using least(1) least(2) [of i] by simp_all
    show ?thesis
    proof (cases "bytes_Compare x (stop d i) \<le> 0")
      case True
      then have "covers (start d i) (stop d i) x" using i by (simp add: covers_def)
      with True Suc above i show ?thesis by (simp add: range_find_def)
    next
      case False
      then have nc: "\<not> covers (start d i) (stop d i) x" by (simp add: covers_def)
      have rest: "\<not> covers (start d k) (stop d k) x" if "i \<le> k" "k < size d" for k
        using nc above [of k] that Suc by (cases "k = i") auto
      from False Suc have e: "range_find (size d) (start d) (stop d) (maxend d) x
          = walk_back (start d) (stop d) (maxend d) x i" by (simp add: range_find_def)
      have "i \<le> size d" using i by simp
      from walk_back_spec [OF wf x this] rest i show ?thesis
        unfolding e by (auto split: option.splits) (metis leI)+
    qed
  qed
qed

text \<open>The lookup finds nothing, or the last covering range, which has the largest start.\<close>

lemma lookup_spec:
  assumes wf: "wf d" and x: "length x = width d"
  shows "(\<forall>j < size d. \<not> covers (start d j) (stop d j) x) \<and> lookup d x = res d None
    \<or> (\<exists>i < size d. covers (start d i) (stop d i) x \<and> lookup d x = res d (Some i)
        \<and> (\<forall>j < size d. covers (start d j) (stop d j) x \<longrightarrow> j \<le> i \<and> be_nat (start d j) \<le> be_nat (start d i)))"
proof (cases "range_find (size d) (start d) (stop d) (maxend d) x")
  case None
  with range_find_spec [OF wf x] lookup_find [OF wf x] show ?thesis by auto
next
  case (Some i)
  with range_find_spec [OF wf x] have i: "i < size d" "covers (start d i) (stop d i) x"
    "\<forall>k. i < k \<and> k < size d \<longrightarrow> \<not> covers (start d k) (stop d k) x" by auto
  then have "j \<le> i \<and> be_nat (start d j) \<le> be_nat (start d i)"
    if "j < size d" "covers (start d j) (stop d j) x" for j
    using that starts_sorted [OF wf, of j i] by (metis not_le_imp_less)
  with i Some lookup_find [OF wf x] show ?thesis by auto
qed

lemma lookup_answers:
  assumes "wf d" and "length x = width d" and n: "length rows = size d"
    and at: "\<And>i. i < size d \<Longrightarrow> s (rows ! i) = start d i \<and> e (rows ! i) = stop d i \<and> v (rows ! i) = res d (Some i)"
  shows "answers s e v (res d None) rows x (lookup d x)"
  using lookup_spec [OF assms(1,2)]
proof (elim disjE conjE exE)
  assume "\<forall>j < size d. \<not> covers (start d j) (stop d j) x" "lookup d x = res d None"
  then show ?thesis using at n by (auto simp: answers_def in_set_conv_nth)
next
  fix i
  assume i: "i < size d" "covers (start d i) (stop d i) x" "lookup d x = res d (Some i)"
    "\<forall>j < size d. covers (start d j) (stop d j) x \<longrightarrow> j \<le> i \<and> be_nat (start d j) \<le> be_nat (start d i)"
  have "rows ! i \<in> set rows" using i n by simp
  moreover have "be_nat (s row) \<le> be_nat (s (rows ! i))" if "row \<in> set rows" "covers (s row) (e row) x" for row
    using that i at n by (auto simp: in_set_conv_nth)
  ultimately show ?thesis using i at by (auto simp: answers_def intro!: disjI2 bexI [of _ "rows ! i"])
qed

end

section \<open>The running maximum\<close>

text \<open>The loop that fills \<^verbatim>\<open>maxend\<close>: the second argument is \<^verbatim>\<open>mx\<close>, \<open>None\<close> for nil.\<close>

definition new_max :: "u8 list option \<Rightarrow> u8 list \<Rightarrow> u8 list" where
  "new_max mx e = (case mx of None \<Rightarrow> e | Some m \<Rightarrow> if 0 < bytes_Compare e m then e else m)"

fun running_max :: "u8 list option \<Rightarrow> u8 list list \<Rightarrow> u8 list list" where
  "running_max mx [] = []"
| "running_max mx (e # es) = new_max mx e # running_max (Some (new_max mx e)) es"

lemma length_running_max [simp]: "length (running_max mx es) = length es"
  by (induction es arbitrary: mx) auto

lemma new_max_width:
  "length e = w \<Longrightarrow> (\<And>m. mx = Some m \<Longrightarrow> length m = w) \<Longrightarrow> length (new_max mx e) = w"
  by (auto simp: new_max_def split: option.splits)

lemma running_max_width:
  "\<forall>e\<in>set es. length e = w \<Longrightarrow> (\<And>m. mx = Some m \<Longrightarrow> length m = w) \<Longrightarrow>
     m \<in> set (running_max mx es) \<Longrightarrow> length m = w"
proof (induction es arbitrary: mx)
  case (Cons e es)
  have "length (new_max mx e) = w" using Cons.prems(1,2) by (intro new_max_width) auto
  with Cons show ?case by (metis list.set_intros(2) option.inject running_max.simps(2) set_ConsD)
qed simp

lemma running_max_bound:
  assumes "\<forall>e\<in>set es. length e = w" and "\<And>m. mx = Some m \<Longrightarrow> length m = w"
  shows "j < length es \<Longrightarrow> (\<forall>m. mx = Some m \<longrightarrow> be_nat m \<le> be_nat (running_max mx es ! j))
    \<and> (\<forall>i\<le>j. be_nat (es ! i) \<le> be_nat (running_max mx es ! j))"
  using assms
proof (induction es arbitrary: mx j)
  case (Cons e es)
  have w: "length (new_max mx e) = w" using Cons.prems(2,3) by (intro new_max_width) auto
  have le: "be_nat e \<le> be_nat (new_max mx e)" "\<And>m. mx = Some m \<Longrightarrow> be_nat m \<le> be_nat (new_max mx e)"
    using Cons.prems by (auto simp: new_max_def bytes_Compare_num split: option.splits)
  show ?case
  proof (cases j)
    case 0
    with le show ?thesis by simp
  next
    case (Suc k)
    have IH: "be_nat (new_max mx e) \<le> be_nat (running_max (Some (new_max mx e)) es ! k)
        \<and> (\<forall>i\<le>k. be_nat (es ! i) \<le> be_nat (running_max (Some (new_max mx e)) es ! k))"
      using Cons.IH [of k "Some (new_max mx e)"] Cons.prems w Suc by auto
    then show ?thesis
      using le by (auto simp: Suc nth_Cons split: nat.splits intro: order_trans)
  qed
qed simp

section \<open>Reading rows\<close>

text \<open>
  One call of \<^verbatim>\<open>csv.Reader.Read\<close>: a record, an error that is not the end, or the end of the
  file. The loops of both loaders skip every error, so a reader that never reports the end keeps
  them going for ever: they are partial functions.
\<close>

datatype csv_read = Record "string list" | ReadError | EOF

partial_function (option) read_rows ::
  "(string list \<Rightarrow> 'row option) \<Rightarrow> (nat \<Rightarrow> csv_read) \<Rightarrow> nat \<Rightarrow> 'row list \<Rightarrow> 'row list option" where
  "read_rows use read k rows =
     (case read k of
        EOF \<Rightarrow> Some rows
      | ReadError \<Rightarrow> read_rows use read (Suc k) rows
      | Record rec \<Rightarrow>
          read_rows use read (Suc k) (case use rec of None \<Rightarrow> rows | Some r \<Rightarrow> rows @ [r]))"

definition used_rows :: "(string list \<Rightarrow> 'row option) \<Rightarrow> csv_read list \<Rightarrow> 'row list" where
  "used_rows use rs =
     concat (map (\<lambda>r. case r of Record rec \<Rightarrow> (case use rec of None \<Rightarrow> [] | Some x \<Rightarrow> [x]) | _ \<Rightarrow> []) rs)"

lemma read_rows_complete:
  assumes "read (k + n) = EOF" and "\<And>i. i < n \<Longrightarrow> read (k + i) \<noteq> EOF"
  shows "read_rows use read k rows = Some (rows @ used_rows use (map (\<lambda>i. read (k + i)) [0..<n]))"
  using assms
proof (induction n arbitrary: k rows)
  case 0
  then show ?case by (simp add: read_rows.simps [of use read k] used_rows_def)
next
  case (Suc n)
  have m: "map (\<lambda>i. read (k + i)) [0..<Suc n] = read k # map (\<lambda>i. read (Suc k + i)) [0..<n]"
    by (simp add: upt_rec [of 0 "Suc n"] map_Suc_upt [symmetric] del: upt_Suc)
  have "read (Suc k + i) \<noteq> EOF" if "i < n" for i using Suc.prems(2) [of "Suc i"] that by simp
  with Suc.IH [of "Suc k"] Suc.prems(1)
  have IH: "read_rows use read (Suc k) rows' = Some (rows' @ used_rows use (map (\<lambda>i. read (Suc k + i)) [0..<n]))"
    for rows' by simp
  have "read k \<noteq> EOF" using Suc.prems(2) [of 0] by simp
  then show ?case
    unfolding m by (simp add: read_rows.simps [of use read k] IH used_rows_def split: csv_read.splits option.splits)
qed

lemma read_rows_returns:
  assumes "read_rows use read k rows = Some out"
  shows "\<exists>n\<ge>k. read n = EOF"
proof (rule read_rows.raw_induct [where P = "\<lambda>use read k rows out. \<exists>n\<ge>k. read n = EOF", OF _ assms], goal_cases)
  case (1 rr use read k rows out)
  show ?case
  proof (cases "read k")
    case (Record rec)
    with 1 have "\<exists>n\<ge>Suc k. read n = EOF" by auto
    then show ?thesis using Suc_leD by blast
  next
    case ReadError
    with 1 have "\<exists>n\<ge>Suc k. read n = EOF" by auto
    then show ?thesis using Suc_leD by blast
  qed blast
qed

lemma read_rows_Some:
  assumes "read_rows use read 0 [] = Some out"
  obtains n where "read n = EOF" and "\<forall>i<n. read i \<noteq> EOF" and "out = used_rows use (map read [0..<n])"
proof -
  from read_rows_returns [OF assms] have "\<exists>n. read n = EOF" by blast
  then obtain n where n: "read n = EOF" "\<forall>i<n. read i \<noteq> EOF"
    unfolding exists_least_iff [of "\<lambda>n. read n = EOF"] by blast
  with read_rows_complete [of read 0 n use "[]"] assms have "out = used_rows use (map read [0..<n])" by simp
  with n that show thesis by blast
qed

lemma read_rows_from:
  assumes "read_rows use read 0 [] = Some out" and "r \<in> set out"
  shows "\<exists>rec. use rec = Some r"
proof -
  obtain n where "out = used_rows use (map read [0..<n])" using read_rows_Some [OF assms(1)] .
  with assms(2) show ?thesis by (auto simp: used_rows_def split: csv_read.splits option.splits)
qed

lemma read_rows_iff: "(\<exists>out. read_rows use read 0 [] = Some out) \<longleftrightarrow> (\<exists>n. read n = EOF)"
proof
  assume "\<exists>n. read n = EOF"
  then obtain n where n: "read n = EOF" "\<forall>i<n. read i \<noteq> EOF"
    unfolding exists_least_iff [of "\<lambda>n. read n = EOF"] by blast
  with read_rows_complete [of read 0 n use "[]"] show "\<exists>out. read_rows use read 0 [] = Some out" by simp
qed (use read_rows_returns in blast)

lemma is_sort_of_set: "is_sort_of lt xs ys \<Longrightarrow> set ys = set xs"
  by (metis is_sort_of_def set_mset_mset)

lemma answers_cong: "set rows = set rows' \<Longrightarrow> answers s e v miss rows x r = answers s e v miss rows' x r"
  by (simp add: answers_def)

text \<open>The \<^verbatim>\<open>less\<close> of both sorts, on start keys: a strict weak order.\<close>

lemma sorted_starts:
  assumes "sorted_wrt (\<lambda>a b. \<not> bytes_Compare (s b) (s a) < 0) rows" and "\<forall>r\<in>set rows. length (s r) = w"
  shows "sorted (map (be_nat \<circ> s) rows)"
proof -
  have "sorted_wrt (\<lambda>a b. be_nat (s a) \<le> be_nat (s b)) rows"
    using assms(1) by (rule sorted_wrt_mono_rel [rotated])
      (use assms(2) in \<open>auto simp: bytes_Compare_num split: if_splits\<close>)
  then show ?thesis by (simp add: sorted_map)
qed

lemma bytes_Compare_less: "bytes_Compare xs ys < 0 \<longleftrightarrow> ord_class.lexordp xs ys"
  by (induction xs ys rule: bytes_Compare.induct) auto

lemma starts_less_order: "less_order (\<lambda>a b. bytes_Compare (s a) (s b) < 0)"
  unfolding bytes_Compare_less
proof
  fix x y z
  show "\<not> ord_class.lexordp (s x) (s x)" by (rule lexordp_irreflexive')
  show "ord_class.lexordp (s x) (s y) \<Longrightarrow> ord_class.lexordp (s y) (s z) \<Longrightarrow> ord_class.lexordp (s x) (s z)"
    by (rule lexordp_trans)
  show "\<not> ord_class.lexordp (s x) (s y) \<Longrightarrow> \<not> ord_class.lexordp (s y) (s z) \<Longrightarrow> \<not> ord_class.lexordp (s x) (s z)"
    by (metis lexordp_antisym lexordp_linear lexordp_trans)
qed

end
