(* ===== verification/GeoIP.thy ===== *)
theory GeoIP
  imports RangeIndex
begin

text \<open>
  Model of \<^verbatim>\<open>web/netmon/geoip.go\<close>: the country database, its construction from CSV rows,
  the lookup, and the published state. \<^verbatim>\<open>sort.Slice\<close> is the parameter \<open>srt\<close>, known only
  by its contract; a file either fails to open or yields a reader.
\<close>

section \<open>The code\<close>

record countryDB =
  c_starts :: "u8 list list"
  c_ends :: "u8 list list"
  c_ccs :: "string list"
  c_maxend :: "u8 list list"
  c_width :: nat

record dbRow =
  row_start :: "u8 list"
  row_end :: "u8 list"
  row_cc :: string

definition toFixed :: "IP \<Rightarrow> nat \<Rightarrow> u8 list option" where
  "toFixed ip width =
     (if width = 4 then To4 ip
      else if To4 ip \<noteq> None then None
      else To16 ip)"

text \<open>The body of the reading loop: the row a record adds.\<close>

definition use_row :: "nat \<Rightarrow> string list \<Rightarrow> dbRow option" where
  "use_row width rec =
     (if length rec < 3 then None
      else case (ParseIP (rec ! 0), ParseIP (rec ! 1)) of
          (Some si, Some ei) \<Rightarrow>
            (case (toFixed si width, toFixed ei width) of
               (Some sb, Some eb) \<Rightarrow> Some \<lparr>row_start = sb, row_end = eb, row_cc = rec ! 2\<rparr>
             | _ \<Rightarrow> None)
        | _ \<Rightarrow> None)"

definition row_less :: "dbRow \<Rightarrow> dbRow \<Rightarrow> bool" where
  "row_less a b \<longleftrightarrow> bytes_Compare (row_start a) (row_start b) < 0"

definition columns :: "nat \<Rightarrow> dbRow list \<Rightarrow> countryDB" where
  "columns width rows =
     \<lparr>c_starts = map row_start rows, c_ends = map row_end rows, c_ccs = map row_cc rows,
      c_maxend = running_max None (map row_end rows), c_width = width\<rparr>"

definition newCountryDB ::
  "(dbRow list \<Rightarrow> dbRow list) \<Rightarrow> string \<Rightarrow> string + (nat \<Rightarrow> csv_read) \<Rightarrow> nat \<Rightarrow> (string + countryDB) option" where
  "newCountryDB srt path file width =
     (case file of
        Inl err \<Rightarrow> Some (Inl err)
      | Inr read \<Rightarrow> do {
          rows \<leftarrow> read_rows (use_row width) read 0 [];
          Some (if rows = [] then Inl (''empty or corrupt geoip csv: '' @ path)
                else Inr (columns width (srt rows)))
        })"

primrec lookup_walk :: "countryDB \<Rightarrow> u8 list \<Rightarrow> nat \<Rightarrow> string" where
  "lookup_walk d x 0 = ''''"
| "lookup_walk d x (Suc j) =
     (if bytes_Compare (c_maxend d ! j) x \<ge> 0 then
        (if bytes_Compare (c_starts d ! j) x \<le> 0 \<and> bytes_Compare x (c_ends d ! j) \<le> 0 then c_ccs d ! j
         else lookup_walk d x j)
      else '''')"

definition country_lookup :: "countryDB \<Rightarrow> u8 list \<Rightarrow> string" where
  "country_lookup d x =
     (if length x \<noteq> c_width d then ''''
      else
        let n = length (c_starts d);
            idx = Search n (\<lambda>k. bytes_Compare (c_starts d ! k) x > 0)
        in if idx < 1 then ''''
           else let i = idx - 1 in
             if bytes_Compare x (c_ends d ! i) \<le> 0 then c_ccs d ! i
             else lookup_walk d x i)"

record geoState =
  geo_v4 :: "countryDB option"
  geo_v6 :: "countryDB option"
  geo_ready :: bool

definition geo0 :: geoState where
  "geo0 = \<lparr>geo_v4 = None, geo_v6 = None, geo_ready = False\<rparr>"

type_synonym csv_files = "string \<Rightarrow> string + (nat \<Rightarrow> csv_read)"

definition loadGeoIP ::
  "(dbRow list \<Rightarrow> dbRow list) \<Rightarrow> csv_files \<Rightarrow> string \<Rightarrow> geoState \<Rightarrow> geoState option" where
  "loadGeoIP srt files geodir st = do {
     let p4 = in_dir geodir ''ipv4.csv'';
     let p6 = in_dir geodir ''ipv6.csv'';
     v4 \<leftarrow> newCountryDB srt p4 (files p4) 4;
     v6 \<leftarrow> newCountryDB srt p6 (files p6) 16;
     Some (case (v4, v6) of
         (Inr d4, Inr d6) \<Rightarrow> st\<lparr>geo_v4 := Some d4, geo_v6 := Some d6, geo_ready := True\<rparr>
       | _ \<Rightarrow> st\<lparr>geo_ready := False\<rparr>)
   }"

definition Ready :: "geoState \<Rightarrow> bool" where
  "Ready st = geo_ready st"

definition country :: "geoState \<Rightarrow> string \<Rightarrow> string" where
  "country st ip =
     (if \<not> geo_ready st then ''''
      else case ParseIP ip of
          None \<Rightarrow> ''''
        | Some a \<Rightarrow>
            (case To4 a of
               Some b4 \<Rightarrow> (case geo_v4 st of None \<Rightarrow> '''' | Some d \<Rightarrow> country_lookup d b4)
             | None \<Rightarrow>
                 (case geo_v6 st of
                    None \<Rightarrow> ''''
                  | Some d \<Rightarrow> (case To16 a of None \<Rightarrow> '''' | Some b16 \<Rightarrow> country_lookup d b16))))"

section \<open>A database built from rows\<close>

definition wf_countryDB :: "countryDB \<Rightarrow> bool" where
  "wf_countryDB d \<longleftrightarrow>
     length (c_ends d) = length (c_starts d) \<and> length (c_ccs d) = length (c_starts d)
     \<and> c_maxend d = running_max None (c_ends d)
     \<and> (\<forall>s\<in>set (c_starts d). length s = c_width d) \<and> (\<forall>e\<in>set (c_ends d). length e = c_width d)
     \<and> sorted (map be_nat (c_starts d))"

definition cc_at :: "countryDB \<Rightarrow> nat option \<Rightarrow> string" where
  "cc_at d r = (case r of None \<Rightarrow> '''' | Some i \<Rightarrow> c_ccs d ! i)"

lemma lookup_walk_eq:
  "lookup_walk d x n = cc_at d (walk_back (\<lambda>i. c_starts d ! i) (\<lambda>i. c_ends d ! i) (\<lambda>i. c_maxend d ! i) x n)"
  by (induction n) (auto simp: cc_at_def covers_def)

interpretation geo: range_index wf_countryDB c_width "\<lambda>d. length (c_starts d)"
  "\<lambda>d i. c_starts d ! i" "\<lambda>d i. c_ends d ! i" "\<lambda>d i. c_maxend d ! i" country_lookup cc_at
proof (unfold_locales, goal_cases)
  case (1 d i)
  then show ?case
    using running_max_width [of "c_ends d" "c_width d" None "c_maxend d ! i"]
    by (auto simp: wf_countryDB_def)
next
  case (2 d i j)
  then show ?case by (auto simp: wf_countryDB_def sorted_iff_nth_mono)
next
  case (3 d i j)
  then show ?case
    using running_max_bound [of "c_ends d" "c_width d" None j] by (auto simp: wf_countryDB_def)
next
  case (4 d x)
  then show ?case
    by (cases "Search (length (c_starts d)) (\<lambda>k. 0 < bytes_Compare (c_starts d ! k) x)")
      (auto simp: country_lookup_def range_find_def lookup_walk_eq cc_at_def Let_def)
qed

interpretation geo_rows: less_order row_less
  unfolding row_less_def by (rule starts_less_order)

lemma toFixed_width: "width = 4 \<or> width = 16 \<Longrightarrow> toFixed ip width = Some b \<Longrightarrow> length b = width"
  by (auto simp: toFixed_def To16_def v4InV6Prefix_def dest: To4_length split: if_splits)

lemma use_row_width:
  assumes "width = 4 \<or> width = 16" and "use_row width rec = Some r"
  shows "length (row_start r) = width \<and> length (row_end r) = width"
  using assms(2) by (auto simp: use_row_def dest: toFixed_width [OF assms(1)] split: if_splits option.splits)

lemma wf_columns:
  assumes "is_sort_of row_less rows srt" and "\<forall>r\<in>set rows. length (row_start r) = w \<and> length (row_end r) = w"
  shows "wf_countryDB (columns w srt)"
proof -
  have s: "set srt = set rows" using assms(1) by (rule is_sort_of_set)
  have "sorted (map (be_nat \<circ> row_start) srt)"
    using assms s by (intro sorted_starts) (auto simp: is_sort_of_def row_less_def)
  then show ?thesis using assms(2) s by (simp add: wf_countryDB_def columns_def)
qed

lemma columns_answers:
  assumes "is_sort_of row_less rows (srt rows)"
    and "\<forall>r\<in>set rows. length (row_start r) = w \<and> length (row_end r) = w" and "length x = w"
  shows "answers row_start row_end row_cc '''' rows x (country_lookup (columns w (srt rows)) x)"
proof -
  let ?d = "columns w (srt rows)"
  have "answers row_start row_end row_cc (cc_at ?d None) (srt rows) x (country_lookup ?d x)"
    using wf_columns [OF assms(1,2)] by (rule geo.lookup_answers) (auto simp: columns_def cc_at_def assms(3))
  then show ?thesis
    unfolding answers_cong [OF is_sort_of_set [OF assms(1)]] by (simp add: cc_at_def)
qed

text \<open>The database a reader with rows \<open>rows\<close> gives.\<close>

definition usable_rows :: "nat \<Rightarrow> (nat \<Rightarrow> csv_read) \<Rightarrow> dbRow list \<Rightarrow> bool" where
  "usable_rows width read rows \<longleftrightarrow> read_rows (use_row width) read 0 [] = Some rows \<and> rows \<noteq> []"

lemma usable_rows_width:
  "usable_rows w read rows \<Longrightarrow> w = 4 \<or> w = 16 \<Longrightarrow> \<forall>r\<in>set rows. length (row_start r) = w \<and> length (row_end r) = w"
  using read_rows_from [of "use_row w" read rows] use_row_width [of w] unfolding usable_rows_def by metis

text \<open>
  C17: Once both country files are loaded, \<^verbatim>\<open>country\<close> answers for every address from the
  rows of its family: empty when no row covers it, and otherwise the code of a covering row with
  the largest start, whatever \<^verbatim>\<open>sort.Slice\<close> does with equal starts and however ranges nest.
\<close>

theorem country_answers:
  assumes "files (in_dir geodir ''ipv4.csv'') = Inr read4" and "files (in_dir geodir ''ipv6.csv'') = Inr read6"
    and "usable_rows 4 read4 rows4" and "usable_rows 16 read6 rows6"
    and "is_sort_of row_less rows4 (srt rows4)" and "is_sort_of row_less rows6 (srt rows6)"
    and "ParseIP ip = Some a"
  shows "\<exists>st'. loadGeoIP srt files geodir st = Some st' \<and> Ready st'
    \<and> (case To4 a of
         Some k \<Rightarrow> answers row_start row_end row_cc '''' rows4 k (country st' ip)
       | None \<Rightarrow> answers row_start row_end row_cc '''' rows6 a (country st' ip))"
proof -
  let ?d4 = "columns 4 (srt rows4)" and ?d6 = "columns 16 (srt rows6)"
  let ?st = "st\<lparr>geo_v4 := Some ?d4, geo_v6 := Some ?d6, geo_ready := True\<rparr>"
  have load: "loadGeoIP srt files geodir st = Some ?st"
    using assms(3,4) by (simp add: loadGeoIP_def newCountryDB_def assms(1,2) usable_rows_def Let_def)
  have a: "length a = 16" using assms(7) by (rule ParseIP_length)
  then have "To16 a = Some a" by (simp add: To16_def)
  then show ?thesis
    using columns_answers [where srt = srt, OF assms(5) usable_rows_width [OF assms(3)]]
      columns_answers [where srt = srt, OF assms(6) usable_rows_width [OF assms(4)] a]
    by (intro exI [of _ ?st])
      (auto simp: load Ready_def country_def assms(7) To4_length split: option.splits)
qed

definition one_record :: "string list \<Rightarrow> nat \<Rightarrow> csv_read" where
  "one_record rec k = (if k = 0 then Record rec else EOF)"

lemma read_one_record:
  "use rec = Some r \<Longrightarrow> read_rows use (one_record rec) 0 [] = Some [r]"
  by (simp add: read_rows.simps one_record_def)

lemma country_answers_witness:
  defines "files \<equiv> \<lambda>p. if p = in_dir ''/geo'' ''ipv4.csv'' then Inr (one_record [''8.8.8.0'', ''8.8.8.255'', ''US''])
      else if p = in_dir ''/geo'' ''ipv6.csv'' then Inr (one_record [''2a00::'', ''2a00:ffff::'', ''DE''])
      else Inl ''missing''"
  shows "\<exists>st'. loadGeoIP (SliceStable row_less) files ''/geo'' geo0 = Some st' \<and> country st' ''8.8.8.8'' = ''US''"
proof -
  let ?r4 = "\<lparr>row_start = [8, 8, 8, 0], row_end = [8, 8, 8, 255], row_cc = ''US''\<rparr>"
  let ?r6 = "\<lparr>row_start = [0x2a, 0, 0, 0, 0, 0, 0, 0, 0, 0, 0, 0, 0, 0, 0, 0],
    row_end = [0x2a, 0, 0xff, 0xff, 0, 0, 0, 0, 0, 0, 0, 0, 0, 0, 0, 0], row_cc = ''DE''\<rparr>"
  have "use_row 4 [''8.8.8.0'', ''8.8.8.255'', ''US''] = Some ?r4"
    "use_row 16 [''2a00::'', ''2a00:ffff::'', ''DE''] = Some ?r6" by code_simp+
  then have u: "usable_rows 4 (one_record [''8.8.8.0'', ''8.8.8.255'', ''US'']) [?r4]"
    "usable_rows 16 (one_record [''2a00::'', ''2a00:ffff::'', ''DE'']) [?r6]"
    by (simp_all add: usable_rows_def read_one_record)
  have f: "files (in_dir ''/geo'' ''ipv4.csv'') = Inr (one_record [''8.8.8.0'', ''8.8.8.255'', ''US''])"
    "files (in_dir ''/geo'' ''ipv6.csv'') = Inr (one_record [''2a00::'', ''2a00:ffff::'', ''DE''])"
    by (simp_all add: files_def in_dir_def)
  have p: "ParseIP ''8.8.8.8'' = Some (v4InV6Prefix @ [8, 8, 8, 8])" by code_simp
  have t: "To4 (v4InV6Prefix @ [8, 8, 8, 8]) = Some [8, 8, 8, 8]" by simp
  have c: "covers [8, 8, 8, 0] [8, 8, 8, 255] [8, 8, 8, 8]" by code_simp
  from country_answers [OF f u geo_rows.SliceStable_is_sort geo_rows.SliceStable_is_sort p, of geo0] t c
  show ?thesis by (auto simp: answers_def)
qed

text \<open>
  C28: The loader comes back exactly when the reader reaches the end of the file: a read error
  that persists is retried for ever.
\<close>

theorem newCountryDB_returns:
  "(\<exists>r. newCountryDB srt path (Inr read) width = Some r) \<longleftrightarrow> (\<exists>n. read n = EOF)"
  using read_rows_iff [of "use_row width" read] by (auto simp: newCountryDB_def)

end
