(* ===== verification/ASN.thy ===== *)
theory ASN
  imports GeoIP
begin

text \<open>
  Model of \<^verbatim>\<open>web/netmon/asn.go\<close>: the same search as the country database over keys packed
  into flat byte slices, row \<open>i\<close> at offset \<open>i * width\<close>. The second interpretation of the
  range index discharges its laws for that layout.
\<close>

section \<open>The code\<close>

record asnDB =
  a_width :: nat
  a_n :: nat
  a_starts :: "u8 list"
  a_ends :: "u8 list"
  a_maxend :: "u8 list"
  a_nums :: "u32 list"
  a_names :: "string list"

definition strided :: "nat \<Rightarrow> u8 list \<Rightarrow> nat \<Rightarrow> u8 list" where
  "strided w bs i = take w (drop (i * w) bs)"

definition startAt :: "asnDB \<Rightarrow> nat \<Rightarrow> u8 list" where
  "startAt d i = strided (a_width d) (a_starts d) i"

definition endAt :: "asnDB \<Rightarrow> nat \<Rightarrow> u8 list" where
  "endAt d i = strided (a_width d) (a_ends d) i"

definition maxendAt :: "asnDB \<Rightarrow> nat \<Rightarrow> u8 list" where
  "maxendAt d i = strided (a_width d) (a_maxend d) i"

record asnRow =
  ar_start :: "u8 list"
  ar_end :: "u8 list"
  ar_num :: u32
  ar_name :: string

text \<open>The number column keeps \<^verbatim>\<open>ParseUint\<close>'s value even when it reports an error.\<close>

definition use_asn_row :: "nat \<Rightarrow> string list \<Rightarrow> asnRow option" where
  "use_asn_row width rec =
     (if length rec < 4 then None
      else case (ParseIP (rec ! 0), ParseIP (rec ! 1)) of
          (Some si, Some ei) \<Rightarrow>
            (case (toFixed si width, toFixed ei width) of
               (Some sb, Some eb) \<Rightarrow>
                 Some \<lparr>ar_start = sb, ar_end = eb,
                   ar_num = word_of_nat (fst (ParseUint 32 (TrimSpace (rec ! 2)))),
                   ar_name = TrimSpace (rec ! 3)\<rparr>
             | _ \<Rightarrow> None)
        | _ \<Rightarrow> None)"

definition asn_less :: "asnRow \<Rightarrow> asnRow \<Rightarrow> bool" where
  "asn_less a b \<longleftrightarrow> bytes_Compare (ar_start a) (ar_start b) < 0"

text \<open>\<^verbatim>\<open>copy(dst[off:], src)\<close>, and the loop that fills the columns.\<close>

definition copy_at :: "nat \<Rightarrow> u8 list \<Rightarrow> u8 list \<Rightarrow> u8 list" where
  "copy_at off src dst =
     (let n = min (length src) (length dst - off) in take off dst @ take n src @ drop (off + n) dst)"

fun fill_columns :: "nat \<Rightarrow> u8 list option \<Rightarrow> nat \<Rightarrow> asnRow list \<Rightarrow> asnDB \<Rightarrow> asnDB" where
  "fill_columns w mx i [] db = db"
| "fill_columns w mx i (row # rows) db =
     (let mx' = new_max mx (ar_end row)
      in fill_columns w (Some mx') (Suc i) rows
        (db\<lparr>a_starts := copy_at (i * w) (ar_start row) (a_starts db),
           a_ends := copy_at (i * w) (ar_end row) (a_ends db),
           a_maxend := copy_at (i * w) mx' (a_maxend db),
           a_nums := (a_nums db)[i := ar_num row],
           a_names := (a_names db)[i := ar_name row]\<rparr>))"

definition asn_columns :: "nat \<Rightarrow> asnRow list \<Rightarrow> asnDB" where
  "asn_columns w rows =
     (let n = length rows in
      fill_columns w None 0 rows
        \<lparr>a_width = w, a_n = n, a_starts = replicate (n * w) 0, a_ends = replicate (n * w) 0,
         a_maxend = replicate (n * w) 0, a_nums = replicate n 0, a_names = replicate n ''''\<rparr>)"

definition newASNDB ::
  "(asnRow list \<Rightarrow> asnRow list) \<Rightarrow> string \<Rightarrow> string + (nat \<Rightarrow> csv_read) \<Rightarrow> nat \<Rightarrow> (string + asnDB) option" where
  "newASNDB srt path file width =
     (case file of
        Inl err \<Rightarrow> Some (Inl err)
      | Inr read \<Rightarrow> do {
          rows \<leftarrow> read_rows (use_asn_row width) read 0 [];
          Some (if rows = [] then Inl (''empty or corrupt asn csv: '' @ path)
                else Inr (asn_columns width (srt rows)))
        })"

primrec find_walk :: "asnDB \<Rightarrow> u8 list \<Rightarrow> nat \<Rightarrow> int" where
  "find_walk d x 0 = -1"
| "find_walk d x (Suc j) =
     (if bytes_Compare (maxendAt d j) x \<ge> 0 then
        (if bytes_Compare (startAt d j) x \<le> 0 \<and> bytes_Compare x (endAt d j) \<le> 0 then int j
         else find_walk d x j)
      else -1)"

text \<open>\<^verbatim>\<open>find\<close> on a possibly nil database.\<close>

definition asn_find :: "asnDB option \<Rightarrow> u8 list \<Rightarrow> int" where
  "asn_find d0 x =
     (case d0 of
        None \<Rightarrow> -1
      | Some d \<Rightarrow>
          if a_n d = 0 \<or> length x \<noteq> a_width d then -1
          else
            let idx = Search (a_n d) (\<lambda>k. bytes_Compare (startAt d k) x > 0) in
            if idx < 1 then -1
            else let i = idx - 1 in
              if bytes_Compare x (endAt d i) \<le> 0 then int i
              else find_walk d x i)"

record asnState =
  asn_v4 :: "asnDB option"
  asn_v6 :: "asnDB option"
  asn_ready :: bool

definition asn0 :: asnState where
  "asn0 = \<lparr>asn_v4 = None, asn_v6 = None, asn_ready = False\<rparr>"

definition loadASN ::
  "(asnRow list \<Rightarrow> asnRow list) \<Rightarrow> csv_files \<Rightarrow> string \<Rightarrow> asnState \<Rightarrow> asnState option" where
  "loadASN srt files geodir st = do {
     let p4 = in_dir geodir ''asn-ipv4.csv'';
     let p6 = in_dir geodir ''asn-ipv6.csv'';
     v4 \<leftarrow> newASNDB srt p4 (files p4) 4;
     v6 \<leftarrow> newASNDB srt p6 (files p6) 16;
     Some (case (v4, v6) of
         (Inr d4, Inr d6) \<Rightarrow> st\<lparr>asn_v4 := Some d4, asn_v6 := Some d6, asn_ready := True\<rparr>
       | _ \<Rightarrow> st\<lparr>asn_ready := False\<rparr>)
   }"

definition ASNReady :: "asnState \<Rightarrow> bool" where
  "ASNReady st = asn_ready st"

definition asn_entry :: "asnDB option \<Rightarrow> u8 list \<Rightarrow> u32 \<times> string" where
  "asn_entry d key =
     (let i = asn_find d key in
      if 0 \<le> i then (case d of Some d' \<Rightarrow> (a_nums d' ! nat i, a_names d' ! nat i) | None \<Rightarrow> (0, ''''))
      else (0, ''''))"

definition asnLookup :: "asnState \<Rightarrow> string \<Rightarrow> u32 \<times> string" where
  "asnLookup st ip =
     (if \<not> asn_ready st then (0, '''')
      else case ParseIP ip of
          None \<Rightarrow> (0, '''')
        | Some a \<Rightarrow>
            (case To4 a of
               Some b4 \<Rightarrow> asn_entry (asn_v4 st) b4
             | None \<Rightarrow> (case To16 a of None \<Rightarrow> (0, '''') | Some b16 \<Rightarrow> asn_entry (asn_v6 st) b16)))"

section \<open>The flat layout\<close>

lemma length_copy_at [simp]: "off \<le> length dst \<Longrightarrow> length (copy_at off src dst) = length dst"
  by (auto simp: copy_at_def Let_def)

lemma copy_at_append:
  "length pre = off \<Longrightarrow> length src \<le> length post \<Longrightarrow> copy_at off src (pre @ post) = (pre @ src) @ drop (length src) post"
  by (simp add: copy_at_def Let_def min_def)

lemma set_next: "length P = i \<Longrightarrow> (P @ replicate (Suc k) z)[i := v] = (P @ [v]) @ replicate k z"
  by (simp add: list_update_append)

lemma fill_columns_eq:
  assumes "\<forall>r\<in>set rows. length (ar_start r) = w \<and> length (ar_end r) = w"
    and "\<And>m. mx = Some m \<Longrightarrow> length m = w"
    and "length S = i * w" "length E = i * w" "length M = i * w" "length N = i" "length L = i"
  shows "fill_columns w mx i rows
      \<lparr>a_width = w, a_n = n, a_starts = S @ replicate (length rows * w) 0,
       a_ends = E @ replicate (length rows * w) 0, a_maxend = M @ replicate (length rows * w) 0,
       a_nums = N @ replicate (length rows) 0, a_names = L @ replicate (length rows) ''''\<rparr>
    = \<lparr>a_width = w, a_n = n, a_starts = S @ concat (map ar_start rows), a_ends = E @ concat (map ar_end rows),
       a_maxend = M @ concat (running_max mx (map ar_end rows)), a_nums = N @ map ar_num rows,
       a_names = L @ map ar_name rows\<rparr>"
  using assms
proof (induction rows arbitrary: mx i S E M N L)
  case (Cons r rows)
  let ?m = "new_max mx (ar_end r)"
  have w: "length (ar_start r) = w" "length (ar_end r) = w" "length ?m = w"
    using Cons.prems new_max_width [of "ar_end r" w mx] by simp_all
  have IH: "fill_columns w (Some ?m) (Suc i) rows
      \<lparr>a_width = w, a_n = n, a_starts = (S @ ar_start r) @ replicate (length rows * w) 0,
       a_ends = (E @ ar_end r) @ replicate (length rows * w) 0, a_maxend = (M @ ?m) @ replicate (length rows * w) 0,
       a_nums = (N @ [ar_num r]) @ replicate (length rows) 0, a_names = (L @ [ar_name r]) @ replicate (length rows) ''''\<rparr>
    = \<lparr>a_width = w, a_n = n, a_starts = (S @ ar_start r) @ concat (map ar_start rows), a_ends = (E @ ar_end r) @ concat (map ar_end rows),
       a_maxend = (M @ ?m) @ concat (running_max (Some ?m) (map ar_end rows)), a_nums = (N @ [ar_num r]) @ map ar_num rows,
       a_names = (L @ [ar_name r]) @ map ar_name rows\<rparr>"
    using Cons.prems w by (intro Cons.IH) auto
  have c: "copy_at (i * w) src (P @ replicate (length (r # rows) * w) 0) = (P @ src) @ replicate (length rows * w) 0"
    if "length src = w" "length P = i * w" for src P
    using that by (simp add: copy_at_append)
  note u = set_next [of _ i "length rows"]
  show ?case
    unfolding fill_columns.simps Let_def asnDB.update_convs asnDB.select_convs length_Cons
    using IH Cons.prems
    by (simp only: c [unfolded length_Cons] u w)
      (simp only: list.map concat.simps running_max.simps append_assoc append_Cons append_Nil)
qed simp

lemma asn_columns_eq:
  assumes "\<forall>r\<in>set rows. length (ar_start r) = w \<and> length (ar_end r) = w"
  shows "asn_columns w rows = \<lparr>a_width = w, a_n = length rows, a_starts = concat (map ar_start rows),
    a_ends = concat (map ar_end rows), a_maxend = concat (running_max None (map ar_end rows)),
    a_nums = map ar_num rows, a_names = map ar_name rows\<rparr>"
  using fill_columns_eq [OF assms, of None "[]" 0 "[]" "[]" "[]" "[]" "length rows"]
  by (simp add: asn_columns_def Let_def)

lemma strided_concat: "\<forall>x\<in>set xs. length x = w \<Longrightarrow> i < length xs \<Longrightarrow> strided w (concat xs) i = xs ! i"
proof (induction xs arbitrary: i)
  case (Cons x xs)
  then show ?case by (cases i) (auto simp: strided_def)
qed simp

definition wf_asnDB :: "asnDB \<Rightarrow> bool" where
  "wf_asnDB d \<longleftrightarrow> (\<exists>rows. (\<forall>r\<in>set rows. length (ar_start r) = a_width d \<and> length (ar_end r) = a_width d)
     \<and> sorted (map (be_nat \<circ> ar_start) rows) \<and> d = asn_columns (a_width d) rows)"

lemma asn_at:
  assumes "\<forall>r\<in>set rows. length (ar_start r) = w \<and> length (ar_end r) = w" and "i < length rows"
  shows "startAt (asn_columns w rows) i = ar_start (rows ! i)"
    and "endAt (asn_columns w rows) i = ar_end (rows ! i)"
    and "maxendAt (asn_columns w rows) i = running_max None (map ar_end rows) ! i"
proof -
  have "\<forall>m\<in>set (running_max None (map ar_end rows)). length m = w"
    using assms(1) running_max_width [of "map ar_end rows" w None] by auto
  then show "startAt (asn_columns w rows) i = ar_start (rows ! i)"
    "endAt (asn_columns w rows) i = ar_end (rows ! i)"
    "maxendAt (asn_columns w rows) i = running_max None (map ar_end rows) ! i"
    using assms
    by (simp_all add: asn_columns_eq [OF assms(1)] startAt_def endAt_def maxendAt_def strided_concat)
qed

definition entry_at :: "asnDB \<Rightarrow> nat option \<Rightarrow> u32 \<times> string" where
  "entry_at d r = (case r of None \<Rightarrow> (0, '''') | Some i \<Rightarrow> (a_nums d ! i, a_names d ! i))"

definition idx_int :: "nat option \<Rightarrow> int" where
  "idx_int r = (case r of None \<Rightarrow> -1 | Some i \<Rightarrow> int i)"

lemma find_walk_eq: "find_walk d x n = idx_int (walk_back (startAt d) (endAt d) (maxendAt d) x n)"
  by (induction n) (auto simp: idx_int_def covers_def)

lemma asn_find_eq:
  "length x = a_width d \<Longrightarrow> asn_find (Some d) x = idx_int (range_find (a_n d) (startAt d) (endAt d) (maxendAt d) x)"
  by (cases "a_n d = 0"; cases "Search (a_n d) (\<lambda>k. 0 < bytes_Compare (startAt d k) x)")
    (auto simp: asn_find_def range_find_def find_walk_eq idx_int_def Let_def)

interpretation asn: range_index wf_asnDB a_width a_n startAt endAt maxendAt "\<lambda>d. asn_entry (Some d)" entry_at
proof (unfold_locales, goal_cases)
  case (1 d i)
  then obtain rows where r: "\<forall>r\<in>set rows. length (ar_start r) = a_width d \<and> length (ar_end r) = a_width d"
    "d = asn_columns (a_width d) rows" by (auto simp: wf_asnDB_def)
  define w where "w = a_width d"
  have n: "a_n d = length rows" by (subst r(2)) (simp add: asn_columns_eq [OF r(1)])
  have "length (running_max None (map ar_end rows) ! i) = w"
    using 1(2) running_max_width [of "map ar_end rows" w None] r(1) n w_def by auto
  then show ?case
    using 1(2) r(1) n asn_at [OF r(1), of i] r(2) w_def by auto
next
  case (2 d i j)
  then obtain rows where r: "\<forall>r\<in>set rows. length (ar_start r) = a_width d \<and> length (ar_end r) = a_width d"
    "sorted (map (be_nat \<circ> ar_start) rows)" "d = asn_columns (a_width d) rows" by (auto simp: wf_asnDB_def)
  have n: "a_n d = length rows" by (subst r(3)) (simp add: asn_columns_eq [OF r(1)])
  have "startAt d k = ar_start (rows ! k)" if "k < length rows" for k
    using asn_at(1) [OF r(1) that] r(3) by simp
  with 2 n r(2) show ?case by (auto simp: sorted_iff_nth_mono)
next
  case (3 d i j)
  then obtain rows where r: "\<forall>r\<in>set rows. length (ar_start r) = a_width d \<and> length (ar_end r) = a_width d"
    "d = asn_columns (a_width d) rows" by (auto simp: wf_asnDB_def)
  have n: "a_n d = length rows" by (subst r(2)) (simp add: asn_columns_eq [OF r(1)])
  have "endAt d k = ar_end (rows ! k)" "maxendAt d k = running_max None (map ar_end rows) ! k"
    if "k < length rows" for k
    using asn_at(2,3) [OF r(1) that] r(2) by simp_all
  with 3 n running_max_bound [of "map ar_end rows" "a_width d" None j] r(1) show ?case by auto
next
  case (4 d x)
  then show ?case
    by (auto simp: asn_entry_def asn_find_eq idx_int_def entry_at_def Let_def split: option.splits)
qed

interpretation asn_rows: less_order asn_less
  unfolding asn_less_def by (rule starts_less_order)

lemma use_asn_row_width:
  assumes "width = 4 \<or> width = 16" and "use_asn_row width rec = Some r"
  shows "length (ar_start r) = width \<and> length (ar_end r) = width"
  using assms(2) by (auto simp: use_asn_row_def dest: toFixed_width [OF assms(1)] split: if_splits option.splits)

lemma asn_columns_answers:
  assumes "is_sort_of asn_less rows (srt rows)"
    and w: "\<forall>r\<in>set rows. length (ar_start r) = w \<and> length (ar_end r) = w" and "length x = w"
  shows "answers ar_start ar_end (\<lambda>r. (ar_num r, ar_name r)) (0, '''') rows x
    (asn_entry (Some (asn_columns w (srt rows))) x)"
proof -
  let ?d = "asn_columns w (srt rows)"
  have s: "set (srt rows) = set rows" using assms(1) by (rule is_sort_of_set)
  have w': "\<forall>r\<in>set (srt rows). length (ar_start r) = w \<and> length (ar_end r) = w" using w s by simp
  note e = asn_columns_eq [OF w']
  have "sorted (map (be_nat \<circ> ar_start) (srt rows))"
    using assms s by (intro sorted_starts) (auto simp: is_sort_of_def asn_less_def)
  then have "wf_asnDB ?d" using w' by (auto simp: wf_asnDB_def e)
  then have "answers ar_start ar_end (\<lambda>r. (ar_num r, ar_name r)) (entry_at ?d None) (srt rows) x (asn_entry (Some ?d) x)"
    by (rule asn.lookup_answers) (auto simp: e asn_at [OF w', unfolded e] entry_at_def assms(3))
  then show ?thesis unfolding answers_cong [OF s] by (simp add: entry_at_def)
qed

definition usable_asn_rows :: "nat \<Rightarrow> (nat \<Rightarrow> csv_read) \<Rightarrow> asnRow list \<Rightarrow> bool" where
  "usable_asn_rows width read rows \<longleftrightarrow> read_rows (use_asn_row width) read 0 [] = Some rows \<and> rows \<noteq> []"

lemma usable_asn_rows_width:
  "usable_asn_rows w read rows \<Longrightarrow> w = 4 \<or> w = 16 \<Longrightarrow> \<forall>r\<in>set rows. length (ar_start r) = w \<and> length (ar_end r) = w"
  using read_rows_from [of "use_asn_row w" read rows] use_asn_row_width [of w] unfolding usable_asn_rows_def by metis

text \<open>
  C18: Once both ASN files are loaded, \<^verbatim>\<open>asnLookup\<close> answers from the packed columns exactly as
  from the rows of the address's family: \<open>(0, "")\<close> when no row covers it, and otherwise number and
  name of a covering row with the largest start.
\<close>

theorem asnLookup_answers:
  assumes "files (in_dir geodir ''asn-ipv4.csv'') = Inr read4" and "files (in_dir geodir ''asn-ipv6.csv'') = Inr read6"
    and "usable_asn_rows 4 read4 rows4" and "usable_asn_rows 16 read6 rows6"
    and "is_sort_of asn_less rows4 (srt rows4)" and "is_sort_of asn_less rows6 (srt rows6)"
    and "ParseIP ip = Some a"
  shows "\<exists>st'. loadASN srt files geodir st = Some st' \<and> ASNReady st'
    \<and> (case To4 a of
         Some k \<Rightarrow> answers ar_start ar_end (\<lambda>r. (ar_num r, ar_name r)) (0, '''') rows4 k (asnLookup st' ip)
       | None \<Rightarrow> answers ar_start ar_end (\<lambda>r. (ar_num r, ar_name r)) (0, '''') rows6 a (asnLookup st' ip))"
proof -
  let ?st = "st\<lparr>asn_v4 := Some (asn_columns 4 (srt rows4)), asn_v6 := Some (asn_columns 16 (srt rows6)), asn_ready := True\<rparr>"
  have load: "loadASN srt files geodir st = Some ?st"
    using assms(3,4) by (simp add: loadASN_def newASNDB_def assms(1,2) usable_asn_rows_def Let_def)
  have a: "length a = 16" using assms(7) by (rule ParseIP_length)
  then have "To16 a = Some a" by (simp add: To16_def)
  then show ?thesis
    using asn_columns_answers [where srt = srt, OF assms(5) usable_asn_rows_width [OF assms(3)]]
      asn_columns_answers [where srt = srt, OF assms(6) usable_asn_rows_width [OF assms(4)] a]
    by (intro exI [of _ ?st])
      (auto simp: load ASNReady_def asnLookup_def assms(7) To4_length split: option.splits)
qed

lemma asnLookup_answers_witness:
  defines "files \<equiv> \<lambda>p. if p = in_dir ''/geo'' ''asn-ipv4.csv''
        then Inr (one_record [''8.8.8.0'', ''8.8.8.255'', ''15169'', '' Google LLC''])
      else if p = in_dir ''/geo'' ''asn-ipv6.csv''
        then Inr (one_record [''2a00::'', ''2a00:ffff::'', ''3320'', ''DTAG''])
      else Inl ''missing''"
  shows "\<exists>st'. loadASN (SliceStable asn_less) files ''/geo'' asn0 = Some st'
    \<and> asnLookup st' ''2a00::1'' = (3320, ''DTAG'')"
proof -
  let ?r4 = "\<lparr>ar_start = [8, 8, 8, 0], ar_end = [8, 8, 8, 255], ar_num = 15169, ar_name = ''Google LLC''\<rparr>"
  let ?r6 = "\<lparr>ar_start = [0x2a, 0, 0, 0, 0, 0, 0, 0, 0, 0, 0, 0, 0, 0, 0, 0],
    ar_end = [0x2a, 0, 0xff, 0xff, 0, 0, 0, 0, 0, 0, 0, 0, 0, 0, 0, 0], ar_num = 3320, ar_name = ''DTAG''\<rparr>"
  let ?a = "[0x2a, 0, 0, 0, 0, 0, 0, 0, 0, 0, 0, 0, 0, 0, 0, 1] :: u8 list"
  have "use_asn_row 4 [''8.8.8.0'', ''8.8.8.255'', ''15169'', '' Google LLC''] = Some ?r4"
    "use_asn_row 16 [''2a00::'', ''2a00:ffff::'', ''3320'', ''DTAG''] = Some ?r6" by code_simp+
  then have u: "usable_asn_rows 4 (one_record [''8.8.8.0'', ''8.8.8.255'', ''15169'', '' Google LLC'']) [?r4]"
    "usable_asn_rows 16 (one_record [''2a00::'', ''2a00:ffff::'', ''3320'', ''DTAG'']) [?r6]"
    by (simp_all add: usable_asn_rows_def read_one_record)
  have f: "files (in_dir ''/geo'' ''asn-ipv4.csv'') = Inr (one_record [''8.8.8.0'', ''8.8.8.255'', ''15169'', '' Google LLC''])"
    "files (in_dir ''/geo'' ''asn-ipv6.csv'') = Inr (one_record [''2a00::'', ''2a00:ffff::'', ''3320'', ''DTAG''])"
    by (simp_all add: files_def in_dir_def)
  have p: "ParseIP ''2a00::1'' = Some ?a" "To4 ?a = None" by code_simp+
  have c: "covers (ar_start ?r6) (ar_end ?r6) ?a" by code_simp
  from asnLookup_answers [OF f u asn_rows.SliceStable_is_sort asn_rows.SliceStable_is_sort p(1), of asn0] p(2) c
  show ?thesis by (auto simp: answers_def)
qed

section \<open>Ranges that share a start\<close>

text \<open>
  The comment on \<^verbatim>\<open>find\<close> promises the most specific range. When a broad and a narrow range
  begin at the same address, both orders are legal results of \<^verbatim>\<open>sort.Slice\<close>, and one of them
  makes the broad range the answer.
\<close>

theorem find_shared_start:
  defines "broad \<equiv> \<lparr>ar_start = [10, 0, 0, 0], ar_end = [10, 255, 255, 255], ar_num = 1, ar_name = ''broad''\<rparr>"
    and "narrow \<equiv> \<lparr>ar_start = [10, 0, 0, 0], ar_end = [10, 0, 0, 255], ar_num = 2, ar_name = ''narrow''\<rparr>"
  shows "is_sort_of asn_less [broad, narrow] [narrow, broad]
    \<and> asn_entry (Some (asn_columns 4 [narrow, broad])) [10, 0, 0, 7] = (1, ''broad'')
    \<and> is_sort_of asn_less [broad, narrow] [broad, narrow]
    \<and> asn_entry (Some (asn_columns 4 [broad, narrow])) [10, 0, 0, 7] = (2, ''narrow'')"
proof -
  have "is_sort_of asn_less [broad, narrow] [narrow, broad]" "is_sort_of asn_less [broad, narrow] [broad, narrow]"
    by (simp_all add: is_sort_of_def asn_less_def broad_def narrow_def)
  moreover have "asn_entry (Some (asn_columns 4 [narrow, broad])) [10, 0, 0, 7] = (1, ''broad'')"
    "asn_entry (Some (asn_columns 4 [broad, narrow])) [10, 0, 0, 7] = (2, ''narrow'')"
    unfolding broad_def narrow_def by code_simp+
  ultimately show ?thesis by blast
qed

end
