(* ===== verification/OrgCat.thy ===== *)
theory OrgCat
  imports GoStrings
begin

text \<open>
  Model of \<^verbatim>\<open>web/netmon/orgcat.go\<close>: the category of a network operator by curated AS
  numbers, government phrases and tokens, and a table of provider markers. \<^verbatim>\<open>ToUpper\<close> on
  non-ASCII names is the parameter \<open>uni\<close>. The token matcher is shown to be the word-boundary
  occurrence it stands for.
\<close>

section \<open>The tables\<close>

definition catCorp :: string where "catCorp = ''corp''"
definition catCloud :: string where "catCloud = ''cloud''"
definition catCDN :: string where "catCDN = ''cdn''"
definition catGov :: string where "catGov = ''gov''"
definition catTelecom :: string where "catTelecom = ''telecom''"
definition catOther :: string where "catOther = ''other''"

lemmas cat_defs = catCorp_def catCloud_def catCDN_def catGov_def catTelecom_def catOther_def

definition govASNs :: "u32 list" where
  "govASNs = [721, 27064, 1733, 297]"

definition govPhrases :: "string list" where
  "govPhrases =
    [''DEPARTMENT OF'', ''MINISTRY OF'', ''MINISTRY FOR'', ''GOVERNMENT'', ''CITY OF '',
     ''COUNTY OF '', ''STATE OF '', ''COMMONWEALTH OF'', ''PROVINCE OF'', ''MUNICIPALITY'',
     ''MUNICIPAL '', ''NATIONAL GUARD'', ''DEFENSE INFORMATION'', ''DEFENCE INFORMATION'',
     ''AERONAUTICS AND SPACE'', ''PARLIAMENT'', ''EMBASSY'', ''FEDERAL BUREAU'',
     ''FEDERAL MINISTRY'', ''FEDERAL GOVERNMENT'', ''MILITARY'', ''AIR FORCE'',
     ''SPACE FORCE'', ''MARINE CORPS'', ''COAST GUARD'', ''ARMY CORPS'', ''US ARMY'',
     ''U.S. ARMY'', ''UNITED STATES ARMY'', ''US NAVY'', ''U.S. NAVY'', ''UNITED STATES NAVY'',
     ''DEPARTMENT OF THE NAVY'', ''DEPARTMENT OF THE ARMY'', ''.GOV'', ''.MIL'']"

definition govTokens :: "string list" where
  "govTokens = [''GOV'', ''DOD'', ''USAF'', ''NASA'', ''NOAA'', ''USGS'', ''USACE'', ''FEMA'']"

record orgRule =
  r_pat :: string
  r_cat :: string
  r_word :: bool

definition rule :: "string \<times> string \<times> bool \<Rightarrow> orgRule" where
  "rule = (\<lambda>(p, c, w). \<lparr>r_pat = p, r_cat = c, r_word = w\<rparr>)"

definition orgRules :: "orgRule list" where
  "orgRules = map rule
    [(''CLOUDFLARE'', catCDN, False), (''AKAMAI'', catCDN, False), (''FASTLY'', catCDN, False),
     (''EDGECAST'', catCDN, False), (''EDGIO'', catCDN, False), (''LIMELIGHT'', catCDN, False),
     (''STACKPATH'', catCDN, False), (''INCAPSULA'', catCDN, False),
     (''IMPERVA'', catCDN, False), (''CDN77'', catCDN, False), (''GCORE'', catCDN, False),
     (''BUNNYWAY'', catCDN, False), (''MICROSOFT'', catCorp, False),
     (''APPLE'', catCorp, True), (''GOOGLE'', catCorp, False),
     (''META PLATFORMS'', catCorp, False), (''FACEBOOK'', catCorp, False),
     (''NETFLIX'', catCorp, False), (''GITHUB'', catCorp, False),
     (''DROPBOX'', catCorp, False), (''TWITTER'', catCorp, False), (''X CORP'', catCorp, True),
     (''LINKEDIN'', catCorp, False), (''PAYPAL'', catCorp, False), (''ADOBE'', catCorp, False),
     (''SALESFORCE'', catCorp, False), (''NVIDIA'', catCorp, False),
     (''CISCO'', catCorp, True), (''SPOTIFY'', catCorp, False), (''IBM'', catCorp, True),
     (''INTEL'', catCorp, True), (''UBER'', catCorp, True), (''AMAZON'', catCloud, True),
     (''AWS'', catCloud, True), (''DIGITALOCEAN'', catCloud, False),
     (''LINODE'', catCloud, False), (''VULTR'', catCloud, False),
     (''CHOOPA'', catCloud, False), (''HETZNER'', catCloud, False), (''OVH'', catCloud, False),
     (''SCALEWAY'', catCloud, False), (''CONTABO'', catCloud, False),
     (''LEASEWEB'', catCloud, False), (''ALIBABA'', catCloud, False),
     (''ALICLOUD'', catCloud, False), (''ALIYUN'', catCloud, False),
     (''TENCENT'', catCloud, False), (''HUAWEI'', catCloud, False),
     (''ORACLE'', catCloud, True), (''GODADDY'', catCloud, False),
     (''DREAMHOST'', catCloud, False), (''BLUEHOST'', catCloud, False),
     (''HOSTGATOR'', catCloud, False), (''NAMECHEAP'', catCloud, False),
     (''RACKSPACE'', catCloud, False), (''UPCLOUD'', catCloud, False),
     (''KAMATERA'', catCloud, False), (''NETCUP'', catCloud, False),
     (''COMCAST'', catTelecom, False), (''VERIZON'', catTelecom, False),
     (''AT&T'', catTelecom, False), (''T-MOBILE'', catTelecom, False),
     (''SPRINT'', catTelecom, True), (''CHARTER'', catTelecom, True),
     (''SPECTRUM'', catTelecom, False), (''COX COMMUNICATIONS'', catTelecom, False),
     (''CENTURYLINK'', catTelecom, False), (''LUMEN'', catTelecom, False),
     (''LEVEL 3 '', catTelecom, False), (''DEUTSCHE TELEKOM'', catTelecom, False),
     (''VODAFONE'', catTelecom, False), (''ORANGE'', catTelecom, False),
     (''TELEFONICA'', catTelecom, False), (''CHINA TELECOM'', catTelecom, False),
     (''CHINA UNICOM'', catTelecom, False), (''CHINA MOBILE'', catTelecom, False),
     (''RELIANCE JIO'', catTelecom, False), (''BHARTI AIRTEL'', catTelecom, False),
     (''KDDI'', catTelecom, False), (''ROGERS COMMUNICATIONS'', catTelecom, False),
     (''BELL CANADA'', catTelecom, False), (''TELUS'', catTelecom, False),
     (''NTT'', catTelecom, True), (''BT'', catTelecom, True)]"

section \<open>Matching\<close>

definition isAlnum :: "char \<Rightarrow> bool" where
  "isAlnum b \<longleftrightarrow>
     (65 \<le> ord b \<and> ord b \<le> (90::nat)) \<or> (97 \<le> ord b \<and> ord b \<le> (122::nat)) \<or> (48 \<le> ord b \<and> ord b \<le> (57::nat))"

function hasToken_loop :: "string \<Rightarrow> string \<Rightarrow> nat \<Rightarrow> bool" where
  "hasToken_loop s tok start =
     (if start < length s then
        (case str_index (drop start s) tok of
           None \<Rightarrow> False
         | Some i0 \<Rightarrow>
             let i = i0 + start;
                 before = (i = 0 \<or> \<not> isAlnum (s ! (i - 1)));
                 end = i + length tok;
                 after = (end = length s \<or> \<not> isAlnum (s ! end))
             in if before \<and> after then True else hasToken_loop s tok (i + 1))
      else False)"
  by pat_completeness auto
termination
  by (relation "measure (\<lambda>(s, tok, start). length s - start)") auto

declare hasToken_loop.simps [simp del]

definition hasToken :: "string \<Rightarrow> string \<Rightarrow> bool" where
  "hasToken s tok = (if tok = '''' then False else hasToken_loop s tok 0)"

definition isGov :: "string \<Rightarrow> bool" where
  "isGov up \<longleftrightarrow> list_ex (str_contains up) govPhrases \<or> list_ex (hasToken up) govTokens"

definition rule_matches :: "string \<Rightarrow> orgRule \<Rightarrow> bool" where
  "rule_matches up r = (if r_word r then hasToken up (r_pat r) else str_contains up (r_pat r))"

fun first_rule :: "string \<Rightarrow> orgRule list \<Rightarrow> string" where
  "first_rule up [] = catOther"
| "first_rule up (r # rs) = (if rule_matches up r then r_cat r else first_rule up rs)"

definition categorize :: "(string \<Rightarrow> string) \<Rightarrow> u32 \<Rightarrow> string \<Rightarrow> string" where
  "categorize uni asn org =
     (if org = '''' then catOther
      else if asn \<in> set govASNs then catGov
      else
        let up = ToUpper uni org in
        if isGov up then catGov else first_rule up orgRules)"

section \<open>Word boundaries\<close>

text \<open>An occurrence with no letter or digit on either side.\<close>

definition token_at :: "string \<Rightarrow> string \<Rightarrow> nat \<Rightarrow> bool" where
  "token_at s tok i \<longleftrightarrow> prefix tok (drop i s)
     \<and> (i = 0 \<or> \<not> isAlnum (s ! (i - 1)))
     \<and> (i + length tok = length s \<or> \<not> isAlnum (s ! (i + length tok)))"

lemma hasToken_loop_iff:
  assumes "tok \<noteq> []"
  shows "hasToken_loop s tok start \<longleftrightarrow> (\<exists>i\<ge>start. token_at s tok i)"
  using assms
proof (induction s tok start rule: hasToken_loop.induct)
  case (1 s tok start)
  note unf = hasToken_loop.simps [of s tok start]
  have out: "\<not> token_at s tok i" if "length s \<le> i" for i
    using that "1.prems" by (simp add: token_at_def)
  show ?case
  proof (cases "start < length s")
    case False
    then show ?thesis using out unf by (meson linorder_not_less order_trans)
  next
    case True
    show ?thesis
    proof (cases "str_index (drop start s) tok")
      case None
      have "\<not> prefix tok (drop i s)" if "start \<le> i" for i
        using str_index_NoneD [OF None, of "i - start"] that by (simp add: drop_drop)
      with None True unf show ?thesis by (auto simp: token_at_def)
    next
      case (Some i0)
      let ?i = "i0 + start"
      have before: "\<not> prefix tok (drop k s)" if "start \<le> k" "k < ?i" for k
      proof -
        have "k - start < i0" "k - start + start = k" using that by simp_all
        then show ?thesis using str_index_SomeD [OF Some] by (metis drop_drop)
      qed
      have here: "prefix tok (drop ?i s)" using str_index_SomeD [OF Some] by (simp add: drop_drop)
      have first: "\<not> token_at s tok k" if "start \<le> k" "k < ?i" for k
        using before [OF that] by (simp add: token_at_def)
      show ?thesis
      proof (cases "token_at s tok ?i")
        case True': True
        then have "hasToken_loop s tok start" using True Some by (auto simp: unf token_at_def Let_def)
        with True' show ?thesis by (metis le_add2)
      next
        case False
        then have "hasToken_loop s tok start = hasToken_loop s tok (?i + 1)"
          using True Some here by (auto simp: unf token_at_def Let_def)
        also have "\<dots> \<longleftrightarrow> (\<exists>i\<ge>?i + 1. token_at s tok i)"
          using "1.IH" [OF True Some refl refl refl refl] False here "1.prems" by (auto simp: token_at_def)
        also have "\<dots> \<longleftrightarrow> (\<exists>i\<ge>start. token_at s tok i)"
        proof
          assume "\<exists>i\<ge>start. token_at s tok i"
          then obtain i where i: "start \<le> i" "token_at s tok i" by blast
          with first [of i] False have "?i + 1 \<le> i" by (metis Suc_eq_plus1 Suc_leI le_neq_implies_less linorder_not_less)
          with i show "\<exists>i\<ge>?i + 1. token_at s tok i" by blast
        qed (metis add_leD1 add_leD2)
        finally show ?thesis .
      qed
    qed
  qed
qed

text \<open>The text before ends, and the text after begins, outside a word.\<close>

definition word_edges :: "string \<Rightarrow> string \<Rightarrow> bool" where
  "word_edges a b \<longleftrightarrow> (a = [] \<or> \<not> isAlnum (last a)) \<and> (b = [] \<or> \<not> isAlnum (hd b))"

text \<open>
  C25: \<^verbatim>\<open>hasToken\<close> finds a non-empty token exactly when the name splits around an occurrence
  of it with no letter or digit adjacent, overlapping and repeated occurrences included.
\<close>

theorem hasToken_iff:
  "hasToken s tok \<longleftrightarrow> tok \<noteq> [] \<and> (\<exists>a b. s = a @ tok @ b \<and> word_edges a b)"
proof (cases "tok = []")
  case False
  have "\<exists>a b. s = a @ tok @ b \<and> (a = [] \<or> \<not> isAlnum (last a)) \<and> (b = [] \<or> \<not> isAlnum (hd b))"
    if t: "token_at s tok i" for i
  proof -
    from t obtain b where b: "drop i s = tok @ b" by (auto simp: token_at_def prefix_def)
    with False have i: "i < length s" by (metis append_is_Nil_conv drop_eq_Nil linorder_not_less)
    have s: "s = take i s @ tok @ b" by (metis b append_take_drop_id)
    have l: "take i s = [] \<or> last (take i s) = s ! (i - 1)" using i by (cases i) (auto simp: take_Suc_conv_app_nth)
    have "length s = i + length tok + length b" using i arg_cong [OF b, of length] by simp
    moreover have "b \<noteq> [] \<Longrightarrow> hd b = s ! (i + length tok)"
      using arg_cong [OF b, of "\<lambda>x. x ! length tok"] i by (simp add: nth_append hd_conv_nth)
    ultimately show ?thesis
      using t l by (intro exI [of _ "take i s"] exI [of _ b] conjI s) (auto simp: token_at_def)
  qed
  moreover have "token_at (a @ tok @ b) tok (length a)"
    if "a = [] \<or> \<not> isAlnum (last a)" "b = [] \<or> \<not> isAlnum (hd b)" for a b
    using that by (auto simp: token_at_def nth_append last_conv_nth hd_conv_nth)
  ultimately have "(\<exists>i. token_at s tok i) \<longleftrightarrow> (\<exists>a b. s = a @ tok @ b
     \<and> (a = [] \<or> \<not> isAlnum (last a)) \<and> (b = [] \<or> \<not> isAlnum (hd b)))" by metis
  then show ?thesis using False by (simp add: hasToken_def hasToken_loop_iff word_edges_def)
qed (simp add: hasToken_def)

end
