(* ===== verification/RDNS.thy ===== *)
theory RDNS
  imports GoStrings
begin

text \<open>
  Model of \<^verbatim>\<open>web/netmon/rdns.go\<close>: the LRU cache of reverse-DNS answers (a map into the
  elements of a doubly linked list), the in-flight set, the bounded queue and the worker pool.
  The cache is refined to a bounded association list; the interleaving of callers and workers is a
  step relation in which every critical section is one step. Times are in nanoseconds.
\<close>

section \<open>Sanitising names\<close>

definition cacheCap :: nat where "cacheCap = 4096"
definition posTTL :: int where "posTTL = 6 * 3600 * 10 ^ 9"
definition negTTL :: int where "negTTL = 60 * 10 ^ 9"
definition queueCap :: nat where "queueCap = 256"
definition poolSize :: nat where "poolSize = 8"
definition maxHost :: nat where "maxHost = 253"

definition host_char :: "char \<Rightarrow> bool" where
  "host_char c \<longleftrightarrow> (65 \<le> ord c \<and> ord c \<le> (90::nat)) \<or> (97 \<le> ord c \<and> ord c \<le> (122::nat))
     \<or> (48 \<le> ord c \<and> ord c \<le> (57::nat)) \<or> c = CHR ''.'' \<or> c = CHR ''_'' \<or> c = CHR ''-''"

definition sanitizeHost :: "string \<Rightarrow> string" where
  "sanitizeHost name =
     (let h = filter host_char name;
          h = (if maxHost < length h then take maxHost h else h)
      in TrimRight (CHR ''.'') h)"

text \<open>The resolver's answer for an address: \<open>None\<close> for an error, or its names.\<close>

definition lookupHost :: "(string \<Rightarrow> string list option) \<Rightarrow> string \<Rightarrow> string option" where
  "lookupHost resolver ip =
     (case resolver ip of
        None \<Rightarrow> None
      | Some [] \<Rightarrow> None
      | Some (n # _) \<Rightarrow> (let h = sanitizeHost n in if h = '''' then None else Some h))"

section \<open>The cache\<close>

record cacheEntry =
  ce_host :: "string option"
  ce_exp :: int

record lruItem =
  it_ip :: string
  it_entry :: cacheEntry

text \<open>
  \<^verbatim>\<open>container/list\<close>: elements are identities (numbers never reused), the list holds them
  front first with their values; the map points at elements.
\<close>

record rcache =
  rc_map :: "string \<Rightarrow> nat option"
  rc_lru :: "(nat \<times> lruItem) list"
  rc_next :: nat

definition empty_cache :: rcache where
  "empty_cache = \<lparr>rc_map = Map.empty, rc_lru = [], rc_next = 0\<rparr>"

definition list_value :: "(nat \<times> lruItem) list \<Rightarrow> nat \<Rightarrow> lruItem" where
  "list_value l el = the (map_of l el)"

definition list_remove :: "nat \<Rightarrow> (nat \<times> lruItem) list \<Rightarrow> (nat \<times> lruItem) list" where
  "list_remove el l = filter (\<lambda>p. fst p \<noteq> el) l"

definition MoveToFront :: "nat \<Rightarrow> (nat \<times> lruItem) list \<Rightarrow> (nat \<times> lruItem) list" where
  "MoveToFront el l = (el, list_value l el) # list_remove el l"

definition cacheGet :: "int \<Rightarrow> string \<Rightarrow> rcache \<Rightarrow> (bool \<times> string option) \<times> rcache" where
  "cacheGet now ip s =
     (case rc_map s ip of
        None \<Rightarrow> ((False, None), s)
      | Some el \<Rightarrow>
          let it = list_value (rc_lru s) el in
          if ce_exp (it_entry it) < now then
            ((False, None), s\<lparr>rc_lru := list_remove el (rc_lru s), rc_map := (rc_map s)(ip := None)\<rparr>)
          else ((True, ce_host (it_entry it)), s\<lparr>rc_lru := MoveToFront el (rc_lru s)\<rparr>))"

function evict :: "rcache \<Rightarrow> rcache" where
  "evict s =
     (if cacheCap < length (rc_lru s) then
        let (bk, old) = last (rc_lru s)
        in evict (s\<lparr>rc_lru := list_remove bk (rc_lru s), rc_map := (rc_map s)(it_ip old := None)\<rparr>)
      else s)"
  by pat_completeness auto
termination
proof (relation "measure (length \<circ> rc_lru)", goal_cases)
  case (2 s x bk old)
  then have "(bk, old) \<in> set (rc_lru s)"
    by (metis last_in_set length_0_conv not_less_zero)
  then have "length (list_remove bk (rc_lru s)) < length (rc_lru s)"
    unfolding list_remove_def by (intro length_filter_less [of "(bk, old)"]) auto
  then show ?case by simp
qed simp

declare evict.simps [simp del]

definition entry_ttl :: "string option \<Rightarrow> int" where
  "entry_ttl host = (if host \<noteq> None then posTTL else negTTL)"

definition cachePut :: "int \<Rightarrow> string \<Rightarrow> string option \<Rightarrow> rcache \<Rightarrow> rcache" where
  "cachePut now ip host s =
     (let e = \<lparr>ce_host = host, ce_exp = now + entry_ttl host\<rparr>;
          s' = (case rc_map s ip of
                  Some el \<Rightarrow>
                    s\<lparr>rc_lru := MoveToFront el
                        (map (\<lambda>(k, it). if k = el then (k, it\<lparr>it_entry := e\<rparr>) else (k, it)) (rc_lru s))\<rparr>
                | None \<Rightarrow>
                    s\<lparr>rc_lru := (rc_next s, \<lparr>it_ip = ip, it_entry = e\<rparr>) # rc_lru s,
                      rc_map := (rc_map s)(ip \<mapsto> rc_next s), rc_next := Suc (rc_next s)\<rparr>)
      in evict s')"

section \<open>The cache as a bounded association list\<close>

text \<open>Map and list agree: every key points at the one element that carries it.\<close>

definition wf_cache :: "rcache \<Rightarrow> bool" where
  "wf_cache s \<longleftrightarrow> distinct (map fst (rc_lru s)) \<and> distinct (map (it_ip \<circ> snd) (rc_lru s))
     \<and> (\<forall>el\<in>set (map fst (rc_lru s)). el < rc_next s)
     \<and> (\<forall>ip el. rc_map s ip = Some el \<longleftrightarrow> (\<exists>it. (el, it) \<in> set (rc_lru s) \<and> it_ip it = ip))"

type_synonym lru_view = "(string \<times> cacheEntry) list"

definition view :: "rcache \<Rightarrow> lru_view" where
  "view s = map (\<lambda>(el, it). (it_ip it, it_entry it)) (rc_lru s)"

definition drop_key :: "string \<Rightarrow> lru_view \<Rightarrow> lru_view" where
  "drop_key ip v = filter (\<lambda>p. fst p \<noteq> ip) v"

definition lru_get :: "int \<Rightarrow> string \<Rightarrow> lru_view \<Rightarrow> (bool \<times> string option) \<times> lru_view" where
  "lru_get now ip v =
     (case map_of v ip of
        None \<Rightarrow> ((False, None), v)
      | Some e \<Rightarrow> if ce_exp e < now then ((False, None), drop_key ip v)
                 else ((True, ce_host e), (ip, e) # drop_key ip v))"

definition lru_put :: "int \<Rightarrow> string \<Rightarrow> string option \<Rightarrow> lru_view \<Rightarrow> lru_view" where
  "lru_put now ip host v =
     take cacheCap ((ip, \<lparr>ce_host = host, ce_exp = now + entry_ttl host\<rparr>) # drop_key ip v)"

lemma wf_empty [simp]: "wf_cache empty_cache"
  by (simp add: wf_cache_def empty_cache_def)

lemma view_empty [simp]: "view empty_cache = []"
  by (simp add: view_def empty_cache_def)

lemma map_fst_view: "map fst (view s) = map (it_ip \<circ> snd) (rc_lru s)"
  by (auto simp: view_def)

lemma wf_cacheD:
  assumes "wf_cache s" and "(el, it) \<in> set (rc_lru s)"
  shows "rc_map s (it_ip it) = Some el" and "list_value (rc_lru s) el = it"
    and "map_of (view s) (it_ip it) = Some (it_entry it)"
proof -
  show "rc_map s (it_ip it) = Some el" using assms by (auto simp: wf_cache_def)
  show "list_value (rc_lru s) el = it"
    using assms by (simp add: wf_cache_def list_value_def)
  have "(it_ip it, it_entry it) \<in> set (view s)" using assms(2) by (force simp: view_def)
  moreover have "distinct (map fst (view s))" using assms(1) by (simp only: map_fst_view wf_cache_def)
  ultimately show "map_of (view s) (it_ip it) = Some (it_entry it)" by simp
qed

lemma wf_cache_None: "wf_cache s \<Longrightarrow> rc_map s ip = None \<longleftrightarrow> ip \<notin> fst ` set (view s)"
proof -
  assume w: "wf_cache s"
  have "fst ` set (view s) = it_ip ` snd ` set (rc_lru s)" by (force simp: view_def)
  moreover have "rc_map s ip \<noteq> None \<longleftrightarrow> ip \<in> it_ip ` snd ` set (rc_lru s)"
    using w unfolding wf_cache_def by force
  ultimately show ?thesis by auto
qed

text \<open>Removing the element of a key removes the key, and nothing else.\<close>

lemma remove_key:
  assumes w: "wf_cache s" and el: "rc_map s ip = Some el"
  shows "wf_cache (s\<lparr>rc_lru := list_remove el (rc_lru s), rc_map := (rc_map s)(ip := None)\<rparr>)"
    and "view (s\<lparr>rc_lru := list_remove el (rc_lru s), rc_map := (rc_map s)(ip := None)\<rparr>) = drop_key ip (view s)"
proof -
  obtain it where it: "(el, it) \<in> set (rc_lru s)" "it_ip it = ip"
    using w el by (auto simp: wf_cache_def)
  have key: "k = el \<longleftrightarrow> it_ip i = ip" if "(k, i) \<in> set (rc_lru s)" for k i
    using wf_cacheD [OF w that] wf_cacheD [OF w it(1)] it(2) el by (metis option.inject)
  show "wf_cache (s\<lparr>rc_lru := list_remove el (rc_lru s), rc_map := (rc_map s)(ip := None)\<rparr>)"
    using w key unfolding wf_cache_def list_remove_def
    by (auto simp: distinct_map_filter dest!: spec [of _ ip])
  have "filter (\<lambda>p. fst p \<noteq> el) (rc_lru s) = filter (\<lambda>p. it_ip (snd p) \<noteq> ip) (rc_lru s)"
    by (rule filter_cong) (use key in auto)
  then show "view (s\<lparr>rc_lru := list_remove el (rc_lru s), rc_map := (rc_map s)(ip := None)\<rparr>) = drop_key ip (view s)"
    by (simp add: view_def list_remove_def drop_key_def filter_map comp_def case_prod_beta)
qed

text \<open>Moving the element of a key to the front, its entry replaced or not.\<close>

lemma front_key:
  assumes w: "wf_cache s" and el: "rc_map s ip = Some el"
  shows "wf_cache (s\<lparr>rc_lru := (el, \<lparr>it_ip = ip, it_entry = e\<rparr>) # list_remove el (rc_lru s)\<rparr>)"
    and "view (s\<lparr>rc_lru := (el, \<lparr>it_ip = ip, it_entry = e\<rparr>) # list_remove el (rc_lru s)\<rparr>) = (ip, e) # drop_key ip (view s)"
proof -
  let ?r = "s\<lparr>rc_lru := list_remove el (rc_lru s), rc_map := (rc_map s)(ip := None)\<rparr>"
  have r: "wf_cache ?r" "view ?r = drop_key ip (view s)" using remove_key [OF w el] by simp_all
  have n: "el < rc_next s" using w el by (force simp: wf_cache_def)
  have m: "rc_map s = (rc_map ?r)(ip \<mapsto> el)" using el by auto
  have "ip \<notin> fst ` set (view ?r)" unfolding r by (auto simp: drop_key_def)
  then have ip: "ip \<notin> set (map (it_ip \<circ> snd) (rc_lru ?r))" unfolding map_fst_view [symmetric] by simp
  have e: "el \<notin> set (map fst (rc_lru ?r))" by (auto simp: list_remove_def)
  show "view (s\<lparr>rc_lru := (el, \<lparr>it_ip = ip, it_entry = e\<rparr>) # list_remove el (rc_lru s)\<rparr>) = (ip, e) # drop_key ip (view s)"
    using r(2) by (simp add: view_def)
  show "wf_cache (s\<lparr>rc_lru := (el, \<lparr>it_ip = ip, it_entry = e\<rparr>) # list_remove el (rc_lru s)\<rparr>)"
  proof -
    define R where "R = list_remove el (rc_lru s)"
    have R: "distinct (map fst R)" "distinct (map (it_ip \<circ> snd) R)" "\<forall>k\<in>set (map fst R). k < rc_next s"
      "((rc_map s)(ip := None)) ip' = Some k \<longleftrightarrow> (\<exists>i. (k, i) \<in> set R \<and> it_ip i = ip')" for ip' k
      using r(1) by (simp_all add: wf_cache_def R_def)
    have "rc_map s ip' = Some k \<longleftrightarrow>
        (\<exists>i. (k, i) \<in> set ((el, \<lparr>it_ip = ip, it_entry = e\<rparr>) # R) \<and> it_ip i = ip')" for ip' k
    proof (cases "ip' = ip")
      case True
      then show ?thesis using el R(4) [of ip k] by auto
    next
      case False
      then show ?thesis using R(4) [of ip' k] by auto
    qed
    then show ?thesis
      using R(1,2,3) n ip e unfolding wf_cache_def R_def by simp
  qed
qed

lemma new_key:
  fixes e :: cacheEntry
  assumes w: "wf_cache s" and "rc_map s ip = None"
  defines "s' \<equiv> s\<lparr>rc_lru := (rc_next s, \<lparr>it_ip = ip, it_entry = e\<rparr>) # rc_lru s,
      rc_map := (rc_map s)(ip \<mapsto> rc_next s), rc_next := Suc (rc_next s)\<rparr>"
  shows "wf_cache s'" and "view s' = (ip, e) # drop_key ip (view s)"
proof -
  have ip: "ip \<notin> fst ` set (view s)" using assms(2) wf_cache_None [OF w] by simp
  then have "drop_key ip (view s) = view s" by (auto simp: drop_key_def filter_id_conv image_iff)
  then show "view s' = (ip, e) # drop_key ip (view s)" by (simp add: s'_def view_def)
  have "ip \<notin> set (map (it_ip \<circ> snd) (rc_lru s))" using ip by (simp add: map_fst_view [symmetric] del: map_map)
  moreover from ip have "it_ip i \<noteq> ip" if "(k, i) \<in> set (rc_lru s)" for k i
    using that by (force simp: view_def)
  ultimately show "wf_cache s'" using w unfolding wf_cache_def s'_def by (auto dest: less_imp_neq)
qed

lemma evict_spec:
  assumes "wf_cache s" and "length (rc_lru s) \<le> Suc cacheCap"
  shows "wf_cache (evict s) \<and> view (evict s) = take cacheCap (view s)"
proof (cases "cacheCap < length (rc_lru s)")
  case False
  then show ?thesis using assms(1) by (simp add: evict.simps view_def)
next
  case True
  then have ne: "rc_lru s \<noteq> []" and len: "length (rc_lru s) = Suc cacheCap" using assms(2) by auto
  obtain bk old where l: "last (rc_lru s) = (bk, old)" by (cases "last (rc_lru s)")
  then have "(bk, old) \<in> set (rc_lru s)" using ne by (metis last_in_set)
  then have b: "rc_map s (it_ip old) = Some bk" by (rule wf_cacheD(1) [OF assms(1)])
  let ?s = "s\<lparr>rc_lru := list_remove bk (rc_lru s), rc_map := (rc_map s)(it_ip old := None)\<rparr>"
  have r: "wf_cache ?s" "view ?s = drop_key (it_ip old) (view s)" using remove_key [OF assms(1) b] by simp_all
  obtain L where "rc_lru s = L @ [(bk, old)]" using ne l by (metis append_butlast_last_id)
  then have v: "view s = butlast (view s) @ [(it_ip old, it_entry old)]" by (simp add: view_def)
  have d: "distinct (map fst (view s))" using assms(1) by (simp only: map_fst_view wf_cache_def)
  have "it_ip old \<notin> fst ` set (butlast (view s))" using d by (subst (asm) v) auto
  then have "drop_key (it_ip old) (view s) = butlast (view s)"
    by (subst v) (auto simp: drop_key_def filter_id_conv image_iff)
  also have "\<dots> = take cacheCap (view s)" using len by (simp add: butlast_conv_take view_def)
  finally have v': "view ?s = take cacheCap (view s)" using r(2) by simp
  have "length (rc_lru ?s) \<le> cacheCap" using arg_cong [OF v', of length] by (simp add: view_def)
  then have "evict s = ?s" using True l by (simp add: evict.simps [of s] evict.simps [of ?s] Let_def)
  then show ?thesis using r(1) v' by simp
qed

lemma cacheGet_refines:
  assumes w: "wf_cache s"
  shows "wf_cache (snd (cacheGet now ip s))"
    and "(fst (cacheGet now ip s), view (snd (cacheGet now ip s))) = lru_get now ip (view s)"
proof -
  have "wf_cache (snd (cacheGet now ip s))
    \<and> (fst (cacheGet now ip s), view (snd (cacheGet now ip s))) = lru_get now ip (view s)"
  proof (cases "rc_map s ip")
    case None
    then have "map_of (view s) ip = None" using wf_cache_None [OF w] by (simp add: map_of_eq_None_iff)
    with None w show ?thesis by (simp add: cacheGet_def lru_get_def)
  next
    case (Some el)
    then obtain it where it: "(el, it) \<in> set (rc_lru s)" "it_ip it = ip" using w by (auto simp: wf_cache_def)
    note d = wf_cacheD [OF w it(1), unfolded it(2)]
    have "it = \<lparr>it_ip = ip, it_entry = it_entry it\<rparr>" using it(2) by simp
    then show ?thesis
      using remove_key [OF w Some] front_key [OF w Some, of "it_entry it"] d Some
      by (simp add: cacheGet_def lru_get_def MoveToFront_def Let_def)
  qed
  then show "wf_cache (snd (cacheGet now ip s))"
    "(fst (cacheGet now ip s), view (snd (cacheGet now ip s))) = lru_get now ip (view s)" by auto
qed

lemma length_drop_key: "length (drop_key ip v) \<le> length v"
  by (simp add: drop_key_def)

lemma list_remove_update:
  "list_remove el (map (\<lambda>(k, it). if k = el then (k, f it) else (k, it)) l) = list_remove el l"
  by (induction l) (auto simp: list_remove_def split: if_splits)

lemma cachePut_refines:
  assumes w: "wf_cache s" and len: "length (view s) \<le> cacheCap"
  shows "wf_cache (cachePut now ip host s)" and "view (cachePut now ip host s) = lru_put now ip host (view s)"
proof -
  let ?e = "\<lparr>ce_host = host, ce_exp = now + entry_ttl host\<rparr>"
  have fin: "wf_cache (evict s') \<and> view (evict s') = lru_put now ip host (view s)"
    if "wf_cache s'" "view s' = (ip, ?e) # drop_key ip (view s)" for s'
  proof -
    have "length (view s') \<le> Suc cacheCap" using that(2) len length_drop_key [of ip "view s"] by simp
    then show ?thesis using evict_spec [OF that(1)] that(2) by (simp add: lru_put_def view_def)
  qed
  have "wf_cache (cachePut now ip host s) \<and> view (cachePut now ip host s) = lru_put now ip host (view s)"
  proof (cases "rc_map s ip")
    case None
    then show ?thesis using fin [OF new_key [OF w None]] by (simp add: cachePut_def Let_def)
  next
    case (Some el)
    then obtain it where it: "(el, it) \<in> set (rc_lru s)" "it_ip it = ip" using w by (auto simp: wf_cache_def)
    let ?l = "map (\<lambda>(k, it). if k = el then (k, it\<lparr>it_entry := ?e\<rparr>) else (k, it)) (rc_lru s)"
    have "distinct (map fst ?l)" using w by (simp add: wf_cache_def comp_def case_prod_beta if_distrib cong: if_cong)
    moreover have "(el, it\<lparr>it_entry := ?e\<rparr>) \<in> set ?l" using it(1) by force
    ultimately have "list_value ?l el = \<lparr>it_ip = ip, it_entry = ?e\<rparr>"
      using it(2) by (simp add: list_value_def)
    moreover have "list_remove el ?l = list_remove el (rc_lru s)" by (rule list_remove_update)
    ultimately have "MoveToFront el ?l = (el, \<lparr>it_ip = ip, it_entry = ?e\<rparr>) # list_remove el (rc_lru s)"
      by (simp add: MoveToFront_def)
    then show ?thesis using fin [OF front_key [OF w Some]] Some by (simp add: cachePut_def Let_def)
  qed
  then show "wf_cache (cachePut now ip host s)" "view (cachePut now ip host s) = lru_put now ip host (view s)"
    by auto
qed

section \<open>Sequences of cache operations\<close>

datatype cache_op = Get int string | Put int string "string option"

fun run_cache :: "cache_op list \<Rightarrow> rcache \<Rightarrow> (bool \<times> string option) list \<times> rcache" where
  "run_cache [] s = ([], s)"
| "run_cache (Get now ip # ops) s =
     (let (r, s1) = cacheGet now ip s; (rs, s2) = run_cache ops s1 in (r # rs, s2))"
| "run_cache (Put now ip host # ops) s = run_cache ops (cachePut now ip host s)"

fun run_lru :: "cache_op list \<Rightarrow> lru_view \<Rightarrow> (bool \<times> string option) list \<times> lru_view" where
  "run_lru [] v = ([], v)"
| "run_lru (Get now ip # ops) v =
     (let (r, v1) = lru_get now ip v; (rs, v2) = run_lru ops v1 in (r # rs, v2))"
| "run_lru (Put now ip host # ops) v = run_lru ops (lru_put now ip host v)"

lemma length_lru_get: "length (snd (lru_get now ip v)) \<le> length v"
proof (cases "map_of v ip")
  case (Some e)
  then have "(ip, e) \<in> set v" by (rule map_of_SomeD)
  then have "length (drop_key ip v) < length v"
    unfolding drop_key_def by (intro length_filter_less [of "(ip, e)"]) auto
  with Some show ?thesis by (simp add: lru_get_def)
qed (simp add: lru_get_def)

lemma length_lru_put: "length (lru_put now ip host v) \<le> cacheCap"
  by (simp add: lru_put_def)

lemma run_cache_refines:
  assumes "wf_cache s" and "length (view s) \<le> cacheCap"
  shows "wf_cache (snd (run_cache ops s)) \<and> length (view (snd (run_cache ops s))) \<le> cacheCap
    \<and> run_lru ops (view s) = (fst (run_cache ops s), view (snd (run_cache ops s)))"
  using assms
proof (induction ops s rule: run_cache.induct)
  case (2 now ip ops s)
  obtain r s1 where g: "cacheGet now ip s = (r, s1)" by (cases "cacheGet now ip s")
  have w: "wf_cache s1" "lru_get now ip (view s) = (r, view s1)"
    using cacheGet_refines [OF 2(2), of now ip] g by simp_all
  then have "length (view s1) \<le> cacheCap" using length_lru_get [of now ip "view s"] 2(3) by simp
  with 2(1) [OF g [symmetric] refl w(1)] show ?case
    using g w(2) by (auto simp: case_prod_beta)
next
  case (3 now ip host ops s)
  have "length (view (cachePut now ip host s)) \<le> cacheCap"
    using cachePut_refines(2) [OF 3(2,3)] length_lru_put by simp
  with 3(1) [OF cachePut_refines(1) [OF 3(2,3)]] cachePut_refines(2) [OF 3(2,3)] show ?case by simp
qed simp

text \<open>
  C11: Any sequence of lookups and stores, at any times, gives through the map and the linked
  list the results of a bounded association list that keeps the most recently used keys first,
  expires entries on lookup and drops the oldest; it never holds more than \<^verbatim>\<open>cacheCap\<close> entries.
\<close>

theorem cache_refines_lru:
  "run_lru ops [] = (fst (run_cache ops empty_cache), view (snd (run_cache ops empty_cache)))
     \<and> length (rc_lru (snd (run_cache ops empty_cache))) \<le> cacheCap"
proof -
  have "length (view s) = length (rc_lru s)" for s by (simp add: view_def)
  then show ?thesis using run_cache_refines [of empty_cache ops] by simp
qed

section \<open>Host names\<close>

definition ok_host :: "string \<Rightarrow> bool" where
  "ok_host h \<longleftrightarrow> list_all host_char h \<and> length h \<le> maxHost \<and> \<not> has_suffix h ''.''"

lemma TrimRight_id: "\<not> suffix [c] s \<Longrightarrow> TrimRight c s = s"
  by (cases s rule: rev_cases) (auto simp: TrimRight_def)

lemma TrimRight_no_suffix: "\<not> suffix [c] (TrimRight c s)"
proof
  assume "suffix [c] (TrimRight c s)"
  then obtain r where "TrimRight c s = r @ [c]" by (auto simp: suffix_def)
  with last_TrimRight [of c s] show False by simp
qed

lemma sanitizeHost_spec:
  "ok_host (sanitizeHost name) \<and> (sanitizeHost name = name \<longleftrightarrow> ok_host name)"
proof -
  let ?f = "filter host_char name"
  let ?h = "if maxHost < length ?f then take maxHost ?f else ?f"
  have p: "prefix (sanitizeHost name) ?h" by (simp only: sanitizeHost_def Let_def prefix_TrimRight)
  have "prefix ?h ?f" by (simp add: take_is_prefix)
  then have "set (sanitizeHost name) \<subseteq> set ?f" using p by (meson set_mono_prefix subset_trans)
  moreover have "length (sanitizeHost name) \<le> maxHost"
    using prefix_length_le [OF p] by (simp split: if_splits)
  moreover have "\<not> suffix ''.'' (sanitizeHost name)"
    by (simp only: sanitizeHost_def Let_def TrimRight_no_suffix not_False_eq_True)
  ultimately have ok: "ok_host (sanitizeHost name)" by (auto simp: ok_host_def list_all_iff)
  moreover have "sanitizeHost name = name" if "ok_host name"
  proof -
    have "?f = name" using that by (simp add: ok_host_def list_all_iff)
    then show ?thesis using that by (simp add: sanitizeHost_def ok_host_def TrimRight_id)
  qed
  ultimately show ?thesis by metis
qed

text \<open>
  C26: A sanitised PTR name has only host name characters, at most 253 bytes and no trailing dot,
  whatever the resolver returned, and the names with those three properties are exactly the ones
  sanitising leaves alone.
\<close>

theorem sanitizeHost_ok:
  "ok_host (sanitizeHost name) \<and> (sanitizeHost name = name \<longleftrightarrow> ok_host name)"
  by (rule sanitizeHost_spec)

section \<open>Callers, queue and workers\<close>

datatype worker = WIdle | WLookup string | WStore string "string option" | WClear string

datatype caller = CIdle | CChecked string | CClaimed string | CDropping string

record rdns =
  rd_enabled :: bool
  rd_cache :: rcache
  rd_inflight :: "string set"
  rd_queue :: "string list"
  rd_workers :: "worker list"
  rd_callers :: "caller list"

definition newRDNS :: "bool \<Rightarrow> nat \<Rightarrow> rdns" where
  "newRDNS enabled callers =
     \<lparr>rd_enabled = enabled, rd_cache = empty_cache, rd_inflight = {}, rd_queue = [],
      rd_workers = replicate poolSize WIdle, rd_callers = replicate callers CIdle\<rparr>"

text \<open>\<^verbatim>\<open>resolve\<close> without interleaving, as one caller sees it.\<close>

definition resolve :: "int \<Rightarrow> string \<Rightarrow> rdns \<Rightarrow> string option \<times> rdns" where
  "resolve now ip s =
     (if \<not> rd_enabled s then (None, s)
      else case cacheGet now ip (rd_cache s) of
          ((True, host), c) \<Rightarrow> (host, s\<lparr>rd_cache := c\<rparr>)
        | ((False, _), c) \<Rightarrow>
            let s = s\<lparr>rd_cache := c\<rparr> in
            if ip \<in> rd_inflight s then (None, s)
            else
              let s = s\<lparr>rd_inflight := insert ip (rd_inflight s)\<rparr> in
              if length (rd_queue s) < queueCap then (None, s\<lparr>rd_queue := rd_queue s @ [ip]\<rparr>)
              else (None, s\<lparr>rd_inflight := rd_inflight s - {ip}\<rparr>))"

text \<open>The steps: every critical section, channel operation and lookup of the code is one.\<close>

inductive rstep :: "rdns \<Rightarrow> rdns \<Rightarrow> bool" where
  hit: "rd_enabled s \<Longrightarrow> c < length (rd_callers s) \<Longrightarrow> rd_callers s ! c = CIdle \<Longrightarrow>
     cacheGet now ip (rd_cache s) = ((True, host), k) \<Longrightarrow> rstep s (s\<lparr>rd_cache := k\<rparr>)"
| miss: "rd_enabled s \<Longrightarrow> c < length (rd_callers s) \<Longrightarrow> rd_callers s ! c = CIdle \<Longrightarrow>
     cacheGet now ip (rd_cache s) = ((False, host), k) \<Longrightarrow>
     rstep s (s\<lparr>rd_cache := k, rd_callers := (rd_callers s)[c := CChecked ip]\<rparr>)"
| busy: "c < length (rd_callers s) \<Longrightarrow> rd_callers s ! c = CChecked ip \<Longrightarrow> ip \<in> rd_inflight s \<Longrightarrow>
     rstep s (s\<lparr>rd_callers := (rd_callers s)[c := CIdle]\<rparr>)"
| claim: "c < length (rd_callers s) \<Longrightarrow> rd_callers s ! c = CChecked ip \<Longrightarrow> ip \<notin> rd_inflight s \<Longrightarrow>
     rstep s (s\<lparr>rd_inflight := insert ip (rd_inflight s), rd_callers := (rd_callers s)[c := CClaimed ip]\<rparr>)"
| enqueue: "c < length (rd_callers s) \<Longrightarrow> rd_callers s ! c = CClaimed ip \<Longrightarrow> length (rd_queue s) < queueCap \<Longrightarrow>
     rstep s (s\<lparr>rd_queue := rd_queue s @ [ip], rd_callers := (rd_callers s)[c := CIdle]\<rparr>)"
| full: "c < length (rd_callers s) \<Longrightarrow> rd_callers s ! c = CClaimed ip \<Longrightarrow> \<not> length (rd_queue s) < queueCap \<Longrightarrow>
     rstep s (s\<lparr>rd_callers := (rd_callers s)[c := CDropping ip]\<rparr>)"
| dropped: "c < length (rd_callers s) \<Longrightarrow> rd_callers s ! c = CDropping ip \<Longrightarrow>
     rstep s (s\<lparr>rd_inflight := rd_inflight s - {ip}, rd_callers := (rd_callers s)[c := CIdle]\<rparr>)"
| taken: "w < length (rd_workers s) \<Longrightarrow> rd_workers s ! w = WIdle \<Longrightarrow> rd_queue s = ip # q \<Longrightarrow>
     rstep s (s\<lparr>rd_queue := q, rd_workers := (rd_workers s)[w := WLookup ip]\<rparr>)"
| answered: "w < length (rd_workers s) \<Longrightarrow> rd_workers s ! w = WLookup ip \<Longrightarrow>
     rstep s (s\<lparr>rd_workers := (rd_workers s)[w := WStore ip (lookupHost resolver ip)]\<rparr>)"
| stored: "w < length (rd_workers s) \<Longrightarrow> rd_workers s ! w = WStore ip host \<Longrightarrow>
     rstep s (s\<lparr>rd_cache := cachePut now ip host (rd_cache s), rd_workers := (rd_workers s)[w := WClear ip]\<rparr>)"
| cleared: "w < length (rd_workers s) \<Longrightarrow> rd_workers s ! w = WClear ip \<Longrightarrow>
     rstep s (s\<lparr>rd_inflight := rd_inflight s - {ip}, rd_workers := (rd_workers s)[w := WIdle]\<rparr>)"

inductive rreach :: "rdns \<Rightarrow> bool" where
  start: "rreach (newRDNS enabled callers)"
| further: "rreach s \<Longrightarrow> rstep s s' \<Longrightarrow> rreach s'"

fun worker_ip :: "worker \<Rightarrow> string option" where
  "worker_ip WIdle = None"
| "worker_ip (WLookup ip) = Some ip"
| "worker_ip (WStore ip h) = Some ip"
| "worker_ip (WClear ip) = Some ip"

fun caller_ip :: "caller \<Rightarrow> string option" where
  "caller_ip CIdle = None"
| "caller_ip (CChecked ip) = None"
| "caller_ip (CClaimed ip) = Some ip"
| "caller_ip (CDropping ip) = Some ip"

definition holds :: "string option \<Rightarrow> string \<Rightarrow> nat" where
  "holds o' ip = (if o' = Some ip then 1 else 0)"

text \<open>How many places hold an address: queue slots, workers, callers about to queue or drop it.\<close>

definition held :: "rdns \<Rightarrow> string \<Rightarrow> nat" where
  "held s ip = count_list (rd_queue s) ip
     + sum_list (map (\<lambda>w. holds (worker_ip w) ip) (rd_workers s))
     + sum_list (map (\<lambda>c. holds (caller_ip c) ip) (rd_callers s))"

definition ok_answer :: "string option \<Rightarrow> bool" where
  "ok_answer h = (case h of None \<Rightarrow> True | Some n \<Rightarrow> n \<noteq> [] \<and> ok_host n)"

definition rinv :: "rdns \<Rightarrow> bool" where
  "rinv s \<longleftrightarrow> wf_cache (rd_cache s) \<and> length (view (rd_cache s)) \<le> cacheCap
     \<and> (\<forall>(ip, e)\<in>set (view (rd_cache s)). ok_answer (ce_host e))
     \<and> length (rd_queue s) \<le> queueCap
     \<and> (\<forall>ip h. WStore ip h \<in> set (rd_workers s) \<longrightarrow> ok_answer h)
     \<and> (\<forall>ip. held s ip = (if ip \<in> rd_inflight s then 1 else 0))"

lemma lookupHost_ok: "ok_answer (lookupHost resolver ip)"
  using sanitizeHost_spec by (auto simp: ok_answer_def lookupHost_def Let_def split: option.splits list.splits)

lemma sum_update:
  assumes "i < length xs"
  shows "sum_list (map f (xs[i := x])) + f (xs ! i) = sum_list (map f xs) + (f x :: nat)"
proof -
  have "f (xs ! i) \<le> sum_list (map f xs)" using assms by (intro member_le_sum_list) auto
  then show ?thesis using assms by (simp add: map_update sum_list_update)
qed

lemma count_list_snoc: "count_list (xs @ [x]) y = count_list xs y + (if x = y then 1 else 0)"
  by (induction xs) auto

lemma cacheGet_keeps:
  assumes "wf_cache c" and "length (view c) \<le> cacheCap" and "\<forall>(ip, e)\<in>set (view c). ok_answer (ce_host e)"
    and "cacheGet now ip c = (r, c')"
  shows "wf_cache c' \<and> length (view c') \<le> cacheCap \<and> (\<forall>(ip, e)\<in>set (view c'). ok_answer (ce_host e))"
proof -
  have "lru_get now ip (view c) = (r, view c')" "wf_cache c'"
    using cacheGet_refines [OF assms(1), of now ip] assms(4) by simp_all
  moreover have "length (snd (lru_get now ip (view c))) \<le> cacheCap"
    using length_lru_get [of now ip "view c"] assms(2) by simp
  moreover have "set (snd (lru_get now ip (view c))) \<subseteq> set (view c)"
    by (auto simp: lru_get_def drop_key_def dest: map_of_SomeD split: option.splits if_splits)
  ultimately show ?thesis using assms(3) by auto
qed

lemma cachePut_keeps:
  assumes "wf_cache c" and "length (view c) \<le> cacheCap" and "\<forall>(ip, e)\<in>set (view c). ok_answer (ce_host e)"
    and "ok_answer host"
  shows "wf_cache (cachePut now ip host c) \<and> length (view (cachePut now ip host c)) \<le> cacheCap
    \<and> (\<forall>(ip, e)\<in>set (view (cachePut now ip host c)). ok_answer (ce_host e))"
proof -
  note r = cachePut_refines [OF assms(1,2), of now ip host]
  have "set (lru_put now ip host (view c)) \<subseteq> insert (ip, \<lparr>ce_host = host, ce_exp = now + entry_ttl host\<rparr>) (set (view c))"
    using set_take_subset [of cacheCap] by (fastforce simp: lru_put_def drop_key_def)
  then show ?thesis using r assms(3,4) length_lru_put by fastforce
qed

lemma held_queue: "held (s\<lparr>rd_queue := q\<rparr>) ip + count_list (rd_queue s) ip = held s ip + count_list q ip"
  by (simp add: held_def)

lemma released:
  "h + (if i = ip then 1 else 0) = k \<Longrightarrow> k = (if i \<in> F then 1 else 0 :: nat) \<Longrightarrow> h = (if i \<in> F - {ip} then 1 else 0)"
  by (auto split: if_splits)

lemma rinv_step:
  assumes "rinv s" and "rstep s s'"
  shows "rinv s'"
  using assms(2,1)
proof (cases rule: rstep.cases)
  case (hit c now ip host k)
  with assms(1) cacheGet_keeps [of "rd_cache s" now ip _ k] show ?thesis
    unfolding rinv_def held_def by auto
next
  case (miss c now ip host k)
  with assms(1) cacheGet_keeps [of "rd_cache s" now ip _ k]
    sum_update [of c "rd_callers s" "\<lambda>x. holds (caller_ip x) _" "CChecked ip"]
  show ?thesis unfolding rinv_def held_def by (auto simp: holds_def)
next
  case (busy c ip)
  with assms(1) sum_update [of c "rd_callers s" "\<lambda>x. holds (caller_ip x) _" CIdle]
  show ?thesis unfolding rinv_def held_def by (auto simp: holds_def)
next
  case (claim c ip)
  have "held s' i = held s i + (if i = ip then 1 else 0)" for i
    using claim sum_update [of c "rd_callers s" "\<lambda>x. holds (caller_ip x) i" "CClaimed ip"]
    by (simp add: held_def holds_def)
  with assms(1) claim show ?thesis unfolding rinv_def by auto
next
  case (enqueue c ip)
  have "held s' i = held s i" for i
    using enqueue sum_update [of c "rd_callers s" "\<lambda>x. holds (caller_ip x) i" CIdle]
    by (simp add: held_def holds_def count_list_snoc split: if_splits)
  with assms(1) enqueue show ?thesis unfolding rinv_def by auto
next
  case (full c ip)
  have "held s' i = held s i" for i
    using full sum_update [of c "rd_callers s" "\<lambda>x. holds (caller_ip x) i" "CDropping ip"]
    by (simp add: held_def holds_def)
  with assms(1) full show ?thesis unfolding rinv_def by auto
next
  case (dropped c ip)
  have "held s' i + (if i = ip then 1 else 0) = held s i" for i
    using dropped sum_update [of c "rd_callers s" "\<lambda>x. holds (caller_ip x) i" CIdle]
    by (simp add: held_def holds_def split: if_splits)
  then have "held s' i = (if i \<in> rd_inflight s - {ip} then 1 else 0)" for i
    using assms(1) unfolding rinv_def by (intro released) auto
  with assms(1) dropped show ?thesis unfolding rinv_def by auto
next
  case (taken w ip q)
  have "held s' i = held s i" for i
    using taken sum_update [of w "rd_workers s" "\<lambda>x. holds (worker_ip x) i" "WLookup ip"]
    by (simp add: held_def holds_def)
  with assms(1) taken show ?thesis unfolding rinv_def by (auto dest!: set_update_subset_insert [THEN subsetD])
next
  case (answered w ip resolver)
  have "held s' i = held s i" for i
    using answered sum_update [of w "rd_workers s" "\<lambda>x. holds (worker_ip x) i" "WStore ip (lookupHost resolver ip)"]
    by (simp add: held_def holds_def)
  with assms(1) answered show ?thesis
    unfolding rinv_def using lookupHost_ok by (auto dest!: set_update_subset_insert [THEN subsetD])
next
  case (stored w ip host now)
  have "held s' i = held s i" for i
    using stored sum_update [of w "rd_workers s" "\<lambda>x. holds (worker_ip x) i" "WClear ip"]
    by (simp add: held_def holds_def)
  moreover have "ok_answer host"
    using assms(1) stored unfolding rinv_def by (metis nth_mem)
  ultimately show ?thesis
    using assms(1) stored cachePut_keeps [of "rd_cache s" host now ip]
    unfolding rinv_def by (auto dest!: set_update_subset_insert [THEN subsetD])
next
  case (cleared w ip)
  have "held s' i + (if i = ip then 1 else 0) = held s i" for i
    using cleared sum_update [of w "rd_workers s" "\<lambda>x. holds (worker_ip x) i" WIdle]
    by (simp add: held_def holds_def split: if_splits)
  then have "held s' i = (if i \<in> rd_inflight s - {ip} then 1 else 0)" for i
    using assms(1) unfolding rinv_def by (intro released) auto
  with assms(1) cleared show ?thesis unfolding rinv_def by (auto dest!: set_update_subset_insert [THEN subsetD])
qed

lemma rinv_start: "rinv (newRDNS enabled callers)"
proof -
  have "sum_list (map f (replicate n x)) = n * (f x :: nat)" for f n and x :: 'b
    by (induction n) auto
  then show ?thesis
    by (auto simp: rinv_def newRDNS_def held_def holds_def sum_list_replicate)
qed

lemma rreach_rinv: "rreach s \<Longrightarrow> rinv s"
  by (induction rule: rreach.induct) (auto intro: rinv_start rinv_step)

text \<open>
  C7: Whatever callers, workers and the resolver do, the queue and the cache stay within their
  caps, an address is in flight exactly when one queue slot, worker or caller holds it (so it is
  never looked up twice at a time), and every cached name is a non-empty sanitised host name.
\<close>

theorem rdns_invariant:
  assumes "rreach s"
  shows "length (rd_queue s) \<le> queueCap \<and> length (rc_lru (rd_cache s)) \<le> cacheCap
    \<and> held s ip = (if ip \<in> rd_inflight s then 1 else 0)
    \<and> list_all (\<lambda>(el, it). ok_answer (ce_host (it_entry it))) (rc_lru (rd_cache s))"
proof -
  have "rinv s" using assms by (rule rreach_rinv)
  then show ?thesis unfolding rinv_def by (auto simp: view_def list_all_iff)
qed

lemma rreach_claimed:
  "rreach ((newRDNS True 1)\<lparr>rd_inflight := {''192.0.2.1''}, rd_queue := [''192.0.2.1'']\<rparr>)"
proof -
  let ?ip = "''192.0.2.1''" and ?s = "newRDNS True 1"
  have g: "cacheGet 0 ?ip empty_cache = ((False, None), empty_cache)"
    by (simp add: cacheGet_def empty_cache_def)
  have "rstep ?s (?s\<lparr>rd_callers := [CChecked ?ip]\<rparr>)"
    using rstep.miss [of ?s 0 0 ?ip None empty_cache] g by (simp add: newRDNS_def)
  moreover have "rstep (?s\<lparr>rd_callers := [CChecked ?ip]\<rparr>) (?s\<lparr>rd_inflight := {?ip}, rd_callers := [CClaimed ?ip]\<rparr>)"
    using rstep.claim [of 0 "?s\<lparr>rd_callers := [CChecked ?ip]\<rparr>" ?ip] by (simp add: newRDNS_def)
  moreover have "rstep (?s\<lparr>rd_inflight := {?ip}, rd_callers := [CClaimed ?ip]\<rparr>)
      (?s\<lparr>rd_inflight := {?ip}, rd_queue := [?ip]\<rparr>)"
    using rstep.enqueue [of 0 "?s\<lparr>rd_inflight := {?ip}, rd_callers := [CClaimed ?ip]\<rparr>" ?ip]
    by (simp add: newRDNS_def queueCap_def)
  ultimately show ?thesis by (meson rreach.intros)
qed

lemma rdns_invariant_witness:
  "held ((newRDNS True 1)\<lparr>rd_inflight := {''192.0.2.1''}, rd_queue := [''192.0.2.1'']\<rparr>) ''192.0.2.1'' = 1"
  using rdns_invariant [OF rreach_claimed, of "''192.0.2.1''"] by simp

text \<open>The sequential \<open>resolve\<close> is a run of an idle caller.\<close>

lemma resolve_steps:
  assumes "c < length (rd_callers s)" and "rd_callers s ! c = CIdle" and "rreach s"
  shows "rreach (snd (resolve now ip s))"
proof (cases "rd_enabled s")
  case False
  then show ?thesis using assms by (simp add: resolve_def)
next
  case True
  obtain h host k where g: "cacheGet now ip (rd_cache s) = ((h, host), k)"
    by (metis surj_pair)
  show ?thesis
  proof (cases h)
    case True': True
    with True g have "snd (resolve now ip s) = s\<lparr>rd_cache := k\<rparr>" by (simp add: resolve_def)
    then show ?thesis using rstep.hit [OF True assms(1,2), of now ip host k] g True' assms(3)
      by (metis rreach.further)
  next
    case False
    let ?k = "s\<lparr>rd_cache := k\<rparr>"
    have restore: "(rd_callers s)[c := CIdle] = rd_callers s" using assms(1,2) by (metis list_update_id)
    have 1: "rreach (?k\<lparr>rd_callers := (rd_callers s)[c := CChecked ip]\<rparr>)"
      using rstep.miss [OF True assms(1,2), of now ip host k] g False assms(3) by (metis rreach.further)
    show ?thesis
    proof (cases "ip \<in> rd_inflight s")
      case busy: True
      then have "snd (resolve now ip s) = ?k" using True g False by (simp add: resolve_def)
      moreover have "rstep (?k\<lparr>rd_callers := (rd_callers s)[c := CChecked ip]\<rparr>) ?k"
        using rstep.busy [of c "?k\<lparr>rd_callers := (rd_callers s)[c := CChecked ip]\<rparr>" ip] busy assms(1) restore by simp
      ultimately show ?thesis using 1 by (metis rreach.further)
    next
      case free: False
      let ?c = "?k\<lparr>rd_inflight := insert ip (rd_inflight s), rd_callers := (rd_callers s)[c := CClaimed ip]\<rparr>"
      have "rstep (?k\<lparr>rd_callers := (rd_callers s)[c := CChecked ip]\<rparr>) ?c"
        using rstep.claim [of c "?k\<lparr>rd_callers := (rd_callers s)[c := CChecked ip]\<rparr>" ip] free assms(1) by simp
      with 1 have 2: "rreach ?c" by (metis rreach.further)
      show ?thesis
      proof (cases "length (rd_queue s) < queueCap")
        case room: True
        then have "snd (resolve now ip s) = ?k\<lparr>rd_inflight := insert ip (rd_inflight s), rd_queue := rd_queue s @ [ip]\<rparr>"
          using True g False free by (simp add: resolve_def Let_def)
        moreover have "rstep ?c (?k\<lparr>rd_inflight := insert ip (rd_inflight s), rd_queue := rd_queue s @ [ip]\<rparr>)"
          using rstep.enqueue [of c ?c ip] room assms(1) restore by simp
        ultimately show ?thesis using 2 by (metis rreach.further)
      next
        case noroom: False
        then have "snd (resolve now ip s) = ?k\<lparr>rd_inflight := insert ip (rd_inflight s) - {ip}\<rparr>"
          using True g False free by (simp add: resolve_def Let_def)
        moreover have "rstep ?c (?c\<lparr>rd_callers := (rd_callers s)[c := CDropping ip]\<rparr>)"
          using rstep.full [of c ?c ip] noroom assms(1) by simp
        moreover have "rstep (?c\<lparr>rd_callers := (rd_callers s)[c := CDropping ip]\<rparr>)
            (?k\<lparr>rd_inflight := insert ip (rd_inflight s) - {ip}\<rparr>)"
          using rstep.dropped [of c "?c\<lparr>rd_callers := (rd_callers s)[c := CDropping ip]\<rparr>" ip] assms(1) restore by simp
        ultimately show ?thesis using 2 by (metis rreach.further)
      qed
    qed
  qed
qed

end
