(* ===== verification/ProcMap.thy ===== *)
theory ProcMap
  imports GoStrings
begin

text \<open>
  Model of \<^verbatim>\<open>web/netmon/procmap.go\<close>: the map from socket inodes to processes. The proc file
  system is a parameter: the names in \<^verbatim>\<open>/proc\<close>, the link targets under each \<^verbatim>\<open>fd\<close>
  directory, and the \<^verbatim>\<open>comm\<close> files, each of which may fail.
\<close>

record procInfo =
  pi_pid :: int
  pi_name :: string

record proc_fs =
  fs_proc :: "string list option"
  fs_fds :: "string \<Rightarrow> string option list option"
  fs_comm :: "int \<Rightarrow> string option"

definition parseSocketInode :: "string \<Rightarrow> u32 option" where
  "parseSocketInode link =
     (let pre = ''socket:['' in
      if \<not> has_prefix link pre \<or> \<not> has_suffix link '']'' then None
      else case slice link (length pre) (length link - 1) of
          None \<Rightarrow> None
        | Some num \<Rightarrow> (case ParseUint 64 num of (v, ok) \<Rightarrow> if ok then Some (word_of_nat v) else None))"

definition readComm :: "proc_fs \<Rightarrow> int \<Rightarrow> string" where
  "readComm fs pid = (case fs_comm fs pid of None \<Rightarrow> '''' | Some d \<Rightarrow> TrimRight (CHR 0x0A) d)"

text \<open>The inner loop over the links, then the loop over the directories.\<close>

fun add_links :: "procInfo \<Rightarrow> string option list \<Rightarrow> (u32 \<Rightarrow> procInfo option) \<Rightarrow> u32 \<Rightarrow> procInfo option" where
  "add_links p [] out = out"
| "add_links p (None # ls) out = add_links p ls out"
| "add_links p (Some link # ls) out =
     (case parseSocketInode link of
        None \<Rightarrow> add_links p ls out
      | Some ino \<Rightarrow> add_links p ls (if out ino = None then out(ino \<mapsto> p) else out))"

fun add_procs :: "proc_fs \<Rightarrow> string list \<Rightarrow> (u32 \<Rightarrow> procInfo option) \<Rightarrow> u32 \<Rightarrow> procInfo option" where
  "add_procs fs [] out = out"
| "add_procs fs (name # names) out =
     (case Atoi name of
        None \<Rightarrow> add_procs fs names out
      | Some pid \<Rightarrow>
          if pid \<le> 0 then add_procs fs names out
          else case fs_fds fs name of
              None \<Rightarrow> add_procs fs names out
            | Some fds \<Rightarrow>
                add_procs fs names (add_links \<lparr>pi_pid = pid, pi_name = readComm fs pid\<rparr> fds out))"

definition buildInodeMap :: "proc_fs \<Rightarrow> u32 \<Rightarrow> procInfo option" where
  "buildInodeMap fs =
     (case fs_proc fs of None \<Rightarrow> Map.empty | Some names \<Rightarrow> add_procs fs names Map.empty)"

section \<open>The first owner wins\<close>

text \<open>All sockets of all processes, in the order of the walk.\<close>

definition links_of :: "procInfo \<Rightarrow> string option list \<Rightarrow> (u32 \<times> procInfo) list" where
  "links_of p ls = List.map_filter (\<lambda>l. map_option (\<lambda>ino. (ino, p)) (Option.bind l parseSocketInode)) ls"

definition sockets_of :: "proc_fs \<Rightarrow> string \<Rightarrow> (u32 \<times> procInfo) list" where
  "sockets_of fs name =
     (case (Atoi name, fs_fds fs name) of
        (Some pid, Some fds) \<Rightarrow>
          if pid \<le> 0 then [] else links_of \<lparr>pi_pid = pid, pi_name = readComm fs pid\<rparr> fds
      | _ \<Rightarrow> [])"

lemma add_links_eq: "add_links p ls out = map_of (links_of p ls) ++ out"
proof (induction p ls out rule: add_links.induct)
  case (3 p link ls out)
  then show ?case
    by (auto simp: links_of_def List.map_filter_simps map_add_def fun_eq_iff split: option.splits)
qed (simp_all add: links_of_def List.map_filter_simps)

lemma add_procs_eq: "add_procs fs names out = map_of (concat (map (sockets_of fs) names)) ++ out"
  by (induction fs names out rule: add_procs.induct)
    (auto simp: sockets_of_def add_links_eq map_of_append split: option.splits)

text \<open>
  C27: The inode map sends an inode to the first process, in the order of the walk over
  \<^verbatim>\<open>/proc\<close>, one of whose readable descriptors links to \<open>socket:[inode]\<close>; unreadable
  directories and links change nothing else.
\<close>

theorem buildInodeMap_first:
  "buildInodeMap fs ino =
     map_of (concat (map (sockets_of fs) (case fs_proc fs of None \<Rightarrow> [] | Some names \<Rightarrow> names))) ino"
  by (simp add: buildInodeMap_def add_procs_eq split: option.splits)

text \<open>The kernel's link text is parsed back to the inode, reduced to 32 bits.\<close>

lemma parseSocketInode_link [codec_simps]:
  assumes "n < 2 ^ 64"
  shows "parseSocketInode (''socket:['' @ dec n @ '']'') = Some (word_of_nat n)"
proof -
  have "slice (''socket:['' @ dec n @ '']'') (length ''socket:['')
      (length (''socket:['' @ dec n @ '']'') - 1) = Some (dec n)"
    using slice_append_mid [of "''socket:[''" "dec n" "'']''"] by simp
  moreover have "suffix '']'' (''socket:['' @ dec n @ '']'')"
    unfolding append_assoc [symmetric] by (rule suffixI) simp
  moreover have "prefix ''socket:['' (''socket:['' @ dec n @ '']'')" by (rule prefixI) simp
  ultimately show ?thesis
    using ParseUint_dec [OF assms] unfolding parseSocketInode_def Let_def by simp
qed

end
