(* ===== verification/NetMon.thy ===== *)
theory NetMon
  imports Classify Netlink ASN OrgCat RDNS ProcMap GoFloat
begin

text \<open>
  Model of \<^verbatim>\<open>web/netmon/netmon.go\<close>: socket snapshots through netlink and the inode map, and
  \<^verbatim>\<open>build\<close>, which turns two snapshots into the document served. Go iterates a map in any
  order: the current snapshot is a list of keyed sockets in that order, and the order of the
  per-process map is the parameter \<open>perm\<close>. Bandwidths are the rationals of their floats. The
  reverse DNS state is threaded through the connections; \<open>now\<close> gives the clock at each of them.
\<close>

section \<open>Rows and snapshots\<close>

definition maxRows :: nat where "maxRows = 512"

record listenRow =
  lr_proto :: string
  lr_port :: int

record processRow =
  pr_pid :: int
  pr_name :: string
  pr_rx :: rat
  pr_tx :: rat
  pr_conns :: nat
  pr_listen :: "listenRow list"

record connRow =
  cr_proc :: string
  cr_pid :: int
  cr_local :: string
  cr_peer :: string
  cr_port :: int
  cr_rx :: rat
  cr_tx :: rat
  cr_scope :: scope
  cr_host :: "string option"
  cr_country :: "string option"
  cr_asn :: u32
  cr_org :: string
  cr_cat :: string

type_synonym tally = "(string \<times> nat) list"

record snapshot =
  sn_processes :: "processRow list"
  sn_connections :: "connRow list"
  sn_countries :: tally
  sn_categories :: tally
  sn_private :: nat
  sn_time :: rat
  sn_rdns :: bool
  sn_geoip :: bool
  sn_asn :: bool
  sn_attribution :: string

definition empty_snapshot :: snapshot where
  "empty_snapshot = \<lparr>sn_processes = [], sn_connections = [], sn_countries = [], sn_categories = [],
     sn_private = 0, sn_time = 0, sn_rdns = False, sn_geoip = False, sn_asn = False, sn_attribution = ''''\<rparr>"

record connKey =
  k_localIP :: string
  k_localPort :: int
  k_peerIP :: string
  k_peerPort :: int

record connState =
  cs_pid :: int
  cs_name :: string
  cs_hasProc :: bool
  cs_rxOK :: bool
  cs_rx :: u64
  cs_txOK :: bool
  cs_tx :: u64
  cs_peerIP :: string
  cs_peerPort :: int
  cs_local :: string

record listenerEntry =
  le_proto :: string
  le_ip :: string
  le_port :: int
  le_pid :: int
  le_name :: string
  le_hasProc :: bool

definition attribution :: string where
  "attribution = ''GeoIP: ip-location-db geo-whois-asn-country (CC BY 4.0, NRO). ''
     @ ''ASN/org: ip-location-db asn (CC BY 4.0, RouteViews/DB-IP/NRO). ''
     @ ''Map: simple-world-map by Al MacDonald / flekschas (CC BY-SA 3.0).''"

section \<open>Snapshots of the sockets\<close>

definition commOrUnknown :: "string \<Rightarrow> string" where
  "commOrUnknown comm = (if comm = '''' then ''?'' else comm)"

text \<open>Maps keep the place of a key that is stored again.\<close>

fun put_key :: "'k \<Rightarrow> 'v \<Rightarrow> ('k \<times> 'v) list \<Rightarrow> ('k \<times> 'v) list" where
  "put_key k v [] = [(k, v)]"
| "put_key k v ((k', v') # m) = (if k = k' then (k, v) # m else (k', v') # put_key k v m)"

text \<open>The callbacks of the two snapshot functions.\<close>

definition add_established ::
  "(u32 \<Rightarrow> procInfo option) \<Rightarrow> (connKey \<times> connState) list \<Rightarrow> diagSocket \<Rightarrow> (connKey \<times> connState) list" where
  "add_established inodes out s =
     (let li = ip_String (sk_srcIP s);
          pi = ip_String (sk_dstIP s);
          key = \<lparr>k_localIP = li, k_localPort = sk_srcPort s, k_peerIP = pi, k_peerPort = sk_dstPort s\<rparr>;
          cs = \<lparr>cs_pid = 0, cs_name = ''?'', cs_hasProc = False, cs_rxOK = sk_rxOK s, cs_rx = sk_rx s,
            cs_txOK = sk_txOK s, cs_tx = sk_tx s, cs_peerIP = pi, cs_peerPort = sk_dstPort s,
            cs_local = li @ '':'' @ Itoa (sk_srcPort s)\<rparr>;
          cs = (case inodes (sk_inode s) of
                  Some owner \<Rightarrow>
                    if sk_inode s \<noteq> 0
                    then cs\<lparr>cs_pid := pi_pid owner, cs_name := commOrUnknown (pi_name owner), cs_hasProc := True\<rparr>
                    else cs
                | None \<Rightarrow> cs)
      in put_key key cs out)"

definition add_listener ::
  "(u32 \<Rightarrow> procInfo option) \<Rightarrow> string \<Rightarrow> listenerEntry list \<Rightarrow> diagSocket \<Rightarrow> listenerEntry list" where
  "add_listener inodes proto res s =
     (let e = \<lparr>le_proto = proto, le_ip = ip_String (sk_srcIP s), le_port = sk_srcPort s, le_pid = 0,
            le_name = ''?'', le_hasProc = False\<rparr>;
          e = (case inodes (sk_inode s) of
                 Some owner \<Rightarrow>
                   if sk_inode s \<noteq> 0
                   then e\<lparr>le_pid := pi_pid owner, le_name := commOrUnknown (pi_name owner), le_hasProc := True\<rparr>
                   else e
               | None \<Rightarrow> e)
      in res @ [e])"

text \<open>A dump that has come back: its callback state and whether it was without error.\<close>

definition dumped :: "'st dump option \<Rightarrow> ('st \<times> bool) option" where
  "dumped d = (case d of Some (Returned st e) \<Rightarrow> Some (st, e = None) | _ \<Rightarrow> None)"

text \<open>The kernel's side of each dump, by family and protocol.\<close>

type_synonym kernel = "u8 \<Rightarrow> u8 \<Rightarrow> nl_calls"

definition snapshotEstablished ::
  "kernel \<Rightarrow> proc_fs \<Rightarrow> ((connKey \<times> connState) list \<times> bool) option" where
  "snapshotEstablished nl fs =
     (let inodes = buildInodeMap fs;
          dump = (\<lambda>fam out. dumped (netlinkDump (nl fam ipprotoTCP) fam ipprotoTCP (stateMask tcpEstablished)
                    inetDiagInfoBit (add_established inodes) out))
      in do {
        (out1, ok1) \<leftarrow> dump afInet [];
        (out2, ok2) \<leftarrow> dump afInet6 out1;
        Some (out2, ok1 \<or> ok2)
      })"

definition snapshotListeners :: "kernel \<Rightarrow> proc_fs \<Rightarrow> listenerEntry list option" where
  "snapshotListeners nl fs =
     (let inodes = buildInodeMap fs;
          dump = (\<lambda>proto ipproto states fam res.
            dumped (netlinkDump (nl fam ipproto) fam ipproto states 0 (add_listener inodes proto) res))
      in do {
        (r1, _) \<leftarrow> dump ''tcp'' ipprotoTCP (stateMask tcpListen) afInet [];
        (r2, _) \<leftarrow> dump ''tcp'' ipprotoTCP (stateMask tcpListen) afInet6 r1;
        (r3, _) \<leftarrow> dump ''udp'' ipprotoUDP statesAll afInet r2;
        (r4, _) \<leftarrow> dump ''udp'' ipprotoUDP statesAll afInet6 r3;
        Some r4
      })"

section \<open>Building the document\<close>

definition satSub :: "u64 \<Rightarrow> u64 \<Rightarrow> u64" where
  "satSub a b = (if a < b then 0 else a - b)"

fun bump :: "string \<Rightarrow> tally \<Rightarrow> tally" where
  "bump k [] = [(k, 1)]"
| "bump k ((k', n) # m) = (if k = k' then (k', n + 1) # m else (k', n) # bump k m)"

text \<open>The databases a build consults.\<close>

record geo_env =
  ge_geo :: geoState
  ge_asn :: asnState
  ge_upper :: "string \<Rightarrow> string"

type_synonym perpid = "(int \<times> processRow) list"

text \<open>
  \<^verbatim>\<open>aggFor\<close> fetches or creates the row of a process; \<open>with_agg\<close> applies to it what the
  caller does through the pointer.
\<close>

fun with_agg :: "int \<Rightarrow> string \<Rightarrow> (processRow \<Rightarrow> processRow) \<Rightarrow> perpid \<Rightarrow> perpid" where
  "with_agg pid name f [] =
     [(pid, f \<lparr>pr_pid = pid, pr_name = name, pr_rx = 0, pr_tx = 0, pr_conns = 0, pr_listen = []\<rparr>)]"
| "with_agg pid name f ((p, a) # m) =
     (if p = pid then
        (p, f (if (pr_name a = ''?'' \<or> pr_name a = '''') \<and> name \<noteq> ''?'' \<and> name \<noteq> ''''
               then a\<lparr>pr_name := name\<rparr> else a)) # m
      else (p, a) # with_agg pid name f m)"

record accum =
  ac_conns :: "connRow list"
  ac_perpid :: perpid
  ac_countries :: tally
  ac_categories :: tally
  ac_private :: nat
  ac_rdns :: rdns

definition rate :: "bool \<Rightarrow> u64 \<Rightarrow> u64 \<Rightarrow> rat \<Rightarrow> rat" where
  "rate ok cur prev dt = (if ok then fdiv (float_of_int (uint (satSub cur prev))) dt else 0)"

text \<open>The bandwidth of a connection since the previous snapshot.\<close>

definition conn_rates :: "(connKey \<Rightarrow> connState option) \<Rightarrow> rat \<Rightarrow> connKey \<times> connState \<Rightarrow> rat \<times> rat" where
  "conn_rates prev dt kc =
     (let (key, c) = kc in
      case prev key of
        Some p \<Rightarrow>
          if 0 < dt then
            (rate (cs_rxOK c \<and> cs_rxOK p) (cs_rx c) (cs_rx p) dt,
             rate (cs_txOK c \<and> cs_txOK p) (cs_tx c) (cs_tx p) dt)
          else (0, 0)
      | None \<Rightarrow> (0, 0))"

text \<open>What is looked up for a global peer: host, country, AS number, organisation, category.\<close>

definition peer_info ::
  "geo_env \<Rightarrow> int \<Rightarrow> string \<Rightarrow> accum
     \<Rightarrow> string option \<times> string option \<times> u32 \<times> string \<times> string \<times> accum" where
  "peer_info env now ip a =
     (let (host, r) = resolve now ip (ac_rdns a);
          a = a\<lparr>ac_rdns := r\<rparr>;
          code = country (ge_geo env) ip;
          cc = (if code \<noteq> '''' then Some code else None);
          a = (if code \<noteq> '''' then a\<lparr>ac_countries := bump code (ac_countries a)\<rparr> else a);
          (asn, org) = asnLookup (ge_asn env) ip;
          known = (org \<noteq> '''' \<or> asn \<noteq> 0);
          cCat = (if known then categorize (ge_upper env) asn org else '''');
          catKey = (if known then cCat else ''unknown'')
      in (host, cc, if known then asn else 0, if known then org else '''', cCat,
          a\<lparr>ac_categories := bump catKey (ac_categories a)\<rparr>))"

text \<open>One pass of the loop over the current sockets.\<close>

definition add_conn ::
  "geo_env \<Rightarrow> (connKey \<Rightarrow> connState option) \<Rightarrow> rat \<Rightarrow> int \<Rightarrow> connKey \<times> connState \<Rightarrow> accum \<Rightarrow> accum" where
  "add_conn env prev dt now kc a =
     (let c = snd kc;
          (rx, tx) = conn_rates prev dt kc;
          pid = (if cs_hasProc c then cs_pid c else 0);
          name = (if cs_hasProc c then cs_name c else ''?'');
          sc = classify (cs_peerIP c);
          (host, cc, cAsn, cOrg, cCat, a) =
            (if sc = Global then peer_info env now (cs_peerIP c) a else (None, None, 0, '''', '''', a));
          a = (if sc = Lan then a\<lparr>ac_private := ac_private a + 1\<rparr> else a);
          a = a\<lparr>ac_conns := ac_conns a @
                [\<lparr>cr_proc = name, cr_pid = pid, cr_local = cs_local c, cr_peer = cs_peerIP c,
                  cr_port = cs_peerPort c, cr_rx = rx, cr_tx = tx, cr_scope = sc, cr_host = host,
                  cr_country = cc, cr_asn = cAsn, cr_org = cOrg, cr_cat = cCat\<rparr>]\<rparr>
      in if cs_hasProc c then
           a\<lparr>ac_perpid := with_agg pid name
               (\<lambda>r. r\<lparr>pr_rx := fadd (pr_rx r) rx, pr_tx := fadd (pr_tx r) tx, pr_conns := pr_conns r + 1\<rparr>)
               (ac_perpid a)\<rparr>
         else a)"

fun add_conns ::
  "geo_env \<Rightarrow> (connKey \<Rightarrow> connState option) \<Rightarrow> rat \<Rightarrow> (nat \<Rightarrow> int) \<Rightarrow> nat
     \<Rightarrow> (connKey \<times> connState) list \<Rightarrow> accum \<Rightarrow> accum" where
  "add_conns env prev dt now i [] a = a"
| "add_conns env prev dt now i (kc # kcs) a =
     add_conns env prev dt now (Suc i) kcs (add_conn env prev dt (now i) kc a)"

definition add_listen :: "listenerEntry \<Rightarrow> perpid \<Rightarrow> perpid" where
  "add_listen l m =
     (if \<not> le_hasProc l then m
      else
        let lr = \<lparr>lr_proto = le_proto l, lr_port = le_port l\<rparr>
        in with_agg (le_pid l) (le_name l)
             (\<lambda>r. if lr \<in> set (pr_listen r) then r else r\<lparr>pr_listen := pr_listen r @ [lr]\<rparr>) m)"

definition proc_bw_more :: "processRow \<Rightarrow> processRow \<Rightarrow> bool" where
  "proc_bw_more a b \<longleftrightarrow> fadd (pr_rx a) (pr_tx a) > fadd (pr_rx b) (pr_tx b)"

definition conn_bw_more :: "connRow \<Rightarrow> connRow \<Rightarrow> bool" where
  "conn_bw_more a b \<longleftrightarrow> fadd (cr_rx a) (cr_tx a) > fadd (cr_rx b) (cr_tx b)"

definition cap_rows :: "'a list \<Rightarrow> 'a list" where
  "cap_rows xs = (if maxRows < length xs then take maxRows xs else xs)"

definition accum0 :: "rdns \<Rightarrow> accum" where
  "accum0 r = \<lparr>ac_conns = [], ac_perpid = [], ac_countries = [], ac_categories = [], ac_private = 0, ac_rdns = r\<rparr>"

definition build ::
  "geo_env \<Rightarrow> (processRow list \<Rightarrow> processRow list) \<Rightarrow> (nat \<Rightarrow> int)
     \<Rightarrow> (connKey \<Rightarrow> connState option) \<Rightarrow> (connKey \<times> connState) list \<Rightarrow> rat \<Rightarrow> listenerEntry list
     \<Rightarrow> rdns \<Rightarrow> snapshot \<times> rdns" where
  "build env perm now prev cur dt listeners r =
     (let a = add_conns env prev dt now 0 cur (accum0 r);
          perpid = fold add_listen listeners (ac_perpid a);
          procsList = perm (map snd perpid)
      in (empty_snapshot\<lparr>sn_processes := cap_rows (SliceStable proc_bw_more procsList),
            sn_connections := cap_rows (SliceStable conn_bw_more (ac_conns a)),
            sn_countries := ac_countries a, sn_categories := ac_categories a,
            sn_private := ac_private a\<rparr>,
          ac_rdns a))"

section \<open>The sampler\<close>

record sampler =
  sp_prev :: "(connKey \<times> connState) list"
  sp_tprev :: int
  sp_state :: snapshot

text \<open>What one pass of the sampler's loop meets: the kernel and proc file system, and its clocks.\<close>

record sample_env =
  se_nl :: kernel
  se_fs :: proc_fs
  se_tcur :: int
  se_time :: int
  se_now :: "nat \<Rightarrow> int"
  se_perm :: "processRow list \<Rightarrow> processRow list"

definition seconds :: "int \<Rightarrow> rat" where
  "seconds ns = fadd (float_of_int (ns div 10 ^ 9)) (fdiv (float_of_int (ns mod 10 ^ 9)) (float_of_int (10 ^ 9)))"

definition sample_pass :: "geo_env \<Rightarrow> sample_env \<Rightarrow> sampler \<times> rdns \<Rightarrow> (sampler \<times> rdns) option" where
  "sample_pass env w sr =
     (let (sp, r) = sr in do {
        (cur, ok) \<leftarrow> snapshotEstablished (se_nl w) (se_fs w);
        if \<not> ok then Some (sp, r)
        else do {
          listeners \<leftarrow> snapshotListeners (se_nl w) (se_fs w);
          let dt = seconds (se_tcur w - sp_tprev sp);
          let (st, r') = build env (se_perm w) (se_now w) (map_of (sp_prev sp)) cur dt listeners r;
          Some (\<lparr>sp_prev = cur, sp_tprev = se_tcur w,
                 sp_state = st\<lparr>sn_time := fdiv (float_of_int (se_time w)) (float_of_int (10 ^ 9))\<rparr>\<rparr>, r')
        }
      })"

text \<open>
  The outer loop: a run of the sampler starts with a baseline, empty when no dump succeeds, and ends
  only with a panic, after which the next one starts with a new baseline. The flag tells whether a
  run is under way; what was published stays.
\<close>

definition take_baseline :: "sample_env \<Rightarrow> sampler \<Rightarrow> sampler option" where
  "take_baseline w sp = do {
     (cur, ok) \<leftarrow> snapshotEstablished (se_nl w) (se_fs w);
     Some (sp\<lparr>sp_prev := (if ok then cur else []), sp_tprev := se_tcur w\<rparr>)
   }"

definition sampler_turn :: "geo_env \<Rightarrow> sample_env \<Rightarrow> bool \<times> sampler \<times> rdns \<Rightarrow> bool \<times> sampler \<times> rdns" where
  "sampler_turn env w s =
     (case s of (running, sp, r) \<Rightarrow>
        if \<not> running then
          (case take_baseline w sp of None \<Rightarrow> (False, sp, r) | Some sp' \<Rightarrow> (True, sp', r))
        else
          (case sample_pass env w (sp, r) of None \<Rightarrow> (False, sp, r) | Some (sp', r') \<Rightarrow> (True, sp', r')))"

definition SnapshotJSON :: "geo_env \<Rightarrow> rdns \<Rightarrow> snapshot \<Rightarrow> snapshot" where
  "SnapshotJSON env r s =
     s\<lparr>sn_rdns := rd_enabled r, sn_geoip := Ready (ge_geo env), sn_asn := ASNReady (ge_asn env),
       sn_attribution := attribution\<rparr>"

section \<open>What one connection contributes\<close>

definition cat_key :: "geo_env \<Rightarrow> string \<Rightarrow> string" where
  "cat_key env ip =
     (let (asn, org) = asnLookup (ge_asn env) ip
      in if org \<noteq> '''' \<or> asn \<noteq> 0 then categorize (ge_upper env) asn org else ''unknown'')"

abbreviation is_global :: "connKey \<times> connState \<Rightarrow> bool" where
  "is_global kc \<equiv> classify (cs_peerIP (snd kc)) = Global"

lemma not_Global [simp]: "sc \<noteq> Global \<longleftrightarrow> sc = Lan" and not_Lan [simp]: "sc \<noteq> Lan \<longleftrightarrow> sc = Global"
  by (cases sc; simp)+

text \<open>The row of a connection: everything but the host comes from the arguments alone.\<close>

definition row_matches ::
  "geo_env \<Rightarrow> (connKey \<Rightarrow> connState option) \<Rightarrow> rat \<Rightarrow> connKey \<times> connState \<Rightarrow> connRow \<Rightarrow> bool" where
  "row_matches env prev dt kc row \<longleftrightarrow>
     (let c = snd kc; ip = cs_peerIP c in
      cr_proc row = (if cs_hasProc c then cs_name c else ''?'') \<and> cr_pid row = (if cs_hasProc c then cs_pid c else 0)
      \<and> cr_local row = cs_local c \<and> cr_peer row = ip \<and> cr_port row = cs_peerPort c
      \<and> (cr_rx row, cr_tx row) = conn_rates prev dt kc \<and> cr_scope row = classify ip
      \<and> (if classify ip = Global
         then cr_country row = (if country (ge_geo env) ip = '''' then None else Some (country (ge_geo env) ip))
           \<and> (cr_asn row, cr_org row) = asnLookup (ge_asn env) ip
           \<and> (if cat_key env ip = ''unknown'' then cr_cat row = '''' else cr_cat row = cat_key env ip)
         else cr_host row = None \<and> cr_country row = None \<and> cr_asn row = 0 \<and> cr_org row = '''' \<and> cr_cat row = ''''))"

lemma first_rule_known: "first_rule up rs \<in> insert catOther (set (map r_cat rs))"
  by (induction rs) auto

lemma categorize_not_unknown: "categorize uni asn org \<noteq> ''unknown''"
proof -
  have "list_all (\<lambda>r. r_cat r \<noteq> ''unknown'') orgRules" by code_simp
  then have "first_rule up orgRules \<noteq> ''unknown''" for up
    using first_rule_known [of up orgRules] by (auto simp: list_all_iff catOther_def)
  then show ?thesis by (simp add: categorize_def Let_def cat_defs)
qed

lemma peer_info_eq:
  "peer_info env now ip a =
     (fst (resolve now ip (ac_rdns a)),
      if country (ge_geo env) ip = '''' then None else Some (country (ge_geo env) ip),
      fst (asnLookup (ge_asn env) ip), snd (asnLookup (ge_asn env) ip),
      if cat_key env ip = ''unknown'' then '''' else cat_key env ip,
      a\<lparr>ac_rdns := snd (resolve now ip (ac_rdns a)),
        ac_countries := (if country (ge_geo env) ip = '''' then ac_countries a
          else bump (country (ge_geo env) ip) (ac_countries a)),
        ac_categories := bump (cat_key env ip) (ac_categories a)\<rparr>)"
proof -
  obtain h r where h: "resolve now ip (ac_rdns a) = (h, r)" by (cases "resolve now ip (ac_rdns a)")
  obtain asn org where o: "asnLookup (ge_asn env) ip = (asn, org)" by (cases "asnLookup (ge_asn env) ip")
  show ?thesis
    using categorize_not_unknown [of "ge_upper env" asn org]
    by (simp add: peer_info_def cat_key_def Let_def h o)
qed

lemma add_conn_fields:
  fixes env prev dt t kc
  defines "b \<equiv> add_conn env prev dt t kc"
  shows "ac_private (b a) = ac_private a + (if is_global kc then 0 else 1)"
    and "ac_categories (b a) = (if is_global kc then bump (cat_key env (cs_peerIP (snd kc))) (ac_categories a) else ac_categories a)"
    and "ac_countries (b a) = (if is_global kc \<and> country (ge_geo env) (cs_peerIP (snd kc)) \<noteq> ''''
      then bump (country (ge_geo env) (cs_peerIP (snd kc))) (ac_countries a) else ac_countries a)"
    and "ac_rdns (b a) = (if is_global kc then snd (resolve t (cs_peerIP (snd kc)) (ac_rdns a)) else ac_rdns a)"
    and "ac_perpid (b a) = (if cs_hasProc (snd kc) then with_agg (cs_pid (snd kc)) (cs_name (snd kc))
      (\<lambda>r. r\<lparr>pr_rx := fadd (pr_rx r) (fst (conn_rates prev dt kc)), pr_tx := fadd (pr_tx r) (snd (conn_rates prev dt kc)),
        pr_conns := pr_conns r + 1\<rparr>) (ac_perpid a) else ac_perpid a)"
    and "\<exists>row. ac_conns (b a) = ac_conns a @ [row] \<and> row_matches env prev dt kc row"
  by (cases "classify (cs_peerIP (snd kc))";
      simp add: b_def add_conn_def Let_def peer_info_eq case_prod_beta row_matches_def)+

section \<open>Tallies\<close>

definition tally_count :: "string \<Rightarrow> tally \<Rightarrow> nat" where
  "tally_count k m = (case map_of m k of None \<Rightarrow> 0 | Some n \<Rightarrow> n)"

lemma tally_count_bump: "tally_count k (bump k' m) = tally_count k m + (if k = k' then 1 else 0)"
  by (induction k' m rule: bump.induct) (auto simp: tally_count_def)

lemma add_conns_tallies:
  fixes env prev dt now i cur a
  defines "cn \<equiv> \<lambda>kc. country (ge_geo env) (cs_peerIP (snd kc))"
  shows "ac_private (add_conns env prev dt now i cur a) = ac_private a + length (filter (\<lambda>kc. \<not> is_global kc) cur)"
    and "tally_count k (ac_categories (add_conns env prev dt now i cur a))
      = tally_count k (ac_categories a) + length (filter (\<lambda>kc. is_global kc \<and> cat_key env (cs_peerIP (snd kc)) = k) cur)"
    and "tally_count k (ac_countries (add_conns env prev dt now i cur a))
      = tally_count k (ac_countries a) + length (filter (\<lambda>kc. is_global kc \<and> cn kc \<noteq> '''' \<and> cn kc = k) cur)"
  by (induction cur arbitrary: i a) (auto simp: add_conn_fields tally_count_bump cn_def)

lemma add_conns_rows:
  "\<exists>rows. ac_conns (add_conns env prev dt now i cur a) = ac_conns a @ rows \<and> list_all2 (row_matches env prev dt) cur rows"
proof (induction cur arbitrary: i a)
  case (Cons kc cur)
  obtain row where "ac_conns (add_conn env prev dt (now i) kc a) = ac_conns a @ [row]" "row_matches env prev dt kc row"
    using add_conn_fields(6) by blast
  moreover obtain rows where "ac_conns (add_conns env prev dt now (Suc i) cur (add_conn env prev dt (now i) kc a))
      = ac_conns (add_conn env prev dt (now i) kc a) @ rows" "list_all2 (row_matches env prev dt) cur rows"
    using Cons.IH by blast
  ultimately show ?case by (intro exI [of _ "row # rows"]) simp
qed simp

text \<open>
  C21: The tallies of a built document are exact: every connection counts once, either as private
  or in the one category of its peer's network, and in its country when one is known.
\<close>

theorem build_tallies:
  fixes env perm now prev cur dt listeners r
  defines "s \<equiv> fst (build env perm now prev cur dt listeners r)"
    and "cn \<equiv> \<lambda>kc. country (ge_geo env) (cs_peerIP (snd kc))"
  shows "sn_private s = length (filter (\<lambda>kc. classify (cs_peerIP (snd kc)) = Lan) cur)
    \<and> tally_count cat (sn_categories s) = length (filter (\<lambda>kc. is_global kc \<and> cat_key env (cs_peerIP (snd kc)) = cat) cur)
    \<and> tally_count code (sn_countries s) = length (filter (\<lambda>kc. is_global kc \<and> cn kc \<noteq> '''' \<and> cn kc = code) cur)"
proof -
  have "ac_private (accum0 r) = 0" "tally_count k (ac_categories (accum0 r)) = 0"
    "tally_count k (ac_countries (accum0 r)) = 0" for k
    by (simp_all add: accum0_def tally_count_def)
  then show ?thesis by (simp add: s_def cn_def build_def Let_def add_conns_tallies)
qed

section \<open>Sorting and capping\<close>

interpretation proc_rows: less_order proc_bw_more
  unfolding proc_bw_more_def by (rule key_desc_order)

interpretation conn_rows: less_order conn_bw_more
  unfolding conn_bw_more_def by (rule key_desc_order)

lemma cap_rows_take: "cap_rows xs = take maxRows xs"
  by (simp add: cap_rows_def)

lemma sorted_wrt_cap: "sorted_wrt P xs \<Longrightarrow> sorted_wrt P (cap_rows xs)"
  by (simp add: cap_rows_take sorted_wrt_take)

text \<open>
  C16: The connections served are the first \<^verbatim>\<open>maxRows\<close> of a stable sort, by falling total
  bandwidth, of one row per current socket; each row carries its socket's addresses, rates and
  owner, and rows of private peers carry no host, country or network.
\<close>

theorem build_connections:
  "\<exists>rows. list_all2 (row_matches env prev dt) cur rows
     \<and> sn_connections (fst (build env perm now prev cur dt listeners r)) = take maxRows (SliceStable conn_bw_more rows)
     \<and> is_sort_of conn_bw_more rows (SliceStable conn_bw_more rows)
     \<and> filter (\<lambda>y. \<not> conn_bw_more x y \<and> \<not> conn_bw_more y x) (SliceStable conn_bw_more rows)
         = filter (\<lambda>y. \<not> conn_bw_more x y \<and> \<not> conn_bw_more y x) rows"
proof -
  obtain rows where "ac_conns (add_conns env prev dt now 0 cur (accum0 r)) = [] @ rows"
    "list_all2 (row_matches env prev dt) cur rows"
    using add_conns_rows [of env prev dt now 0 cur "accum0 r"] by (auto simp: accum0_def)
  then show ?thesis
    using conn_rows.SliceStable_is_sort [of rows] conn_rows.SliceStable_stable [of x rows]
    by (intro exI [of _ rows]) (simp add: build_def Let_def cap_rows_take)
qed

section \<open>Processes\<close>

type_synonym core = "rat \<times> rat \<times> nat \<times> listenRow list"

definition core_of :: "processRow \<Rightarrow> core" where
  "core_of r = (pr_rx r, pr_tx r, pr_conns r, pr_listen r)"

text \<open>The figures kept for a process, zero when it has no row yet.\<close>

definition core_at :: "perpid \<Rightarrow> int \<Rightarrow> core" where
  "core_at m p = (case map_of m p of None \<Rightarrow> (0, 0, 0, []) | Some r \<Rightarrow> core_of r)"

definition wf_perpid :: "perpid \<Rightarrow> bool" where
  "wf_perpid m \<longleftrightarrow> distinct (map fst m) \<and> (\<forall>(p, r)\<in>set m. pr_pid r = p)"

text \<open>What \<open>f\<close> does to a row does not look at the name and keeps the pid.\<close>

definition on_core :: "(processRow \<Rightarrow> processRow) \<Rightarrow> (core \<Rightarrow> core) \<Rightarrow> bool" where
  "on_core f g \<longleftrightarrow> (\<forall>r. core_of (f r) = g (core_of r) \<and> pr_pid (f r) = pr_pid r)"

lemma fst_with_agg: "fst ` set (with_agg pid name f m) = insert pid (fst ` set m)"
  by (induction pid name f m rule: with_agg.induct) (auto simp: image_iff)

lemma with_agg_wf:
  assumes "wf_perpid m" and "on_core f g"
  shows "wf_perpid (with_agg pid name f m)"
  using assms
proof (induction pid name f m rule: with_agg.induct)
  case (2 pid name f p a m)
  have "p \<notin> fst ` set (with_agg pid name f m)" if "p \<noteq> pid"
    using 2(2) that unfolding fst_with_agg by (auto simp: wf_perpid_def)
  with 2 show ?case by (auto simp: wf_perpid_def on_core_def)
qed (auto simp: wf_perpid_def on_core_def)

lemma core_at_with_agg:
  assumes "on_core f g"
  shows "core_at (with_agg pid name f m) p = (if p = pid then g (core_at m pid) else core_at m p)"
  using assms
  by (induction pid name f m rule: with_agg.induct) (auto simp: core_at_def on_core_def core_of_def)

definition attributed :: "int \<Rightarrow> connKey \<times> connState \<Rightarrow> bool" where
  "attributed p kc \<longleftrightarrow> cs_hasProc (snd kc) \<and> cs_pid (snd kc) = p"

definition add_rates :: "rat \<times> rat \<Rightarrow> core \<Rightarrow> core" where
  "add_rates = (\<lambda>(rx, tx) (srx, stx, n, ls). (fadd srx rx, fadd stx tx, n + 1, ls))"

definition add_port :: "listenRow \<Rightarrow> core \<Rightarrow> core" where
  "add_port lr = (\<lambda>(srx, stx, n, ls). (srx, stx, n, if lr \<in> set ls then ls else ls @ [lr]))"

lemma on_core_conn:
  "on_core (\<lambda>r. r\<lparr>pr_rx := fadd (pr_rx r) rx, pr_tx := fadd (pr_tx r) tx, pr_conns := pr_conns r + 1\<rparr>) (add_rates (rx, tx))"
  by (simp add: on_core_def core_of_def add_rates_def)

lemma on_core_port:
  "on_core (\<lambda>r. if lr \<in> set (pr_listen r) then r else r\<lparr>pr_listen := pr_listen r @ [lr]\<rparr>) (add_port lr)"
  by (simp add: on_core_def core_of_def add_port_def)

lemma add_conns_perpid:
  fixes env prev dt now i cur a
  defines "m \<equiv> ac_perpid (add_conns env prev dt now i cur a)"
  assumes "wf_perpid (ac_perpid a)"
  shows "wf_perpid m
    \<and> core_at m p = fold (\<lambda>kc. add_rates (conn_rates prev dt kc)) (filter (attributed p) cur) (core_at (ac_perpid a) p)
    \<and> fst ` set m = fst ` set (ac_perpid a) \<union> set (map (\<lambda>kc. cs_pid (snd kc)) (filter (\<lambda>kc. cs_hasProc (snd kc)) cur))"
  using assms(2) unfolding m_def
proof (induction cur arbitrary: i a)
  case (Cons kc cur)
  let ?b = "add_conn env prev dt (now i) kc a"
  have w: "wf_perpid (ac_perpid ?b)"
    using Cons.prems with_agg_wf [OF _ on_core_conn] by (simp add: add_conn_fields)
  have c: "core_at (ac_perpid ?b) p = (if attributed p kc then add_rates (conn_rates prev dt kc) (core_at (ac_perpid a) p)
      else core_at (ac_perpid a) p)"
    using core_at_with_agg [OF on_core_conn [where rx = "fst (conn_rates prev dt kc)" and tx = "snd (conn_rates prev dt kc)"]]
    by (auto simp: add_conn_fields attributed_def)
  have "fst ` set (ac_perpid ?b) = fst ` set (ac_perpid a) \<union> (if cs_hasProc (snd kc) then {cs_pid (snd kc)} else {})"
    by (simp add: add_conn_fields fst_with_agg)
  note keys = this and IH = Cons.IH [OF w, of "Suc i"]
  show ?case
  proof (intro conjI)
    show "wf_perpid (ac_perpid (add_conns env prev dt now i (kc # cur) a))" using IH by simp
    show "core_at (ac_perpid (add_conns env prev dt now i (kc # cur) a)) p
        = fold (\<lambda>kc. add_rates (conn_rates prev dt kc)) (filter (attributed p) (kc # cur)) (core_at (ac_perpid a) p)"
      using IH c by simp
    show "fst ` set (ac_perpid (add_conns env prev dt now i (kc # cur) a))
        = fst ` set (ac_perpid a) \<union> set (map (\<lambda>kc. cs_pid (snd kc)) (filter (\<lambda>kc. cs_hasProc (snd kc)) (kc # cur)))"
      using IH unfolding add_conns.simps keys by simp
  qed
qed auto

definition owned :: "int \<Rightarrow> listenerEntry \<Rightarrow> bool" where
  "owned p l \<longleftrightarrow> le_hasProc l \<and> le_pid l = p"

definition port_of :: "listenerEntry \<Rightarrow> listenRow" where
  "port_of l = \<lparr>lr_proto = le_proto l, lr_port = le_port l\<rparr>"

lemma add_listens_perpid:
  assumes "wf_perpid m"
  shows "wf_perpid (fold add_listen ls m)
    \<and> core_at (fold add_listen ls m) p = fold add_port (map port_of (filter (owned p) ls)) (core_at m p)
    \<and> fst ` set (fold add_listen ls m) = fst ` set m \<union> set (map le_pid (filter le_hasProc ls))"
  using assms
proof (induction ls arbitrary: m)
  case (Cons l ls)
  have w: "wf_perpid (add_listen l m)"
    using Cons.prems with_agg_wf [OF _ on_core_port] by (simp add: add_listen_def Let_def)
  have c: "core_at (add_listen l m) p = (if owned p l then add_port (port_of l) (core_at m p) else core_at m p)"
    using core_at_with_agg [OF on_core_port [of "port_of l"]]
    unfolding port_of_def add_listen_def Let_def owned_def by auto
  have "fst ` set (add_listen l m) = fst ` set m \<union> (if le_hasProc l then {le_pid l} else {})"
    by (simp add: add_listen_def Let_def fst_with_agg)
  then show ?case using Cons.IH [OF w] c by auto
qed auto

lemma fold_add_port_core:
  "\<exists>ls'. fold add_port ps (x, y, n, ls) = (x, y, n, ls') \<and> set ls' = set ls \<union> set ps \<and> (distinct ls \<longrightarrow> distinct ls')"
proof (induction ps arbitrary: ls)
  case (Cons q ps)
  show ?case
    using Cons.IH [of "if q \<in> set ls then ls else ls @ [q]"] by (auto simp: add_port_def)
qed simp

lemma fold_add_rates:
  "fold (\<lambda>kc. add_rates (conn_rates prev dt kc)) kcs (x, y, n, ls) =
     (fold (\<lambda>kc s. fadd s (fst (conn_rates prev dt kc))) kcs x,
      fold (\<lambda>kc s. fadd s (snd (conn_rates prev dt kc))) kcs y, n + length kcs, ls)"
  by (induction kcs arbitrary: x y n) (auto simp: add_rates_def case_prod_beta)

definition row_ok ::
  "(connKey \<Rightarrow> connState option) \<Rightarrow> rat \<Rightarrow> (connKey \<times> connState) list \<Rightarrow> listenerEntry list \<Rightarrow> processRow \<Rightarrow> bool" where
  "row_ok prev dt cur listeners row \<longleftrightarrow>
     (let mine = filter (attributed (pr_pid row)) cur in
      pr_rx row = fold (\<lambda>kc s. fadd s (fst (conn_rates prev dt kc))) mine 0
      \<and> pr_tx row = fold (\<lambda>kc s. fadd s (snd (conn_rates prev dt kc))) mine 0
      \<and> pr_conns row = length mine
      \<and> distinct (pr_listen row) \<and> set (pr_listen row) = set (map port_of (filter (owned (pr_pid row)) listeners)))"

text \<open>
  C3: Before the cap, the process list has exactly one row per process that owns a connection or
  a listening socket, sorted by falling bandwidth; each row sums the rates of that process's own
  connections, counts them, and lists its ports without repetition. Sockets without an owner are
  in no row, whatever the order in which Go iterates the maps.
\<close>

theorem build_processes:
  fixes env perm now prev cur dt listeners r
  assumes "\<And>xs. mset (perm xs) = mset xs"
  shows "\<exists>procs. sn_processes (fst (build env perm now prev cur dt listeners r)) = take maxRows procs
    \<and> sorted_wrt (\<lambda>a b. \<not> proc_bw_more b a) procs \<and> distinct (map pr_pid procs)
    \<and> set (map pr_pid procs) = set (map (\<lambda>kc. cs_pid (snd kc)) (filter (\<lambda>kc. cs_hasProc (snd kc)) cur))
        \<union> set (map le_pid (filter le_hasProc listeners))
    \<and> list_all (row_ok prev dt cur listeners) procs"
proof -
  define m where "m = ac_perpid (add_conns env prev dt now 0 cur (accum0 r))"
  define m' where "m' = fold add_listen listeners m"
  define procs where "procs = SliceStable proc_bw_more (perm (map snd m'))"
  have w0: "wf_perpid (ac_perpid (accum0 r))" "core_at (ac_perpid (accum0 r)) p = (0, 0, 0, [])" for p
    by (simp_all add: accum0_def wf_perpid_def core_at_def)
  have c: "wf_perpid m" "fst ` set m = set (map (\<lambda>kc. cs_pid (snd kc)) (filter (\<lambda>kc. cs_hasProc (snd kc)) cur))"
    "core_at m p = fold (\<lambda>kc. add_rates (conn_rates prev dt kc)) (filter (attributed p) cur) (0, 0, 0, [])" for p
    using add_conns_perpid [OF w0(1), of env prev dt now 0 cur p] by (simp_all add: w0(2) m_def) (simp add: accum0_def)
  have l: "wf_perpid m'" "fst ` set m' = fst ` set m \<union> set (map le_pid (filter le_hasProc listeners))"
    "core_at m' p = fold add_port (map port_of (filter (owned p) listeners)) (core_at m p)" for p
    using add_listens_perpid [OF c(1), of listeners p] by (simp_all add: m'_def)
  have "mset procs = mset (map snd m')" by (simp add: procs_def assms)
  then have set: "set procs = snd ` set m'" and dist: "mset (map pr_pid procs) = mset (map pr_pid (map snd m'))"
    by (metis list.set_map set_mset_mset, metis mset_map)
  have pids: "map pr_pid (map snd m') = map fst m'" using l(1) by (auto simp: wf_perpid_def)
  have "distinct (map pr_pid procs)"
    using dist l(1) by (metis pids mset_eq_imp_distinct_iff wf_perpid_def)
  moreover have "set (map pr_pid procs) = fst ` set m'"
    using dist pids by (metis list.set_map mset_eq_setD)
  moreover have "row_ok prev dt cur listeners row" if in_procs: "row \<in> set procs" for row
  proof -
    obtain x where "x \<in> set m'" "snd x = row" using in_procs unfolding set by blast
    then have "(fst x, row) \<in> set m'" by (metis prod.collapse)
    then obtain p where p: "(p, row) \<in> set m'" by blast
    then have "map_of m' p = Some row" "pr_pid row = p" using l(1) by (auto simp: wf_perpid_def)
    then have "core_of row = core_at m' p" by (simp add: core_at_def)
    moreover define mine where "mine = filter (attributed p) cur"
    moreover define ports where "ports = map port_of (filter (owned p) listeners)"
    moreover define RX where "RX = fold (\<lambda>kc s. fadd s (fst (conn_rates prev dt kc))) mine 0"
    moreover define TX where "TX = fold (\<lambda>kc s. fadd s (snd (conn_rates prev dt kc))) mine 0"
    moreover obtain ls where "fold add_port ports (RX, TX, 0 + length mine, []) = (RX, TX, 0 + length mine, ls)"
      "set ls = set ports" "distinct ls"
      using fold_add_port_core [of ports RX TX "0 + length mine" "[]"] by auto
    ultimately have "core_of row = (RX, TX, length mine, ls)" "set ls = set ports" "distinct ls"
      unfolding l(3) c(3) by (simp_all add: fold_add_rates)
    then show ?thesis
      by (simp add: row_ok_def core_of_def Let_def \<open>pr_pid row = p\<close> mine_def ports_def RX_def TX_def)
  qed
  moreover have "sorted_wrt (\<lambda>a b. \<not> proc_bw_more b a) procs"
    unfolding procs_def by (rule proc_rows.SliceStable_sorted)
  moreover have "sn_processes (fst (build env perm now prev cur dt listeners r)) = take maxRows procs"
    by (simp add: build_def Let_def cap_rows_take procs_def m'_def m_def)
  ultimately show ?thesis
    using l(2) c(2) by (intro exI [of _ procs]) (auto simp: list_all_iff)
qed

definition sample_conn :: "connKey \<times> connState" where
  "sample_conn =
     (\<lparr>k_localIP = ''10.0.0.2'', k_localPort = 51234, k_peerIP = ''10.0.0.1'', k_peerPort = 22\<rparr>,
      \<lparr>cs_pid = 4242, cs_name = ''ssh'', cs_hasProc = True, cs_rxOK = True, cs_rx = 10, cs_txOK = True,
       cs_tx = 20, cs_peerIP = ''10.0.0.1'', cs_peerPort = 22, cs_local = ''10.0.0.2:51234''\<rparr>)"

definition empty_env :: geo_env where
  "empty_env = \<lparr>ge_geo = geo0, ge_asn = asn0, ge_upper = id\<rparr>"

lemma build_processes_witness:
  "\<exists>procs. sn_processes (fst (build empty_env rev (\<lambda>_. 0) Map.empty [sample_conn] 2 [] (newRDNS False 1))) = take maxRows procs
    \<and> set (map pr_pid procs) = {4242}"
  using build_processes [of rev empty_env "\<lambda>_. 0" Map.empty "[sample_conn]" 2 "[]" "newRDNS False 1"]
  by (auto simp: sample_conn_def)

section \<open>Private peers stay private\<close>

lemma resolve_queue:
  "set (rd_queue (snd (resolve now ip r))) \<subseteq> insert ip (set (rd_queue r))"
  "rd_callers (snd (resolve now ip r)) = rd_callers r"
  by (auto simp: resolve_def Let_def split: prod.splits bool.splits)

lemma add_conns_rdns:
  assumes "\<And>now kc r. P r \<Longrightarrow> is_global kc \<Longrightarrow> kc \<in> set cur \<Longrightarrow> P (snd (resolve now (cs_peerIP (snd kc)) r))"
    and "P (ac_rdns a)"
  shows "P (ac_rdns (add_conns env prev dt now i cur a))"
  using assms
proof (induction cur arbitrary: i a)
  case (Cons kc cur)
  have "P (ac_rdns (add_conn env prev dt (now i) kc a))"
    using Cons.prems(1) [of "ac_rdns a" kc] Cons.prems(2) by (simp add: add_conn_fields)
  moreover have "P (snd (resolve t (cs_peerIP (snd kc')) r))" if "P r" "is_global kc'" "kc' \<in> set cur" for t kc' r
    using Cons.prems(1) that by simp
  ultimately show ?case using Cons.IH [of "add_conn env prev dt (now i) kc a" "Suc i"] by simp
qed simp

text \<open>
  C22: Building a document asks the resolver only about public peers: every address it newly
  queues is the peer of a current connection and is globally routable by the intervals of the
  address registries, or is one of the deprecated site-local block, which the code lets through.
  In particular no loopback, private, link-local, shared, documentation, multicast or reserved
  address of either family is ever asked about.
\<close>

theorem build_queues_only_global:
  "set (rd_queue (snd (build env perm now prev cur dt listeners r)))
     \<subseteq> set (rd_queue r) \<union> {ip \<in> cs_peerIP ` snd ` set cur. routable ip \<or> site_local ip}"
proof -
  have "set (rd_queue (ac_rdns (add_conns env prev dt now 0 cur (accum0 r))))
      \<subseteq> set (rd_queue r) \<union> {ip \<in> cs_peerIP ` snd ` set cur. classify ip = Global}"
  proof (rule add_conns_rdns)
    fix t and kc :: "connKey \<times> connState" and s :: rdns
    assume "set (rd_queue s) \<subseteq> set (rd_queue r) \<union> {ip \<in> cs_peerIP ` snd ` set cur. classify ip = Global}"
      "is_global kc" "kc \<in> set cur"
    then show "set (rd_queue (snd (resolve t (cs_peerIP (snd kc)) s)))
        \<subseteq> set (rd_queue r) \<union> {ip \<in> cs_peerIP ` snd ` set cur. classify ip = Global}"
      using resolve_queue(1) [of t "cs_peerIP (snd kc)" s] by blast
  qed (simp add: accum0_def)
  moreover have "classify ip = Global \<longleftrightarrow> routable ip \<or> site_local ip" for ip
    by (simp add: classify_split)
  ultimately show ?thesis by (simp add: build_def Let_def)
qed

text \<open>Building is a run of an idle caller, so it keeps the resolver's invariant.\<close>

lemma build_rreach:
  assumes "rreach r" and "c < length (rd_callers r)" and "rd_callers r ! c = CIdle"
  shows "rreach (snd (build env perm now prev cur dt listeners r))"
proof -
  let ?P = "\<lambda>s. rreach s \<and> rd_callers s = rd_callers r"
  have "?P (ac_rdns (add_conns env prev dt now 0 cur (accum0 r)))"
    by (rule add_conns_rdns) (use assms resolve_steps [of c] resolve_queue(2) in \<open>auto simp: accum0_def\<close>)
  then show ?thesis by (simp add: build_def Let_def)
qed

end
