(* ===== verification/FloatParse.thy ===== *)
theory FloatParse
  imports GoFloat
begin

text \<open>
  \<^verbatim>\<open>strconv.ParseFloat(s, 64)\<close>: decimal and hexadecimal floating-point literals with
  underscores, the infinities and NaN, correctly rounded; \<open>None\<close> for a syntax error and for a
  value beyond the largest finite one. Zero has no sign here.
\<close>

section \<open>Values\<close>

datatype f64 = Fin rat | PosInf | NegInf | NaN

definition f64_less :: "f64 \<Rightarrow> f64 \<Rightarrow> bool" where
  "f64_less a b =
     (case (a, b) of
        (NaN, _) \<Rightarrow> False
      | (_, NaN) \<Rightarrow> False
      | (NegInf, NegInf) \<Rightarrow> False
      | (NegInf, _) \<Rightarrow> True
      | (_, NegInf) \<Rightarrow> False
      | (PosInf, _) \<Rightarrow> False
      | (_, PosInf) \<Rightarrow> True
      | (Fin x, Fin y) \<Rightarrow> x < y)"

definition f64_ge :: "f64 \<Rightarrow> f64 \<Rightarrow> bool" where
  "f64_ge a b \<longleftrightarrow> a \<noteq> NaN \<and> b \<noteq> NaN \<and> \<not> f64_less a b"

definition is_finite :: "f64 \<Rightarrow> bool" where
  "is_finite a = (case a of Fin _ \<Rightarrow> True | _ \<Rightarrow> False)"

text \<open>
  The conversion \<^verbatim>\<open>int64(v)\<close> cuts the fraction off; outside the range of the type Go leaves the
  result to the processor, the parameter.
\<close>

definition to_int64 :: "(f64 \<Rightarrow> int) \<Rightarrow> f64 \<Rightarrow> int" where
  "to_int64 cvt v =
     (case v of
        Fin x \<Rightarrow>
          (let t = (if 0 \<le> x then \<lfloor>x\<rfloor> else - \<lfloor>- x\<rfloor>)
           in if - (2 ^ 63) \<le> t \<and> t < 2 ^ 63 then t else cvt v)
      | _ \<Rightarrow> cvt v)"

section \<open>Syntax\<close>

definition lower_char :: "char \<Rightarrow> char" where
  "lower_char c = (if 65 \<le> ord c \<and> ord c \<le> (90::nat) then char_of (ord c + 32 :: nat) else c)"

definition is_hex_letter :: "char \<Rightarrow> bool" where
  "is_hex_letter c \<longleftrightarrow> lower_char c \<in> set ''abcdef''"

text \<open>The mantissa: its digits as a number, how many follow the point, and what is left.\<close>

record mant =
  mn_num :: nat
  mn_frac :: nat
  mn_dot :: bool
  mn_digits :: bool

fun scan_mant :: "nat \<Rightarrow> string \<Rightarrow> mant \<Rightarrow> mant \<times> string" where
  "scan_mant base [] m = (m, [])"
| "scan_mant base (c # cs) m =
     (if c = CHR ''_'' then scan_mant base cs m
      else if c = CHR ''.'' then if mn_dot m then (m, c # cs) else scan_mant base cs (m\<lparr>mn_dot := True\<rparr>)
      else if is_digit c \<or> base = 16 \<and> is_hex_letter c then
        scan_mant base cs (m\<lparr>mn_num := base * mn_num m
              + (if is_digit c then digit_val c else 10 + (ord (lower_char c) - 97)),
            mn_frac := (if mn_dot m then Suc (mn_frac m) else 0), mn_digits := True\<rparr>)
      else (m, c # cs))"

text \<open>The exponent digits, capped as in the library.\<close>

fun scan_exp :: "string \<Rightarrow> nat \<Rightarrow> nat \<times> string" where
  "scan_exp [] e = (e, [])"
| "scan_exp (c # cs) e =
     (if c = CHR ''_'' then scan_exp cs e
      else if is_digit c then scan_exp cs (if e < 10000 then 10 * e + digit_val c else e)
      else (e, c # cs))"

text \<open>The exponent after its letter; it needs a digit right after the sign.\<close>

definition read_exp :: "string \<Rightarrow> (int \<times> string) option" where
  "read_exp s =
     (let (neg, ds) = (case s of [] \<Rightarrow> (False, [])
        | c # cs \<Rightarrow> if c = CHR ''+'' then (False, cs) else if c = CHR ''-'' then (True, cs) else (False, s))
      in if ds = [] \<or> \<not> is_digit (hd ds) then None
         else let (e, rest) = scan_exp ds 0 in Some (if neg then - int e else int e, rest))"

text \<open>Underscores only between digits; a base prefix counts as a digit.\<close>

fun under_ok :: "bool \<Rightarrow> char \<Rightarrow> string \<Rightarrow> bool" where
  "under_ok hex saw [] \<longleftrightarrow> saw \<noteq> CHR ''_''"
| "under_ok hex saw (c # cs) \<longleftrightarrow>
     (if is_digit c \<or> hex \<and> is_hex_letter c then under_ok hex (CHR ''0'') cs
      else if c = CHR ''_'' then saw = CHR ''0'' \<and> under_ok hex (CHR ''_'') cs
      else saw \<noteq> CHR ''_'' \<and> under_ok hex (CHR ''!'') cs)"

definition underscoreOK :: "string \<Rightarrow> bool" where
  "underscoreOK s =
     (if 2 \<le> length s \<and> s ! 0 = CHR ''0'' \<and> lower_char (s ! 1) \<in> set ''box''
      then under_ok (lower_char (s ! 1) = CHR ''x'') (CHR ''0'') (drop 2 s)
      else under_ok False (CHR ''^'') s)"

text \<open>A literal without its sign: the exact rational.\<close>

definition read_number :: "string \<Rightarrow> rat option" where
  "read_number s =
     (let hex = (2 < length s \<and> s ! 0 = CHR ''0'' \<and> lower_char (s ! 1) = CHR ''x'');
          body = (if hex then drop 2 s else s);
          base = (if hex then 16 else 10);
          (m, rest) = scan_mant base body \<lparr>mn_num = 0, mn_frac = 0, mn_dot = False, mn_digits = False\<rparr>
      in if \<not> mn_digits m then None
         else do {
           (e, rest) \<leftarrow> (case rest of
               c # cs \<Rightarrow> if lower_char c = (if hex then CHR ''p'' else CHR ''e'') then read_exp cs
                         else if hex then None else Some (0, rest)
             | [] \<Rightarrow> if hex then None else Some (0, []));
           if rest \<noteq> [] \<or> CHR ''_'' \<in> set s \<and> \<not> underscoreOK s then None
           else Some (if hex then of_nat (mn_num m) * pow2 (e - 4 * int (mn_frac m))
                      else of_nat (mn_num m) * (if e < 0 then 1 / 10 ^ nat (- e) else 10 ^ nat e) / 10 ^ mn_frac m)
         })"

definition special :: "string \<Rightarrow> f64 option" where
  "special s =
     (let l = map lower_char s in
      if l \<in> {''inf'', ''infinity'', ''+inf'', ''+infinity''} then Some PosInf
      else if l \<in> {''-inf'', ''-infinity''} then Some NegInf
      else if l = ''nan'' then Some NaN else None)"

definition ParseFloat :: "string \<Rightarrow> f64 option" where
  "ParseFloat s =
     (case special s of
        Some v \<Rightarrow> Some v
      | None \<Rightarrow> do {
          let (neg, body) = (case s of [] \<Rightarrow> (False, [])
            | c # cs \<Rightarrow> if c = CHR ''-'' then (True, cs) else if c = CHR ''+'' then (False, cs) else (False, s));
          x \<leftarrow> read_number body;
          let y = fl x;
          if 2 ^ 1024 \<le> y then None else Some (Fin (if neg then - y else y))
        })"

section \<open>Order\<close>

lemma f64_less_irrefl: "\<not> f64_less a a"
  by (cases a) (simp_all add: f64_less_def)

lemma f64_less_NaN: "\<not> f64_less NaN x" "\<not> f64_less x NaN"
  by (cases x; simp add: f64_less_def)+

lemma f64_less_trans: "f64_less a b \<Longrightarrow> f64_less b c \<Longrightarrow> f64_less a c"
  by (cases a; cases b; cases c) (auto simp: f64_less_def)

lemma f64_incomp_trans: "b \<noteq> NaN \<Longrightarrow> \<not> f64_less a b \<Longrightarrow> \<not> f64_less b c \<Longrightarrow> \<not> f64_less a c"
  by (cases a; cases b; cases c) (auto simp: f64_less_def)

text \<open>
  The comparison of the language with NaN put last is a linear order, so that sorting by a float
  meets what the library of sorting asks of a closure.
\<close>

instantiation f64 :: linorder
begin

definition less_f64 :: "f64 \<Rightarrow> f64 \<Rightarrow> bool" where
  "less_f64 a b \<longleftrightarrow> (if b = NaN then a \<noteq> NaN else f64_less a b)"

definition less_eq_f64 :: "f64 \<Rightarrow> f64 \<Rightarrow> bool" where
  "less_eq_f64 a b \<longleftrightarrow> a = b \<or> a < b"

instance
proof
  fix a b c :: f64
  show "a < b \<longleftrightarrow> a \<le> b \<and> \<not> b \<le> a"
    by (cases a; cases b) (auto simp: less_f64_def less_eq_f64_def f64_less_def)
  show "a \<le> a" by (simp add: less_eq_f64_def)
  show "a \<le> b \<Longrightarrow> b \<le> c \<Longrightarrow> a \<le> c"
    by (auto simp: less_f64_def less_eq_f64_def f64_less_NaN intro: f64_less_trans split: if_splits)
  show "a \<le> b \<Longrightarrow> b \<le> a \<Longrightarrow> a = b"
    by (cases a; cases b) (auto simp: less_f64_def less_eq_f64_def f64_less_def)
  show "a \<le> b \<or> b \<le> a"
    by (cases a; cases b) (auto simp: less_f64_def less_eq_f64_def f64_less_def)
qed

end

lemma less_f64_number: "b \<noteq> NaN \<Longrightarrow> a < b \<longleftrightarrow> f64_less a b"
  by (simp add: less_f64_def)

section \<open>What is printed is read back\<close>

lemma scan_mant_digits:
  "list_all is_digit ds \<Longrightarrow> scan_mant 10 (ds @ rest) m =
     scan_mant 10 rest (m\<lparr>mn_num := foldl (\<lambda>n c. 10 * n + digit_val c) (mn_num m) ds,
       mn_frac := (if ds = [] then mn_frac m else if mn_dot m then mn_frac m + length ds else 0),
       mn_digits := mn_digits m \<or> ds \<noteq> []\<rparr>)"
proof (induction ds arbitrary: m)
  case (Cons c ds)
  then have "is_digit c" "c \<noteq> CHR ''_''" "c \<noteq> CHR ''.''" by (auto simp: is_digit_def)
  with Cons show ?case by simp
qed simp

lemma foldl_dec: "foldl (\<lambda>n c. 10 * n + digit_val c) 0 (dec n) = n"
proof (induction n rule: dec.induct)
  case (1 n)
  then show ?case by (cases "n < 10") (simp_all add: dec.simps [of n])
qed

lemma foldl_dec_pad: "v < 10 ^ k \<Longrightarrow> foldl (\<lambda>n c. 10 * n + digit_val c) a (dec_pad k v) = 10 ^ k * a + v"
proof (induction k arbitrary: a v)
  case (Suc k)
  then have "v div 10 < 10 ^ k" by (simp add: less_mult_imp_div_less mult.commute)
  with Suc show ?case by (simp add: algebra_simps)
qed simp

lemma digit_facts:
  assumes "is_digit c"
  shows "lower_char c = c" "c \<noteq> CHR ''_''" "c \<noteq> CHR ''.''" "c \<noteq> CHR ''-''" "c \<noteq> CHR ''+''" "c \<noteq> CHR ''i''" "c \<noteq> CHR ''n''" "c \<noteq> CHR ''x''"
  using assms by (auto simp: is_digit_def lower_char_def)

lemma read_number_decimal:
  assumes "a \<noteq> []" and "list_all is_digit a" and "list_all is_digit b" and "b \<noteq> []"
  shows "read_number (a @ CHR ''.'' # b) =
    Some (of_nat (foldl (\<lambda>n c. 10 * n + digit_val c) (foldl (\<lambda>n c. 10 * n + digit_val c) 0 a) b) / 10 ^ length b)"
proof -
  let ?s = "a @ CHR ''.'' # b"
  have "lower_char c \<noteq> CHR ''x''" if "c \<in> set ?s" for c
  proof (cases "c = CHR ''.''")
    case False
    then have "is_digit c" using that assms(2,3) by (auto simp: list_all_iff)
    then show ?thesis by (simp add: digit_facts)
  qed (simp add: lower_char_def)
  then have base: "(2 < length ?s \<and> ?s ! 0 = CHR ''0'' \<and> lower_char (?s ! 1) = CHR ''x'') = False"
    by (metis Suc_1 Suc_lessD nth_mem)
  have us: "CHR ''_'' \<notin> set ?s"
    using assms(2,3) digit_facts(2) by (auto simp: list_all_iff)
  have "scan_mant 10 ?s \<lparr>mn_num = 0, mn_frac = 0, mn_dot = False, mn_digits = False\<rparr> =
      (\<lparr>mn_num = foldl (\<lambda>n c. 10 * n + digit_val c) (foldl (\<lambda>n c. 10 * n + digit_val c) 0 a) b,
        mn_frac = length b, mn_dot = True, mn_digits = True\<rparr>, [])"
    using assms scan_mant_digits [of b "[]"] by (simp add: scan_mant_digits)
  with us show ?thesis by (simp only: read_number_def base Let_def if_False) simp
qed

definition decimal_value :: "nat \<Rightarrow> rat \<Rightarrow> rat" where
  "decimal_value prec x = of_int (round_even (\<bar>x\<bar> * 10 ^ prec)) / 10 ^ prec"

lemma special_digit:
  assumes "is_digit c"
  shows "special (c # s) = None" and "special (CHR ''-'' # c # s) = None"
  using digit_facts [OF assms] by (simp_all add: special_def Let_def) (simp_all add: lower_char_def)

lemma ParseFloat_FormatFloat:
  assumes "0 < prec" and "fl (decimal_value prec x) < 2 ^ 1024"
  shows "ParseFloat (FormatFloat prec x) =
    Some (Fin (if x < 0 then - fl (decimal_value prec x) else fl (decimal_value prec x)))"
proof -
  let ?m = "nat (round_even (\<bar>x\<bar> * 10 ^ prec))"
  let ?a = "dec (?m div 10 ^ prec)" and ?b = "dec_pad prec (?m mod 10 ^ prec)"
  obtain c s where a: "?a = c # s" by (cases ?a) auto
  have c: "is_digit c" using dec_digits [of "?m div 10 ^ prec"] by (simp add: a)
  have "?b \<noteq> []" using assms(1) by (metis length_dec_pad length_0_conv less_not_refl)
  moreover have "foldl (\<lambda>n c. 10 * n + digit_val c) (?m div 10 ^ prec) ?b = ?m"
    by (subst foldl_dec_pad) simp_all
  ultimately have "read_number (?a @ CHR ''.'' # ?b) = Some (of_nat ?m / 10 ^ prec)"
    using read_number_decimal [of ?a ?b] by (simp add: dec_digits dec_pad_digits foldl_dec)
  also have "of_nat ?m = (of_int (round_even (\<bar>x\<bar> * 10 ^ prec)) :: rat)"
    by (simp add: round_even_nonneg)
  finally have "read_number (?a @ CHR ''.'' # ?b) = Some (decimal_value prec x)"
    by (simp add: decimal_value_def)
  moreover obtain s' where "?a @ CHR ''.'' # ?b = c # s'" using a by simp
  moreover have "FormatFloat prec x = (if x < 0 then CHR ''-'' # ?a @ CHR ''.'' # ?b else ?a @ CHR ''.'' # ?b)"
    using assms(1) by (simp add: FormatFloat_def Let_def)
  ultimately have "read_number (c # s') = Some (decimal_value prec x)"
    and "FormatFloat prec x = (if x < 0 then CHR ''-'' # c # s' else c # s')" by (simp_all only:)
  then show ?thesis
    using assms(2) special_digit [OF c] digit_facts [OF c] by (simp add: ParseFloat_def not_le)
qed

end
