(* ===== verification/ProcMon.thy ===== *)
theory ProcMon
  imports GoSort FloatParse
begin

text \<open>
  Model of \<^verbatim>\<open>web/procmon\<close>: the parsers of \<^verbatim>\<open>/proc\<close> and of \<^verbatim>\<open>nvidia-smi\<close>, the table of
  processes of a cycle with its cap, and the sampler's cycle on its baseline and the published
  snapshot. What a cycle reads (files, owners, clock, the output of \<^verbatim>\<open>nvidia-smi\<close>) is an
  environment.
\<close>

section \<open>The system\<close>

definition i64 :: "int \<Rightarrow> int" where
  "i64 v = signed_take_bit 63 v"

text \<open>
  \<open>pe_cvt\<close> is the processor's conversion of a float outside the range of \<^verbatim>\<open>int64\<close>, which Go
  leaves open; \<open>pe_smi\<close> is the standard output of \<^verbatim>\<open>nvidia-smi\<close> with the given arguments,
  empty when it fails.
\<close>

record procenv =
  pe_names :: "string list option"
  pe_stat :: "int \<Rightarrow> string option"
  pe_uid :: "int \<Rightarrow> nat option"
  pe_lookup :: "string \<Rightarrow> string option"
  pe_meminfo :: "string option"
  pe_cpu :: "string option"
  pe_clkTck :: u64
  pe_page :: u64
  pe_ncpu :: int
  pe_mono :: int
  pe_wall :: int
  pe_nvsmi :: bool
  pe_nvpath :: bool
  pe_smi :: "string \<Rightarrow> string list \<Rightarrow> string"
  pe_cvt :: "f64 \<Rightarrow> int"

definition max1 :: "int \<Rightarrow> int" where
  "max1 n = (if n < 1 then 1 else n)"

text \<open>The walk over the auxiliary vector: entries of 16 bytes.\<close>

definition atClkTck :: u64 where "atClkTck = 17"
definition fallback :: u64 where "fallback = 100"

function auxv_walk :: "u8 list \<Rightarrow> u64" where
  "auxv_walk bs =
     (if length bs < 16 then fallback
      else let typ = word_of_nat (le_nat (take 8 bs)); val = word_of_nat (le_nat (take 8 (drop 8 bs))) in
        if typ = 0 \<and> val = 0 then fallback
        else if typ = atClkTck then (if val = 0 then fallback else val)
        else auxv_walk (drop 16 bs))"
  by pat_completeness auto
termination
  by (relation "measure length") auto

declare auxv_walk.simps [simp del]

definition readClkTck :: "u8 list option \<Rightarrow> u64" where
  "readClkTck auxv = (case auxv of None \<Rightarrow> fallback | Some data \<Rightarrow> auxv_walk data)"

section \<open>The document\<close>

record procRow =
  pw_PID :: int
  pw_Name :: string
  pw_User :: string
  pw_CPU :: rat
  pw_RSS :: int
  pw_VRAM :: int
  pw_Threads :: int

record gpuSum =
  gp_Name :: string
  gp_MemUsed :: int
  gp_MemTotal :: int
  gp_Util :: int
  gp_MemUtil :: int

record systemBlock =
  sy_CPU :: rat
  sy_NCPU :: int
  sy_MemUsed :: int
  sy_MemTotal :: int
  sy_GPUOk :: bool
  sy_GPU :: "gpuSum option"

record procSnapshot =
  ps_Processes :: "procRow list"
  ps_Count :: nat
  ps_System :: systemBlock
  ps_Time :: rat

section \<open>Parsing /proc\<close>

definition pids :: "procenv \<Rightarrow> int list" where
  "pids e =
     (case pe_names e of
        None \<Rightarrow> []
      | Some names \<Rightarrow>
          List.map_filter (\<lambda>n. case Atoi n of None \<Rightarrow> None | Some pid \<Rightarrow> if pid > 0 then Some pid else None) names)"

text \<open>The command name, the ticks (their sum wraps), the threads and the resident pages.\<close>

definition splitStat :: "string \<Rightarrow> (string \<times> u64 \<times> int \<times> u64) option" where
  "splitStat data =
     (case (last_index_byte data (CHR '')''), index_byte data (CHR ''('')) of
        (Some rp, Some lp) \<Rightarrow>
          (if rp < lp then None
           else if length data < rp + 2 then None
           else
             let comm = take (rp - (lp + 1)) (drop (lp + 1) data); rest = Fields (drop (rp + 2) data) in
             if length rest < 22 then None
             else
               let (utime, ok1) = ParseUint 64 (rest ! 11); (stime, ok2) = ParseUint 64 (rest ! 12);
                   (rss, ok4) = ParseUint 64 (rest ! 21)
               in (case Atoi (rest ! 17) of
                     None \<Rightarrow> None
                   | Some thr \<Rightarrow>
                       if \<not> ok1 \<or> \<not> ok2 \<or> \<not> ok4 then None
                       else Some (comm, word_of_nat utime + word_of_nat stime, thr, word_of_nat rss)))
      | _ \<Rightarrow> None)"

definition readStat :: "procenv \<Rightarrow> int \<Rightarrow> (string \<times> u64 \<times> int \<times> u64) option" where
  "readStat e pid = (case pe_stat e pid of None \<Rightarrow> None | Some raw \<Rightarrow> splitStat raw)"

text \<open>The cache of user names holds each user id once.\<close>

type_synonym uidCache = "(nat \<times> string) list"

definition userName :: "procenv \<Rightarrow> int \<Rightarrow> uidCache \<Rightarrow> string \<times> uidCache" where
  "userName e pid cache =
     (case pe_uid e pid of
        None \<Rightarrow> (''?'', cache)
      | Some uid \<Rightarrow>
          (case map_of cache uid of
             Some u \<Rightarrow> (u, cache)
           | None \<Rightarrow>
               let u = (case pe_lookup e (dec uid) of None \<Rightarrow> dec uid | Some name \<Rightarrow> name);
                   cache' = (if length cache > 4096 then [] else cache)
               in (u, (uid, u) # cache')))"

definition kbField :: "string \<Rightarrow> int" where
  "kbField line =
     (let f = Fields line in
      if length f < 2 then 0 else case Atoi (f ! 1) of None \<Rightarrow> 0 | Some v \<Rightarrow> v)"

fun meminfo_lines :: "string list \<Rightarrow> int \<Rightarrow> int \<times> int" where
  "meminfo_lines [] mt = (mt, 0)"
| "meminfo_lines (line # ls) mt =
     (if has_prefix line ''MemTotal:'' then meminfo_lines ls (i64 (kbField line * 1024))
      else if has_prefix line ''MemAvailable:'' then (mt, i64 (kbField line * 1024))
      else meminfo_lines ls mt)"

definition meminfo :: "procenv \<Rightarrow> int \<times> int" where
  "meminfo e = (case pe_meminfo e of None \<Rightarrow> (0, 0) | Some raw \<Rightarrow> meminfo_lines (split_on (CHR 10) raw) 0)"

text \<open>The numbers of the first line of \<^verbatim>\<open>/proc/stat\<close> up to the first that does not parse.\<close>

fun cpu_vals :: "string list \<Rightarrow> u64 list" where
  "cpu_vals [] = []"
| "cpu_vals (p # ps) = (case ParseUint 64 p of (v, ok) \<Rightarrow> if ok then word_of_nat v # cpu_vals ps else [])"

definition cpuTotal :: "procenv \<Rightarrow> u64 \<times> u64" where
  "cpuTotal e =
     (case pe_cpu e of
        None \<Rightarrow> (0, 0)
      | Some raw \<Rightarrow>
          let line = (case index_byte raw (CHR 10) of None \<Rightarrow> raw | Some i \<Rightarrow> take i raw); parts = Fields line in
          if length parts < 2 then (0, 0)
          else
            let vals = cpu_vals (tl parts); sum = sum_list vals;
                idle = (if length vals > 3 then vals ! 3 else 0) + (if length vals > 4 then vals ! 4 else 0)
            in (sum - idle, sum))"

section \<open>The graphics card\<close>

definition nvsmi :: string where
  "nvsmi = ''/usr/bin/nvidia-smi''"

definition hasNV :: "procenv \<Rightarrow> bool" where
  "hasNV e \<longleftrightarrow> pe_nvsmi e \<or> pe_nvpath e"

definition nvBin :: "procenv \<Rightarrow> string" where
  "nvBin e = (if pe_nvsmi e then nvsmi else ''nvidia-smi'')"

definition numField :: "procenv \<Rightarrow> string \<Rightarrow> int" where
  "numField e s = (case ParseFloat (TrimSpace s) of None \<Rightarrow> 0 | Some v \<Rightarrow> to_int64 (pe_cvt e) v)"

definition mib :: int where
  "mib = 2 ^ 20"

text \<open>
  The matches of the expression \<^verbatim>\<open>(\d+)\s*MiB\<close> in a line, from the left: a run of digits that
  does not match cannot match from a later digit either.
\<close>

definition re_space :: "char \<Rightarrow> bool" where
  "re_space c \<longleftrightarrow> ord c \<in> {9, 10, 12, 13, 32 :: nat}"

function mibRe :: "string \<Rightarrow> string list" where
  "mibRe s =
     (case s of
        [] \<Rightarrow> []
      | c # cs \<Rightarrow>
          if is_digit c then
            let r = dropWhile is_digit cs; t = dropWhile re_space r in
            if has_prefix t ''MiB'' then takeWhile is_digit s # mibRe (drop 3 t) else mibRe r
          else mibRe cs)"
  by pat_completeness auto
termination
  by (relation "measure length")
    (auto simp: less_Suc_eq_le intro: le_trans [OF diff_le_self] le_trans [OF length_dropWhile_le])

declare mibRe.simps [simp del]

text \<open>One line of the table of processes; the largest amount of a process stays.\<close>

definition smi_line :: "(int \<Rightarrow> int) \<Rightarrow> string \<Rightarrow> int \<Rightarrow> int" where
  "smi_line vram line =
     (let cols = Fields (replace_byte (CHR ''|'') '' '' line) in
      if length cols < 5 then vram
      else case Atoi (cols ! 3) of
        None \<Rightarrow> vram
      | Some pid \<Rightarrow>
          (let matches = mibRe line in
           if matches = [] then vram
           else case Atoi (last matches) of
             None \<Rightarrow> vram
           | Some n \<Rightarrow> let mem = i64 (n * mib) in if mem > vram pid then vram(pid := mem) else vram))"

fun smi_table :: "bool \<Rightarrow> (int \<Rightarrow> int) \<Rightarrow> string list \<Rightarrow> int \<Rightarrow> int" where
  "smi_table seen vram [] = vram"
| "smi_table seen vram (line # ls) =
     (if str_contains line ''Processes:'' then smi_table True vram ls
      else if \<not> seen \<or> \<not> str_contains line ''MiB'' then smi_table seen vram ls
      else smi_table seen (smi_line vram line) ls)"

text \<open>The query: memory summed over the cards, the largest utilisation, the first name.\<close>

record gpuAcc =
  ga_used :: int
  ga_total :: int
  ga_util :: int
  ga_ng :: nat
  ga_name :: "string option"

definition gpu_row :: "procenv \<Rightarrow> gpuAcc \<Rightarrow> string \<Rightarrow> gpuAcc" where
  "gpu_row e a r =
     (if TrimSpace r = '''' then a
      else
        let p = map TrimSpace (split_on (CHR '','') r) in
        if length p < 3 then a
        else
          a\<lparr>ga_ng := Suc (ga_ng a),
            ga_name := (case ga_name a of None \<Rightarrow> Some (p ! 0) | Some n \<Rightarrow> Some n),
            ga_used := i64 (ga_used a + numField e (p ! 1)),
            ga_total := i64 (ga_total a + numField e (p ! 2)),
            ga_util := (if 4 \<le> length p \<and> numField e (p ! 3) > ga_util a then numField e (p ! 3) else ga_util a)\<rparr>)"

definition query_args :: "string list" where
  "query_args = [''--query-gpu=name,memory.used,memory.total,utilization.gpu,utilization.memory'',
     ''--format=csv,noheader,nounits'']"

definition gpu :: "procenv \<Rightarrow> gpuSum option \<times> (int \<Rightarrow> int)" where
  "gpu e =
     (if \<not> hasNV e then (None, \<lambda>_. 0)
      else
        let vram = smi_table False (\<lambda>_. 0) (split_on (CHR 10) (pe_smi e (nvBin e) []));
            rows = split_on (CHR 10) (TrimSpace (pe_smi e (nvBin e) query_args));
            a = foldl (gpu_row e) \<lparr>ga_used = 0, ga_total = 0, ga_util = 0, ga_ng = 0, ga_name = None\<rparr> rows;
            name0 = (case ga_name a of None \<Rightarrow> '''' | Some n \<Rightarrow> n);
            name1 = (if name0 = '''' then ''GPU'' else name0);
            name = (if ga_ng a > 1 then name1 @ '' (x'' @ dec (ga_ng a) @ '')'' else name1)
        in if ga_total a \<le> 0 then (None, vram)
           else (Some \<lparr>gp_Name = name, gp_MemUsed = i64 (ga_used a * mib), gp_MemTotal = i64 (ga_total a * mib),
             gp_Util = ga_util a, gp_MemUtil = 0\<rparr>, vram))"

section \<open>A snapshot\<close>

definition maxRows :: nat where
  "maxRows = 300"

definition round1 :: "rat \<Rightarrow> rat" where
  "round1 x = (case ParseFloat (FormatFloat 1 x) of Some (Fin v) \<Rightarrow> v | _ \<Rightarrow> 0)"

text \<open>The load of a process since the previous cycle; a counter that went back counts as none.\<close>

definition proc_cpu :: "procenv \<Rightarrow> (int \<rightharpoonup> u64) \<Rightarrow> rat \<Rightarrow> int \<Rightarrow> u64 \<Rightarrow> rat" where
  "proc_cpu e prev dt pid ticks =
     (case prev pid of
        None \<Rightarrow> 0
      | Some p0 \<Rightarrow>
          if dt > 0 then
            let d0 = sint (ticks - p0); d = (if d0 < 0 then 0 else d0)
            in fmul (fdiv (float_of_int d) (fmul (float_of_int (int (unat (pe_clkTck e)))) dt)) 100
          else 0)"

text \<open>One process of the loop: the ticks of the cycle, the cache of names, the rows so far.\<close>

definition build_pid ::
  "procenv \<Rightarrow> (int \<rightharpoonup> u64) \<Rightarrow> rat \<Rightarrow> (int \<Rightarrow> int) \<Rightarrow> (int \<rightharpoonup> u64) \<times> uidCache \<times> procRow list \<Rightarrow> int \<Rightarrow>
     (int \<rightharpoonup> u64) \<times> uidCache \<times> procRow list" where
  "build_pid e prev dt vram s pid =
     (case s of (cur, cache, rows) \<Rightarrow>
        case readStat e pid of
          None \<Rightarrow> s
        | Some (comm, ticks, threads, rssPages) \<Rightarrow>
            let cpu = proc_cpu e prev dt pid ticks; rss = sint (rssPages * pe_page e); v = vram pid in
            if rss \<le> 0 \<and> v \<le> 0 \<and> cpu \<le> 0 then (cur(pid \<mapsto> ticks), cache, rows)
            else
              let (user, cache') = userName e pid cache in
              (cur(pid \<mapsto> ticks), cache',
               rows @ [\<lparr>pw_PID = pid, pw_Name = comm, pw_User = user, pw_CPU = round1 cpu, pw_RSS = rss,
                 pw_VRAM = v, pw_Threads = threads\<rparr>]))"

definition metrics :: "(procRow \<Rightarrow> rat) list" where
  "metrics = [pw_CPU, float_of_int \<circ> pw_RSS, float_of_int \<circ> pw_VRAM, float_of_int \<circ> pw_Threads]"

definition by_metric :: "(procRow \<Rightarrow> rat) \<Rightarrow> procRow \<Rightarrow> procRow \<Rightarrow> bool" where
  "by_metric m a b \<longleftrightarrow> m a > m b"

text \<open>The rows kept by process id, and their emission in the order of the slice.\<close>

fun emit :: "(int \<rightharpoonup> procRow) \<Rightarrow> procRow list \<Rightarrow> procRow list" where
  "emit keep [] = []"
| "emit keep (r # rs) =
     (case keep (pw_PID r) of
        None \<Rightarrow> emit keep rs
      | Some k \<Rightarrow> k # emit (keep(pw_PID r := None)) rs)"

definition keep_row :: "(int \<rightharpoonup> procRow) \<Rightarrow> procRow \<Rightarrow> int \<rightharpoonup> procRow" where
  "keep_row keep r = keep(pw_PID r \<mapsto> r)"

definition leaders :: "(procRow \<Rightarrow> rat) \<Rightarrow> procRow list \<Rightarrow> procRow list" where
  "leaders m rows = take (min maxRows (length rows)) (SliceStable (by_metric m) rows)"

definition capUnion :: "procRow list \<Rightarrow> procRow list" where
  "capUnion rows =
     emit (foldl (\<lambda>keep m. foldl keep_row keep (leaders m rows)) Map.empty metrics) rows"

definition proc_build ::
  "procenv \<Rightarrow> uidCache \<Rightarrow> (int \<rightharpoonup> u64) \<Rightarrow> rat \<Rightarrow> (int \<Rightarrow> int) \<Rightarrow> gpuSum option \<Rightarrow> u64 \<Rightarrow> u64 \<Rightarrow>
     procSnapshot \<times> (int \<rightharpoonup> u64) \<times> uidCache" where
  "proc_build e cache prev dt vram gsum cpuBusyD cpuTotD =
     (let (cur, cache', rows) = foldl (build_pid e prev dt vram) (Map.empty, cache, []) (pids e);
          total = length rows;
          kept = (if total > maxRows then capUnion rows else rows);
          (mt, ma) = meminfo e;
          sysCPU = (if cpuTotD > 0
            then round1 (fmul (fdiv (float_of_int (int (unat cpuBusyD))) (float_of_int (int (unat cpuTotD)))) 100)
            else 0)
      in (\<lparr>ps_Processes = SliceStable (by_metric pw_CPU) kept, ps_Count = total,
           ps_System = \<lparr>sy_CPU = sysCPU, sy_NCPU = pe_ncpu e, sy_MemUsed = i64 (mt - ma), sy_MemTotal = mt,
             sy_GPUOk = hasNV e, sy_GPU = gsum\<rparr>, ps_Time = 0\<rparr>, cur, cache'))"

section \<open>The sampler\<close>

text \<open>
  The variables of \<^verbatim>\<open>sampler\<close> and, last, the published snapshot and the cache of names, both
  behind their locks.
\<close>

record sampler =
  sm_prev :: "int \<rightharpoonup> u64"
  sm_tprev :: int
  sm_cb0 :: u64
  sm_ct0 :: u64
  sm_gsum :: "gpuSum option"
  sm_vram :: "int \<Rightarrow> int"
  sm_i :: nat
  sm_hasGPU :: bool
  sm_state :: procSnapshot
  sm_cache :: uidCache

definition state0 :: "procenv \<Rightarrow> procSnapshot" where
  "state0 e =
     \<lparr>ps_Processes = [], ps_Count = 0,
      ps_System = \<lparr>sy_CPU = 0, sy_NCPU = pe_ncpu e, sy_MemUsed = 0, sy_MemTotal = 0, sy_GPUOk = hasNV e,
        sy_GPU = None\<rparr>, ps_Time = 0\<rparr>"

definition seed :: "procenv \<Rightarrow> int \<rightharpoonup> u64" where
  "seed e =
     foldl (\<lambda>prev pid. case readStat e pid of None \<Rightarrow> prev | Some (_, ticks, _, _) \<Rightarrow> prev(pid \<mapsto> ticks))
       Map.empty (pids e)"

definition sampler0 :: "procenv \<Rightarrow> sampler" where
  "sampler0 e =
     (let (cb0, ct0) = cpuTotal e in
      \<lparr>sm_prev = seed e, sm_tprev = pe_mono e, sm_cb0 = cb0, sm_ct0 = ct0, sm_gsum = None, sm_vram = \<lambda>_. 0,
       sm_i = 0, sm_hasGPU = hasNV e, sm_state = state0 e, sm_cache = []\<rparr>)"

text \<open>\<^verbatim>\<open>Duration.Seconds\<close>.\<close>

definition dur_Seconds :: "int \<Rightarrow> rat" where
  "dur_Seconds d = fadd (float_of_int (d div 10 ^ 9)) (fdiv (float_of_int (d mod 10 ^ 9)) (10 ^ 9))"

definition cycle :: "procenv \<Rightarrow> sampler \<Rightarrow> sampler" where
  "cycle e s =
     (let i = Suc (sm_i s);
          dt = dur_Seconds (pe_mono e - sm_tprev s);
          (cb1, ct1) = cpuTotal e;
          (gsum, vram) = (if sm_hasGPU s \<and> (sm_gsum s = None \<or> i mod 3 = 0) then gpu e else (sm_gsum s, sm_vram s));
          busyD = (if cb1 \<ge> sm_cb0 s then cb1 - sm_cb0 s else 0);
          totD = (if ct1 \<ge> sm_ct0 s then ct1 - sm_ct0 s else 0);
          (snap, cur, cache) = proc_build e (sm_cache s) (sm_prev s) dt vram gsum busyD totD
      in s\<lparr>sm_i := i, sm_gsum := gsum, sm_vram := vram, sm_cache := cache,
           sm_state := snap\<lparr>ps_Time := fdiv (float_of_int (pe_wall e)) (10 ^ 9)\<rparr>,
           sm_prev := cur, sm_tprev := pe_mono e, sm_cb0 := cb1, sm_ct0 := ct1\<rparr>)"

definition SnapshotJSON :: "sampler \<Rightarrow> procSnapshot" where
  "SnapshotJSON s = sm_state s"

section \<open>The status line of a process\<close>

text \<open>The line the kernel writes for a process.\<close>

definition stat_line :: "nat \<Rightarrow> string \<Rightarrow> string list \<Rightarrow> string" where
  "stat_line pid comm ws = dec pid @ '' ('' @ comm @ '') '' @ join '' '' ws @ [CHR 10]"

lemma paren_not_digit: "\<not> is_digit (CHR ''('')" "\<not> is_digit (CHR '' '')"
  by (simp_all add: is_digit_def)

lemma splitStat_parts:
  assumes "\<forall>w\<in>set ws. plain_word w \<and> CHR '')'' \<notin> set w" and "22 \<le> length ws"
  shows "splitStat (stat_line pid comm ws) =
     (let (utime, ok1) = ParseUint 64 (ws ! 11); (stime, ok2) = ParseUint 64 (ws ! 12);
          (rss, ok4) = ParseUint 64 (ws ! 21)
      in (case Atoi (ws ! 17) of
            None \<Rightarrow> None
          | Some thr \<Rightarrow>
              if \<not> ok1 \<or> \<not> ok2 \<or> \<not> ok4 then None
              else Some (comm, word_of_nat utime + word_of_nat stime, thr, word_of_nat rss)))"
proof -
  let ?a = "dec pid @ '' ''" and ?b = "join '' '' ws @ [CHR 10]"
  have line: "stat_line pid comm ws = (?a @ CHR ''('' # comm) @ CHR '')'' # '' '' @ ?b"
    "stat_line pid comm ws = ?a @ CHR ''('' # (comm @ '') '' @ ?b)"
    by (simp_all add: stat_line_def)
  have "CHR '')'' \<notin> set (join '' '' ws)"
    using assms(1) set_join [of "'' ''" ws] by auto
  then have rp: "last_index_byte (stat_line pid comm ws) (CHR '')'') = Some (length ?a + Suc (length comm))"
    unfolding line(1) by (subst last_index_byte_at) simp_all
  have lp: "index_byte (stat_line pid comm ws) (CHR ''('') = Some (length ?a)"
    unfolding line(2) by (subst index_byte_at) (simp_all add: string_simps paren_not_digit)
  have comm: "take (length ?a + Suc (length comm) - (length ?a + 1)) (drop (length ?a + 1) (stat_line pid comm ws)) = comm"
    by (simp add: stat_line_def)
  have rest: "drop (length ?a + Suc (length comm) + 2) (stat_line pid comm ws) = ?b"
    by (simp add: stat_line_def eval_nat_numeral)
  have len: "length ?a + Suc (length comm) + 2 \<le> length (stat_line pid comm ws)"
    by (simp add: stat_line_def)
  have "Fields ?b = ws"
    using assms(1) by (intro Fields_line) (auto simp: is_space_def)
  with rest have fields: "Fields (drop (length ?a + Suc (length comm) + 2) (stat_line pid comm ws)) = ws"
    by simp
  have "(length (stat_line pid comm ws) < length ?a + Suc (length comm) + 2) = False"
    "(length ?a + Suc (length comm) < length ?a) = False" "(length ws < 22) = False"
    using len assms(2) by simp_all
  then show ?thesis
    by (simp only: splitStat_def rp lp option.case prod.case fields comm Let_def if_False)
qed

text \<open>
  C34: The status line of a process, with any command name (spaces and parentheses included),
  gives back the name, the user and system ticks added with wrap-around, the thread count and the
  resident pages.
\<close>

theorem splitStat_stat_line:
  assumes "\<forall>w\<in>set ws. plain_word w \<and> CHR '')'' \<notin> set w" and "22 \<le> length ws"
    and "ws ! 11 = dec utime" and "ws ! 12 = dec stime" and "ws ! 17 = Itoa threads" and "ws ! 21 = dec rss"
    and "utime < 2 ^ 64" and "stime < 2 ^ 64" and "rss < 2 ^ 64" and "- (2 ^ 63) \<le> threads" and "threads < 2 ^ 63"
  shows "splitStat (stat_line pid comm ws) =
    Some (comm, word_of_nat (utime + stime), threads, word_of_nat rss)"
  using splitStat_parts [OF assms(1,2)] assms(3-) by (simp add: codec_simps)

theorem splitStat_stat_line_witness:
  "splitStat (stat_line 7 ''a) (b'' ([''S'', ''1'', ''7'', ''7'', ''0'', ''-1'', ''4194560'', ''9'', ''0'', ''0'', ''0'',
     ''18446744073709551615'', ''3'', ''0'', ''0'', ''20'', ''0'', ''-1'', ''0'', ''99'', ''4096'', ''12'']))
   = Some (''a) (b'', 2, - 1, 12)"
proof -
  have "ParseUint 64 ''18446744073709551615'' = (18446744073709551615, True)"
    by code_simp
  have d: "dec 18446744073709551615 = ''18446744073709551615''" "dec 3 = ''3''" "dec 12 = ''12''" "Itoa (- 1) = ''-1''"
    by code_simp+
  have "splitStat (stat_line 7 ''a) (b'' ([''S'', ''1'', ''7'', ''7'', ''0'', ''-1'', ''4194560'', ''9'', ''0'', ''0'', ''0'',
     ''18446744073709551615'', ''3'', ''0'', ''0'', ''20'', ''0'', ''-1'', ''0'', ''99'', ''4096'', ''12'']))
     = Some (''a) (b'', word_of_nat (18446744073709551615 + 3), - 1, word_of_nat 12)"
    by (rule splitStat_stat_line) (simp_all add: d plain_word_def is_space_def)
  moreover have "(word_of_nat (18446744073709551615 + 3) :: u64) = 2" by code_simp
  ultimately show ?thesis by simp
qed

section \<open>The cap of the table\<close>

lemma emit_filter:
  assumes "distinct (map pw_PID rows)" and "\<forall>r\<in>set rows. keep (pw_PID r) \<in> {None, Some r}"
  shows "emit keep rows = filter (\<lambda>r. keep (pw_PID r) \<noteq> None) rows"
  using assms
proof (induction rows arbitrary: keep)
  case Nil
  then show ?case by simp
next
  case (Cons r rs)
  let ?keep = "keep(pw_PID r := None)"
  have "\<forall>x\<in>set rs. pw_PID x \<noteq> pw_PID r" using Cons.prems(1) by (auto simp: image_iff)
  then have "filter (\<lambda>r. ?keep (pw_PID r) \<noteq> None) rs = filter (\<lambda>r. keep (pw_PID r) \<noteq> None) rs"
    and "\<forall>x\<in>set rs. ?keep (pw_PID x) \<in> {None, Some x}"
    using Cons.prems(2) by (auto intro: filter_cong)
  with Cons show ?case by auto
qed

lemma length_emit: "finite (dom keep) \<Longrightarrow> length (emit keep rows) \<le> card (dom keep)"
proof (induction rows arbitrary: keep)
  case Nil
  then show ?case by simp
next
  case (Cons r rs)
  show ?case
  proof (cases "keep (pw_PID r)")
    case None
    with Cons show ?thesis by simp
  next
    case (Some k)
    then have "pw_PID r \<in> dom keep" by auto
    then have "Suc (card (dom keep - {pw_PID r})) = card (dom keep)"
      by (rule card_Suc_Diff1 [OF Cons.prems])
    moreover have "length (emit (keep(pw_PID r := None)) rs) \<le> card (dom keep - {pw_PID r})"
      using Cons.IH [of "keep(pw_PID r := None)"] Cons.prems by (simp only: dom_fun_upd if_True finite_Diff simp_thms)
    ultimately show ?thesis using Some by simp
  qed
qed

lemma dom_keep_rows: "dom (foldl keep_row keep xs) = dom keep \<union> pw_PID ` set xs"
  by (induction xs arbitrary: keep) (auto simp: keep_row_def)

lemma keep_rows_value:
  assumes "inj_on pw_PID (set rows)" and "set xs \<subseteq> set rows" and "r \<in> set rows"
  shows "foldl keep_row keep xs (pw_PID r) = (if r \<in> set xs then Some r else keep (pw_PID r))"
  using assms(2)
proof (induction xs arbitrary: keep)
  case Nil
  then show ?case by simp
next
  case (Cons x xs)
  then show ?case using assms(1,3) by (auto simp: keep_row_def inj_on_def)
qed

lemma leaders_subset: "set (leaders m rows) \<subseteq> set rows"
  by (metis leaders_def set_SliceStable set_take_subset)

lemma length_leaders: "length (leaders m rows) = min maxRows (length rows)"
  by (simp add: leaders_def)

lemma keep_metrics_value:
  assumes "inj_on pw_PID (set rows)" and "r \<in> set rows"
  shows "foldl (\<lambda>keep m. foldl keep_row keep (leaders m rows)) keep ms (pw_PID r) =
    (if \<exists>m\<in>set ms. r \<in> set (leaders m rows) then Some r else keep (pw_PID r))"
  using keep_rows_value [OF assms(1) leaders_subset assms(2)] by (induction ms arbitrary: keep) auto

lemma capUnion_filter:
  assumes "distinct (map pw_PID rows)"
  shows "capUnion rows = filter (\<lambda>r. \<exists>m\<in>set metrics. r \<in> set (leaders m rows)) rows"
proof -
  have inj: "inj_on pw_PID (set rows)" using assms by (simp add: distinct_map)
  show ?thesis
    unfolding capUnion_def
    by (subst emit_filter [OF assms]) (auto simp: keep_metrics_value [OF inj] intro!: filter_cong split: if_splits)
qed

lemma card_keep_metrics:
  "finite (dom keep) \<Longrightarrow>
   finite (dom (foldl (\<lambda>keep m. foldl keep_row keep (leaders m rows)) keep ms)) \<and>
   card (dom (foldl (\<lambda>keep m. foldl keep_row keep (leaders m rows)) keep ms)) \<le> card (dom keep) + maxRows * length ms"
proof (induction ms arbitrary: keep)
  case Nil
  then show ?case by simp
next
  case (Cons m ms)
  have "card (pw_PID ` set (leaders m rows)) \<le> length (leaders m rows)"
    by (meson List.finite_set card_image_le card_length le_trans)
  also have "\<dots> \<le> maxRows" by (simp add: length_leaders)
  finally have "card (dom (foldl keep_row keep (leaders m rows))) \<le> card (dom keep) + maxRows"
    unfolding dom_keep_rows by (meson add_left_mono card_Un_le le_trans)
  with Cons.IH [of "foldl keep_row keep (leaders m rows)"] Cons.prems show ?case
    by (simp add: dom_keep_rows)
qed

lemma length_capUnion: "length (capUnion rows) \<le> 4 * maxRows"
proof -
  let ?k = "foldl (\<lambda>keep m. foldl keep_row keep (leaders m rows)) Map.empty metrics"
  have "finite (dom ?k)" "card (dom ?k) \<le> maxRows * length metrics"
    using card_keep_metrics [of Map.empty rows metrics] by simp_all
  with length_emit [of ?k rows] show ?thesis by (simp add: capUnion_def metrics_def)
qed

interpretation metric: less_order "by_metric m" for m
  using key_desc_order [of m] by (simp add: by_metric_def [abs_def])

text \<open>A row outside the leaders of a metric is not above any of them.\<close>

lemma leaders_above:
  assumes "r \<in> set rows" and "r \<notin> set (leaders m rows)" and "x \<in> set (leaders m rows)"
  shows "m r \<le> m x"
proof -
  let ?s = "SliceStable (by_metric m) rows" and ?n = "min maxRows (length rows)"
  have "sorted_wrt (\<lambda>a b. \<not> by_metric m b a) (take ?n ?s @ drop ?n ?s)"
    using metric.SliceStable_sorted [of m rows] by simp
  then have "\<forall>x\<in>set (take ?n ?s). \<forall>y\<in>set (drop ?n ?s). \<not> by_metric m y x"
    unfolding sorted_wrt_append by blast
  moreover have "r \<in> set (take ?n ?s) \<union> set (drop ?n ?s)"
    using assms(1) by (metis append_take_drop_id set_SliceStable set_append)
  ultimately show ?thesis
    using assms(2,3) by (auto simp: leaders_def by_metric_def not_less)
qed

section \<open>The table of a cycle\<close>

text \<open>The processes that get a row: readable, and with memory, video memory or load.\<close>

definition live ::
  "procenv \<Rightarrow> (int \<rightharpoonup> u64) \<Rightarrow> rat \<Rightarrow> (int \<Rightarrow> int) \<Rightarrow> int \<Rightarrow> bool" where
  "live e prev dt vram pid =
     (case readStat e pid of
        None \<Rightarrow> False
      | Some (_, ticks, _, rssPages) \<Rightarrow>
          0 < sint (rssPages * pe_page e) \<or> 0 < vram pid \<or> 0 < proc_cpu e prev dt pid ticks)"

definition build_rows ::
  "procenv \<Rightarrow> uidCache \<Rightarrow> (int \<rightharpoonup> u64) \<Rightarrow> rat \<Rightarrow> (int \<Rightarrow> int) \<Rightarrow> procRow list" where
  "build_rows e cache prev dt vram = snd (snd (foldl (build_pid e prev dt vram) (Map.empty, cache, []) (pids e)))"

lemma build_pid_pids:
  "map pw_PID (snd (snd (build_pid e prev dt vram s pid))) =
     map pw_PID (snd (snd s)) @ (if live e prev dt vram pid then [pid] else [])"
  by (auto simp: build_pid_def live_def Let_def split: option.splits prod.splits)

lemma build_rows_pids_aux:
  "map pw_PID (snd (snd (foldl (build_pid e prev dt vram) s ps))) =
     map pw_PID (snd (snd s)) @ filter (live e prev dt vram) ps"
  by (induction ps arbitrary: s) (simp_all add: build_pid_pids)

lemma build_rows_pids: "map pw_PID (build_rows e cache prev dt vram) = filter (live e prev dt vram) (pids e)"
  by (simp add: build_rows_def build_rows_pids_aux)

definition capped :: "procRow list \<Rightarrow> procRow list" where
  "capped rows = (if length rows > maxRows then capUnion rows else rows)"

lemma proc_build_table:
  assumes "proc_build e cache prev dt vram gsum bd td = (snap, cur, cache')"
  shows "ps_Processes snap = SliceStable (by_metric pw_CPU) (capped (build_rows e cache prev dt vram))"
    and "ps_Count snap = length (build_rows e cache prev dt vram)"
  using assms by (auto simp: proc_build_def build_rows_def capped_def Let_def split: prod.splits)

lemma length_capped: "length (capped rows) \<le> 4 * maxRows"
  using length_capUnion [of rows] by (simp add: capped_def)

lemma set_capped:
  assumes "distinct (map pw_PID rows)"
  shows "set (capped rows) \<subseteq> set rows"
  using capUnion_filter [OF assms] by (auto simp: capped_def)

text \<open>A row that the cap drops is dominated in every metric by as many kept rows as the cap has.\<close>

lemma capped_dominated:
  assumes "distinct (map pw_PID rows)" and "r \<in> set rows" and "r \<notin> set (capped rows)" and "m \<in> set metrics"
  shows "\<exists>L. L \<subseteq> set (capped rows) \<and> card L = maxRows \<and> (\<forall>x\<in>L. m r \<le> m x)"
proof -
  have long: "length rows > maxRows" and kept: "capped rows = filter (\<lambda>r. \<exists>m\<in>set metrics. r \<in> set (leaders m rows)) rows"
    using assms capUnion_filter [OF assms(1)] by (auto simp: capped_def split: if_splits)
  have "distinct rows" using assms(1) by (simp add: distinct_map)
  then have "distinct (SliceStable (by_metric m) rows)"
    by (metis mset_SliceStable mset_eq_imp_distinct_iff)
  then have "card (set (leaders m rows)) = maxRows"
    using long by (simp add: leaders_def distinct_card)
  moreover have "set (leaders m rows) \<subseteq> set (capped rows)"
    using leaders_subset [of m rows] assms(4) by (auto simp: kept)
  moreover have "r \<notin> set (leaders m rows)" using assms(2-4) by (auto simp: kept)
  then have "\<forall>x\<in>set (leaders m rows). m r \<le> m x" using leaders_above [OF assms(2)] by blast
  ultimately show ?thesis by blast
qed

text \<open>
  C15: The table of a cycle counts the live processes, is sorted by load, lists at most 1200 of them,
  and drops a live process only when, for each of the four metrics, 300 listed processes rank at
  least as high.
\<close>

theorem table_shows_leaders:
  assumes "distinct (pids e)" and "proc_build e cache prev dt vram gsum bd td = (snap, cur, cache')"
  shows "ps_Count snap = length (filter (live e prev dt vram) (pids e))
    \<and> sorted_wrt (\<lambda>a b. pw_CPU a \<ge> pw_CPU b) (ps_Processes snap)
    \<and> length (ps_Processes snap) \<le> 1200
    \<and> set (ps_Processes snap) \<subseteq> set (build_rows e cache prev dt vram)
    \<and> (\<forall>r \<in> set (build_rows e cache prev dt vram) - set (ps_Processes snap). \<forall>m\<in>set metrics.
         \<exists>L. L \<subseteq> set (ps_Processes snap) \<and> card L = 300 \<and> (\<forall>x\<in>L. m r \<le> m x))"
proof -
  let ?rows = "build_rows e cache prev dt vram"
  note table = proc_build_table [OF assms(2)]
  have d: "distinct (map pw_PID ?rows)"
    using assms(1) by (simp add: build_rows_pids)
  have "ps_Count snap = length (filter (live e prev dt vram) (pids e))"
    by (metis table(2) build_rows_pids length_map)
  moreover have "sorted_wrt (\<lambda>a b. pw_CPU a \<ge> pw_CPU b) (ps_Processes snap)"
    using metric.SliceStable_sorted [of pw_CPU "capped ?rows"] by (simp add: table(1) by_metric_def not_less)
  moreover have "length (ps_Processes snap) \<le> 1200"
    using length_capped [of ?rows] by (simp add: table(1) maxRows_def)
  ultimately show ?thesis
    using set_capped [OF d] capped_dominated [OF d] by (simp add: table(1) maxRows_def)
qed

text \<open>Two processes, one without memory, and the header line of an empty system.\<close>

definition ex_procenv :: procenv where
  "ex_procenv =
     \<lparr>pe_names = Some [''7'', ''self'', ''8'', ''9''],
      pe_stat = (\<lambda>pid.
        if pid = 7 then Some ''7 (a b) S 1 1 1 0 -1 0 0 0 0 0 5 6 0 0 20 0 2 0 9 0 3''
        else if pid = 8 then Some ''8 (k) S 1 1 1 0 -1 0 0 0 0 0 0 0 0 0 20 0 1 0 9 0 0''
        else None),
      pe_uid = (\<lambda>_. Some 0), pe_lookup = (\<lambda>_. Some ''root''), pe_meminfo = None, pe_cpu = None,
      pe_clkTck = 100, pe_page = 4096, pe_ncpu = 1, pe_mono = 0, pe_wall = 0, pe_nvsmi = False,
      pe_nvpath = False, pe_smi = (\<lambda>_ _. ''''), pe_cvt = (\<lambda>_. 0)\<rparr>"

theorem table_shows_leaders_witness:
  "\<exists>snap cur cache.
     proc_build ex_procenv [] Map.empty 2 (\<lambda>_. 0) None 0 0 = (snap, cur, cache) \<and> ps_Count snap = 1
     \<and> length (ps_Processes snap) \<le> 1200"
proof -
  let ?b = "proc_build ex_procenv [] Map.empty 2 (\<lambda>_. 0) None 0 0"
  obtain snap cur cache where b: "?b = (snap, cur, cache)" by (cases ?b)
  have pids: "pids ex_procenv = [7, 8, 9]" by code_simp
  have "filter (live ex_procenv Map.empty 2 (\<lambda>_. 0)) [7, 8, 9] = [7]"
    by code_simp
  then show ?thesis
    using table_shows_leaders [OF _ b] b by (simp add: pids)
qed

section \<open>Bounds of the sampler\<close>

lemma userName_cache: "length (snd (userName e pid cache)) \<le> max 4097 (length cache)"
  by (auto simp: userName_def Let_def split: option.splits)

lemma build_pid_cache:
  "length (fst (snd s)) \<le> 4097 \<Longrightarrow> length (fst (snd (build_pid e prev dt vram s pid))) \<le> 4097"
  using userName_cache [of e pid "fst (snd s)"]
  by (auto simp: build_pid_def Let_def split: option.splits prod.splits)

lemma build_fold_cache:
  "length (fst (snd s)) \<le> 4097 \<Longrightarrow> length (fst (snd (foldl (build_pid e prev dt vram) s ps))) \<le> 4097"
  by (induction ps arbitrary: s) (simp_all add: build_pid_cache)

lemma proc_build_cache:
  assumes "proc_build e cache prev dt vram gsum bd td = (snap, cur, cache')" and "length cache \<le> 4097"
  shows "length cache' \<le> 4097"
  using assms build_fold_cache [of "(Map.empty, cache, [])" e prev dt vram "pids e"]
  by (auto simp: proc_build_def Let_def split: prod.splits)

lemma cycle_bounded:
  assumes "length (sm_cache s) \<le> 4097"
  shows "length (sm_cache (cycle e s)) \<le> 4097 \<and> length (ps_Processes (sm_state (cycle e s))) \<le> 1200"
proof -
  obtain cb1 ct1 where c: "cpuTotal e = (cb1, ct1)" by (cases "cpuTotal e")
  let ?g = "if sm_hasGPU s \<and> (sm_gsum s = None \<or> Suc (sm_i s) mod 3 = 0) then gpu e else (sm_gsum s, sm_vram s)"
  obtain gsum vram where g: "?g = (gsum, vram)" by (cases ?g)
  let ?b = "proc_build e (sm_cache s) (sm_prev s) (dur_Seconds (pe_mono e - sm_tprev s)) vram gsum
     (if cb1 \<ge> sm_cb0 s then cb1 - sm_cb0 s else 0) (if ct1 \<ge> sm_ct0 s then ct1 - sm_ct0 s else 0)"
  obtain snap cur cache where b: "?b = (snap, cur, cache)" by (cases ?b)
  have "length (ps_Processes snap) \<le> 1200"
    using proc_build_table(1) [OF b] length_capped by (simp add: maxRows_def)
  moreover have "length cache \<le> 4097" by (rule proc_build_cache [OF b assms])
  ultimately show ?thesis
    unfolding cycle_def Let_def c g prod.case b by simp
qed

lemma run_bounded:
  "length (sm_cache s) \<le> 4097 \<and> length (ps_Processes (sm_state s)) \<le> 1200 \<Longrightarrow>
   length (sm_cache (foldl (\<lambda>s e. cycle e s) s es)) \<le> 4097
     \<and> length (ps_Processes (sm_state (foldl (\<lambda>s e. cycle e s) s es))) \<le> 1200"
  by (induction es arbitrary: s) (simp_all add: cycle_bounded)

text \<open>
  Over any number of cycles, whatever the system shows, the cache of user names holds at
  most 4097 entries and the published table at most 1200 rows.
\<close>

theorem sampler_bounded:
  "length (sm_cache (foldl (\<lambda>s e. cycle e s) (sampler0 e0) es)) \<le> 4097
   \<and> length (ps_Processes (SnapshotJSON (foldl (\<lambda>s e. cycle e s) (sampler0 e0) es))) \<le> 1200"
  unfolding SnapshotJSON_def
  by (rule run_bounded) (simp add: sampler0_def state0_def split: prod.splits)

end
