(* ===== verification/WebData.thy ===== *)
theory WebData
  imports InputMon FloatParse
begin

text \<open>
  Model of \<^verbatim>\<open>web/data.go\<close>: the status document, log tailing, the log views, the correlation
  report and the layer toggle. The system behind it is an environment: what a file reads as or the
  text of the error, \<^verbatim>\<open>stat\<close>, unit states, the journal, the clock. A toggle returns the actions it
  performs on the system.
\<close>

section \<open>The system\<close>

record stat =
  st_size :: int
  st_mtime :: int
  st_dev :: nat

text \<open>A read ends with the end of the file or an error, after the given bytes.\<close>

record webenv =
  we_home :: string
  we_stat :: "string \<Rightarrow> stat option"
  we_read :: "string \<Rightarrow> string + string"
  we_active :: "string \<Rightarrow> bool"
  we_journal :: "nat \<Rightarrow> string + string"
  we_now :: int

definition inputService :: string where "inputService = ''linaudit-input.service''"
definition auditService :: string where "auditService = ''auditd.service''"
definition keyLog :: string where "keyLog = ''/var/log/linaudit/input/keys.log''"
definition mnt :: string where "mnt = ''/var/log/linaudit''"

definition zdir :: "webenv \<Rightarrow> string" where
  "zdir e = (if we_home e = '''' then '''' else we_home e @ ''/.local/share/linaudit'')"

definition bufLog :: "webenv \<Rightarrow> string" where
  "bufLog e = (if we_home e = '''' then '''' else zdir e @ ''/buffer.log'')"

definition cmdLog :: "webenv \<Rightarrow> string" where
  "cmdLog e = (if we_home e = '''' then '''' else zdir e @ ''/commands.log'')"

definition disFlag :: "webenv \<Rightarrow> string" where
  "disFlag e = (if we_home e = '''' then '''' else zdir e @ ''/disabled'')"

section \<open>Status\<close>

record logMetaJSON =
  lm_Bytes :: int
  lm_Lines :: nat
  lm_Mtime :: rat

record layersJSON =
  ly_Shell :: bool
  ly_Input :: bool
  ly_Audit :: bool

record statusJSON =
  sj_Layers :: layersJSON
  sj_Buffer :: logMetaJSON
  sj_Commands :: logMetaJSON
  sj_Keys :: logMetaJSON
  sj_Encrypted :: bool
  sj_Time :: rat

definition seconds :: "int \<Rightarrow> rat" where
  "seconds nanos = fdiv (float_of_int nanos) (float_of_int (10 ^ 9))"

definition nowSeconds :: "webenv \<Rightarrow> rat" where
  "nowSeconds e = seconds (we_now e)"

definition svcActive :: "webenv \<Rightarrow> string \<Rightarrow> bool" where
  "svcActive e name = we_active e name"

definition countLines :: "webenv \<Rightarrow> string \<Rightarrow> nat option" where
  "countLines e path =
     (case we_read e path of Inl _ \<Rightarrow> None | Inr s \<Rightarrow> Some (length (filter (\<lambda>c. c = CHR 10) s)))"

definition zero_meta :: logMetaJSON where
  "zero_meta = \<lparr>lm_Bytes = 0, lm_Lines = 0, lm_Mtime = 0\<rparr>"

definition logmeta :: "webenv \<Rightarrow> string \<Rightarrow> logMetaJSON" where
  "logmeta e path =
     (case we_stat e path of
        None \<Rightarrow> zero_meta
      | Some fi \<Rightarrow>
          (case countLines e path of
             None \<Rightarrow> zero_meta
           | Some n \<Rightarrow> \<lparr>lm_Bytes = st_size fi, lm_Lines = n, lm_Mtime = seconds (st_mtime fi)\<rparr>))"

definition fileHas :: "webenv \<Rightarrow> string \<Rightarrow> string \<Rightarrow> bool" where
  "fileHas e path needle =
     (case we_read e path of Inl _ \<Rightarrow> False | Inr s \<Rightarrow> str_contains s needle)"

definition shellHookWired :: "webenv \<Rightarrow> string \<Rightarrow> bool" where
  "shellHookWired e home =
     (if fileHas e (home @ ''/.zshrc'') ''linaudit.zsh'' then True
      else if fileHas e (home @ ''/.bashrc'') ''linaudit.bash'' then True
      else we_stat e (home @ ''/.config/fish/conf.d/linaudit.fish'') \<noteq> None)"

definition shellOn :: "webenv \<Rightarrow> bool" where
  "shellOn e =
     (if we_home e = '''' then False
      else if \<not> shellHookWired e (we_home e) then False
      else we_stat e (disFlag e) = None)"

definition isMountpoint :: "webenv \<Rightarrow> string \<Rightarrow> bool" where
  "isMountpoint e path =
     (case we_stat e path of
        None \<Rightarrow> False
      | Some st \<Rightarrow>
          (case we_stat e (path @ ''/..'') of None \<Rightarrow> False | Some parent \<Rightarrow> st_dev st \<noteq> st_dev parent))"

definition status :: "webenv \<Rightarrow> statusJSON" where
  "status e =
     \<lparr>sj_Layers = \<lparr>ly_Shell = shellOn e, ly_Input = svcActive e inputService, ly_Audit = svcActive e auditService\<rparr>,
      sj_Buffer = logmeta e (bufLog e), sj_Commands = logmeta e (cmdLog e), sj_Keys = logmeta e keyLog,
      sj_Encrypted = isMountpoint e mnt, sj_Time = nowSeconds e\<rparr>"

section \<open>Tailing\<close>

text \<open>\<^verbatim>\<open>strings.ToValidUTF8\<close>: each run of invalid bytes becomes one replacement character.\<close>

definition replacement :: string where
  "replacement = [CHR 0xEF, CHR 0xBF, CHR 0xBD]"

fun valid_runes :: "bool \<Rightarrow> (nat \<times> string) list \<Rightarrow> string" where
  "valid_runes bad [] = []"
| "valid_runes bad ((r, b) # rs) =
     (if r = RuneError \<and> length b = 1 then (if bad then [] else replacement) @ valid_runes True rs
      else b @ valid_runes False rs)"

definition ToValidUTF8 :: "string \<Rightarrow> string" where
  "ToValidUTF8 s = valid_runes False (runes s)"

definition splitLines :: "string \<Rightarrow> string list" where
  "splitLines s =
     (if s = '''' then []
      else let parts = split_on (CHR 10) s in if last parts = '''' then butlast parts else parts)"

definition keep_last :: "int \<Rightarrow> 'a list \<Rightarrow> 'a list" where
  "keep_last n xs = (if 0 \<le> n \<and> n < int (length xs) then last_n (nat n) xs else xs)"

definition unavailable :: "string \<Rightarrow> string list" where
  "unavailable err = [''(unavailable: '' @ err @ '')'']"

definition tailBlock :: nat where "tailBlock = 512 * 1024"

definition tail :: "webenv \<Rightarrow> string \<Rightarrow> int \<Rightarrow> string list" where
  "tail e path n =
     (case we_read e path of
        Inl err \<Rightarrow> unavailable err
      | Inr s \<Rightarrow> keep_last n (splitLines (ToValidUTF8 (last_n tailBlock s))))"

definition journal :: "webenv \<Rightarrow> nat \<Rightarrow> string list" where
  "journal e n =
     (case we_journal e n of
        Inl err \<Rightarrow> [''(journal error: '' @ err @ '')'']
      | Inr text \<Rightarrow> splitLines (if text = '''' then ''(no usb/input journal entries)'' else text))"

definition marks :: "string list" where
  "marks = map (\<lambda>m. CHR 9 # m @ [CHR 9]) [''DEVICE_ADDED'', ''DEVICE_REMOVED'', ''AUDIT_START'']"

definition logview :: "webenv \<Rightarrow> string \<Rightarrow> nat \<Rightarrow> string list" where
  "logview e which n =
     (if which = ''buffer'' then tail e (bufLog e) (int n)
      else if which = ''exec'' \<or> which = ''commands'' then tail e (cmdLog e) (int n)
      else if which = ''keys'' then tail e keyLog (int n)
      else if which = ''devices'' then
        keep_last (int n) (filter (\<lambda>l. list_ex (str_contains l) marks) (tail e keyLog 8000))
      else if which = ''usb'' then journal e n
      else [''(unknown log)''])"

section \<open>Report\<close>

record reportRow =
  rr_ts :: f64
  rr_tag :: string
  rr_detail :: string
  rr_kind :: string

definition mk_row :: "f64 \<Rightarrow> string \<Rightarrow> string \<Rightarrow> string \<Rightarrow> reportRow" where
  "mk_row ts tag detail kind = \<lparr>rr_ts = ts, rr_tag = tag, rr_detail = detail, rr_kind = kind\<rparr>"

definition buf_row :: "string \<Rightarrow> reportRow option" where
  "buf_row line =
     (let p = split_on (CHR 9) line in
      if 6 \<le> length p \<and> p ! 4 = ''BUFFER''
      then map_option (\<lambda>ts. mk_row ts ''BUF'' (p ! 5) '''') (ParseFloat (p ! 1)) else None)"

definition exec_row :: "f64 \<Rightarrow> string \<Rightarrow> reportRow option" where
  "exec_row t0 line =
     (let p = split_on (CHR 9) line in
      if 6 \<le> length p \<and> p ! 4 = ''EXEC''
      then case ParseFloat (p ! 1) of
          None \<Rightarrow> None
        | Some ts \<Rightarrow> if f64_ge ts t0 then Some (mk_row ts ''EXEC'' (p ! 5) '''') else None
      else None)"

definition key_row :: "f64 \<Rightarrow> string \<Rightarrow> reportRow option" where
  "key_row t0 line =
     (let p = split_on (CHR 9) line in
      if length p < 2 then None
      else case ParseFloat (p ! 0) of
          None \<Rightarrow> None
        | Some ts \<Rightarrow>
            if f64_less ts t0 then None
            else if p ! 1 = ''KEY'' \<and> 6 \<le> length p then
              Some (mk_row ts ''KEY'' (p ! 3 @ '' '' @ p ! 4 @ '' val='' @ p ! 5) (if 7 \<le> length p then p ! 6 else ''''))
            else if p ! 1 = ''DEVICE_ADDED'' \<or> p ! 1 = ''DEVICE_REMOVED'' then
              Some (mk_row ts ''DEV'' (p ! 1 @ '' '' @ (if 4 \<le> length p then p ! 3 else '''')) '''')
            else None)"

definition report_less :: "reportRow \<Rightarrow> reportRow \<Rightarrow> bool" where
  "report_less a b \<longleftrightarrow> f64_less (rr_ts a) (rr_ts b)"

definition report_rows :: "int \<Rightarrow> string list \<Rightarrow> string list \<Rightarrow> string list \<Rightarrow> reportRow list" where
  "report_rows n buf cmd keys =
     (let bufs = keep_last n (List.map_filter buf_row buf) in
      if bufs = [] then []
      else let t0 = rr_ts (hd bufs)
           in SliceStable report_less (bufs @ List.map_filter (exec_row t0) cmd @ List.map_filter (key_row t0) keys))"

definition report :: "webenv \<Rightarrow> int \<Rightarrow> reportRow list" where
  "report e n = report_rows n (tail e (bufLog e) 6000) (tail e (cmdLog e) 6000) (tail e keyLog 12000)"

section \<open>Toggle\<close>

datatype action =
    Exec "string list"
  | CreateEmpty string
  | ChownToUser string
  | RemoveFile string

text \<open>
  The actions of a toggle; creating the flag may fail. The status that follows is that of the
  environment after them.
\<close>

definition toggle_actions :: "webenv \<Rightarrow> bool \<Rightarrow> string \<Rightarrow> string \<Rightarrow> action list" where
  "toggle_actions e creates layer act =
     (if layer = ''shell'' then
        if act = ''disable'' then
          if creates then [CreateEmpty (disFlag e), ChownToUser (disFlag e)] else []
        else if we_stat e (disFlag e) \<noteq> None then [RemoveFile (disFlag e)] else []
      else
        let svc = (if layer = ''input'' then inputService else auditService) in
        if act = ''enable'' then
          Exec [''systemctl'', ''enable'', ''--now'', svc]
            # (if layer = ''audit'' then [Exec [''auditctl'', ''-e'', ''1'']] else [])
        else [Exec [''systemctl'', ''disable'', ''--now'', svc]])"

section \<open>Lines\<close>

lemma length_keep_last: "0 \<le> n \<Longrightarrow> length (keep_last n xs) = min (nat n) (length xs)"
  by (auto simp: keep_last_def min_def)

lemma suffix_keep_last: "suffix (keep_last n xs) xs"
  by (simp add: keep_last_def suffix_last_n)

lemma splitLines_join:
  assumes "\<forall>l \<in> set ls. CHR 10 \<notin> set l" and "ls \<noteq> []"
  shows "splitLines (join [CHR 10] ls @ [CHR 10]) = ls"
proof -
  have "join [CHR 10] ls @ [CHR 10] = join [CHR 10] (ls @ [[]])"
    using assms(2) by (induction "[CHR 10]" ls rule: join.induct) simp_all
  moreover have "split_on (CHR 10) (join [CHR 10] (ls @ [[]])) = ls @ [[]]"
    by (rule split_on_join) (use assms in auto)
  moreover have "join [CHR 10] (ls @ [[]]) \<noteq> []" by (metis append_is_Nil_conv calculation(1) not_Cons_self2)
  ultimately show ?thesis by (simp add: splitLines_def)
qed

lemma splitLines_free: "l \<in> set (splitLines s) \<Longrightarrow> CHR 10 \<notin> set l"
  by (auto simp: splitLines_def Let_def dest!: in_set_butlastD split_on_parts_free split: if_splits)

lemma tail_lines:
  assumes "we_read e path = Inr s"
  shows "suffix (tail e path n) (splitLines (ToValidUTF8 (last_n tailBlock s)))"
  using assms by (simp add: tail_def suffix_keep_last)

lemma length_tail: "0 \<le> n \<Longrightarrow> length (tail e path n) \<le> max 1 (nat n)"
  by (auto simp: tail_def unavailable_def length_keep_last max_def split: sum.splits)

text \<open>
  A log view never returns more lines than asked for (one diagnostic line when there is an
  error), whichever view it is, the journal aside; and the device view returns only lines with one of the
  three device marks, taken in order from the key log.
\<close>

theorem logview_bounded:
  "(which = ''usb'' \<or> length (logview e which n) \<le> max 1 n)
   \<and> subseq (logview e ''devices'' n) (tail e keyLog 8000)
   \<and> list_all (\<lambda>l. list_ex (str_contains l) marks) (logview e ''devices'' n)"
proof (intro conjI)
  show "which = ''usb'' \<or> length (logview e which n) \<le> max 1 n"
    using length_tail [of "int n" e] by (auto simp: logview_def length_keep_last)
  have suf: "suffix (logview e ''devices'' n) (filter (\<lambda>l. list_ex (str_contains l) marks) (tail e keyLog 8000))"
    by (simp add: logview_def suffix_keep_last)
  then show "subseq (logview e ''devices'' n) (tail e keyLog 8000)"
    using subseq_filter_left subseq_order.order_trans suffix_imp_subseq by blast
  from suf show "list_all (\<lambda>l. list_ex (str_contains l) marks) (logview e ''devices'' n)"
    by (auto simp: list_all_iff suffix_def dest!: arg_cong [where f = set])
qed

section \<open>The report\<close>







subsection \<open>What was written\<close>

text \<open>
  A record of the shell hooks: a printed time, the epoch time, terminal, process, kind and the
  text typed, which alone may hold tabs; the report shows the text up to its first tab.
\<close>

record shellrec =
  sr_iso :: string
  sr_epoch :: string
  sr_tty :: string
  sr_pid :: string
  sr_kind :: string
  sr_text :: string

definition shell_line :: "shellrec \<Rightarrow> string" where
  "shell_line r =
     sr_iso r @ CHR 9 # sr_epoch r @ CHR 9 # sr_tty r @ CHR 9 # sr_pid r @ CHR 9 # sr_kind r @ CHR 9 # sr_text r"

definition shell_ok :: "shellrec \<Rightarrow> bool" where
  "shell_ok r \<longleftrightarrow>
     list_all (\<lambda>f. CHR 9 \<notin> set f \<and> CHR 10 \<notin> set f) [sr_iso r, sr_epoch r, sr_tty r, sr_pid r, sr_kind r]
     \<and> CHR 10 \<notin> set (sr_text r)"

definition shell_text :: "shellrec list \<Rightarrow> string" where
  "shell_text rs = concat (map (\<lambda>r. shell_line r @ [CHR 10]) rs)"

text \<open>The rows that the records of one kind are worth, and those of the records of the input monitor.\<close>

definition shell_rows :: "string \<Rightarrow> string \<Rightarrow> shellrec list \<Rightarrow> reportRow list" where
  "shell_rows kind tag rs =
     List.map_filter (\<lambda>r. if sr_kind r = kind
       then map_option (\<lambda>ts. \<lparr>rr_ts = ts, rr_tag = tag, rr_detail = takeWhile (\<lambda>c. c \<noteq> CHR 9) (sr_text r), rr_kind = []\<rparr>)
         (ParseFloat (sr_epoch r))
       else None) rs"

definition rec_time :: "logged \<Rightarrow> string" where
  "rec_time r = (case r of Added t d phys \<Rightarrow> t | Key ev d \<Rightarrow> fmtTime (eventTimestamp ev) | Removed t d \<Rightarrow> t | AuditStart t pid n \<Rightarrow> t)"

definition input_row :: "(nat \<Rightarrow> bool) \<Rightarrow> logged \<Rightarrow> reportRow option" where
  "input_row prt r =
     (case ParseFloat (rec_time r) of
        None \<Rightarrow> None
      | Some ts \<Rightarrow>
          (case r of
              Key ev d \<Rightarrow> Some \<lparr>rr_ts = ts, rr_tag = ''KEY'', rr_detail =
                reprSingle prt (d_name d) @ '' '' @ keyname (ev_Code ev) @ '' val='' @ Itoa (ev_Value ev), rr_kind = d_kind d\<rparr>
            | Added t d phys \<Rightarrow> Some \<lparr>rr_ts = ts, rr_tag = ''DEV'', rr_detail =
                ''DEVICE_ADDED '' @ reprSingle prt (d_name d), rr_kind = []\<rparr>
            | Removed t d \<Rightarrow> Some \<lparr>rr_ts = ts, rr_tag = ''DEV'', rr_detail =
                ''DEVICE_REMOVED '' @ reprSingle prt (d_name d), rr_kind = []\<rparr>
            | AuditStart t pid n \<Rightarrow> None))"

definition kept_prompts :: "int \<Rightarrow> shellrec list \<Rightarrow> reportRow list" where
  "kept_prompts n bs = (let ps = shell_rows ''BUFFER'' ''BUF'' bs in drop (length ps - nat n) ps)"


definition key_line :: "(nat \<Rightarrow> bool) \<Rightarrow> logged \<Rightarrow> string" where
  "key_line prt r = join [CHR 9] (rec_fields prt r)"

subsection \<open>What is read\<close>

lemma hd_split_on: "hd (split_on c s) = takeWhile (\<lambda>x. x \<noteq> c) s"
  by (induction s) (auto split: list.splits)

lemma split_shell_line:
  assumes "shell_ok r"
  shows "split_on (CHR 9) (shell_line r)
    = sr_iso r # sr_epoch r # sr_tty r # sr_pid r # sr_kind r # split_on (CHR 9) (sr_text r)"
  using assms by (simp add: shell_ok_def shell_line_def split_on_append)

lemma shell_fields:
  assumes "shell_ok r"
  defines "p \<equiv> split_on (CHR 9) (shell_line r)"
  shows "6 \<le> length p" and "p ! Suc 0 = sr_epoch r" and "p ! 4 = sr_kind r"
    and "p ! 5 = takeWhile (\<lambda>c. c \<noteq> CHR 9) (sr_text r)"
proof -
  obtain q qs where q: "split_on (CHR 9) (sr_text r) = q # qs" by (cases "split_on (CHR 9) (sr_text r)") auto
  then have "q = takeWhile (\<lambda>c. c \<noteq> CHR 9) (sr_text r)" using hd_split_on [of "CHR 9" "sr_text r"] by simp
  then show "6 \<le> length p" "p ! Suc 0 = sr_epoch r" "p ! 4 = sr_kind r" "p ! 5 = takeWhile (\<lambda>c. c \<noteq> CHR 9) (sr_text r)"
    by (simp_all add: p_def split_shell_line [OF assms(1)] q)
qed

lemma buf_rows: "list_all shell_ok bs \<Longrightarrow> List.map_filter buf_row (map shell_line bs) = shell_rows ''BUFFER'' ''BUF'' bs"
  unfolding shell_rows_def
  by (induction bs) (auto simp: buf_row_def Let_def shell_fields mk_row_def split: option.splits)


lemma record_line:
  assumes "clean_record r"
  shows "CHR 10 \<notin> set (key_line prt r)" and "split_on (CHR 9) (key_line prt r) = rec_fields prt r"
proof -
  have f: "no_control x" if "x \<in> set (rec_fields prt r)" for x
    using that clean_record_fields [OF assms, of prt] by (simp add: list_all_iff)
  show "CHR 10 \<notin> set (key_line prt r)"
    using set_join [of "[CHR 9]" "rec_fields prt r"] f no_control_free [of _ "CHR 10"] by (fastforce simp: key_line_def)
  show "split_on (CHR 9) (key_line prt r) = rec_fields prt r"
    unfolding key_line_def by (rule split_on_join) (use f no_control_free [of _ "CHR 9"] in auto)
qed

lemma key_row_record:
  assumes "clean_record r"
  shows "key_row t0 (key_line prt r) =
    (case input_row prt r of None \<Rightarrow> None | Some row \<Rightarrow> if f64_less (rr_ts row) t0 then None else Some row)"
  unfolding key_row_def record_line(2) [OF assms] Let_def
  by (cases "ParseFloat (rec_time r)"; cases r) (simp_all add: input_row_def rec_time_def mk_row_def)

lemma key_rows:
  "list_all clean_record ks \<Longrightarrow> List.map_filter (key_row t0) (map (key_line prt) ks) =
     filter (\<lambda>r. \<not> f64_less (rr_ts r) t0) (List.map_filter (input_row prt) ks)"
  by (induction ks) (auto simp: key_row_record split: option.splits)

lemma keep_last_drop: "0 \<le> n \<Longrightarrow> keep_last n xs = drop (length xs - nat n) xs"
  by (auto simp: keep_last_def last_n_def)

text \<open>The report before it is sorted, on lines of prompts as they were written and any lines of the other logs.\<close>

lemma report_rows_kept:
  assumes "list_all shell_ok bs" and "0 \<le> n"
  shows "report_rows n (map shell_line bs) cmd keys =
    (case kept_prompts n bs of
       [] \<Rightarrow> []
     | p # ps \<Rightarrow> SliceStable report_less
         (p # ps @ List.map_filter (exec_row (rr_ts p)) cmd @ List.map_filter (key_row (rr_ts p)) keys))"
  by (auto simp: report_rows_def Let_def buf_rows [OF assms(1)] keep_last_drop [OF assms(2)] kept_prompts_def
      split: list.split)

lemma kept_prompts_in: "p \<in> set (kept_prompts n bs) \<Longrightarrow> p \<in> set (shell_rows ''BUFFER'' ''BUF'' bs)"
  by (auto simp: kept_prompts_def Let_def dest: in_set_dropD)




definition ex_shell :: "string \<Rightarrow> string \<Rightarrow> string \<Rightarrow> shellrec" where
  "ex_shell epoch kind txt =
     \<lparr>sr_iso = ''now'', sr_epoch = epoch, sr_tty = ''tty=1'', sr_pid = ''pid=7'', sr_kind = kind, sr_text = txt\<rparr>"

definition ex_cmds :: "shellrec list" where
  "ex_cmds = [ex_shell ''-inf'' ''EXEC'' ''old'', ex_shell ''inf'' ''EXEC'' (''ls'' @ CHR 9 # ''x''), ex_shell ''0'' ''NOTE'' ''y'']"

definition ex_inputs :: "logged list" where
  "ex_inputs =
     [Removed ''0'' \<lparr>d_path = ''/dev/input/event3'', d_name = ''kbd'', d_keyCap = True, d_kind = ''wired'', d_id = 0\<rparr>,
      AuditStart ''0'' 7 1]"

lemma ex_times: "ParseFloat ''0'' = Some (Fin 0)" "ParseFloat ''0.0'' = Some (Fin 0)" "ParseFloat ''inf'' = Some PosInf"
    "ParseFloat ''-inf'' = Some NegInf"
  by (simp_all add: ParseFloat_def special_def Let_def lower_char_def read_number_def is_digit_def digit_val_def)

lemma ex_rows:
  "shell_rows ''BUFFER'' ''BUF'' [ex_shell ''0'' ''BUFFER'' ''ls''] =
    [\<lparr>rr_ts = Fin 0, rr_tag = ''BUF'', rr_detail = ''ls'', rr_kind = []\<rparr>]"
  "shell_rows ''EXEC'' ''EXEC'' ex_cmds =
    [\<lparr>rr_ts = NegInf, rr_tag = ''EXEC'', rr_detail = ''old'', rr_kind = []\<rparr>,
     \<lparr>rr_ts = PosInf, rr_tag = ''EXEC'', rr_detail = ''ls'', rr_kind = []\<rparr>]"
  "List.map_filter (input_row (\<lambda>_. True)) ex_inputs =
    [\<lparr>rr_ts = Fin 0, rr_tag = ''DEV'', rr_detail = ''DEVICE_REMOVED '' @ single_quote # ''kbd'' @ [single_quote], rr_kind = []\<rparr>]"
  by (simp_all add: shell_rows_def ex_shell_def ex_cmds_def ex_inputs_def input_row_def rec_time_def ex_times
      reprSingle_plain plain_def single_quote_def)

lemma ex_ok: "list_all shell_ok [ex_shell ''0'' ''BUFFER'' ''ls'']" "list_all shell_ok ex_cmds" "list_all clean_record ex_inputs"
  by (simp_all add: shell_ok_def ex_shell_def ex_cmds_def ex_inputs_def clean_record_def no_control_def)



subsection \<open>The key log in the report\<close>

lemma splitLines_text:
  assumes "\<forall>l \<in> set ls. CHR 10 \<notin> set l"
  shows "splitLines (concat (map (\<lambda>l. l @ [CHR 10]) ls)) = ls"
proof -
  have "split_on (CHR 10) (concat (map (\<lambda>l. l @ [CHR 10]) ls)) = ls @ [[]]"
    using assms by (induction ls) (simp_all add: split_on_append)
  moreover have "concat (map (\<lambda>l. l @ [CHR 10]) ls) = [] \<longleftrightarrow> ls = []" by (cases ls) simp_all
  ultimately show ?thesis by (simp add: splitLines_def)
qed

lemma count_newlines: "\<forall>l \<in> set ls. CHR 10 \<notin> set l \<Longrightarrow> count_list (concat (map (\<lambda>l. l @ [CHR 10]) ls)) (CHR 10) = length ls"
  by (induction ls) (simp_all add: count_list_0_iff)

text \<open>A file is read in whole when it fits the block, is valid UTF-8 and has no more lines than asked for.\<close>

definition read_whole :: "webenv \<Rightarrow> string \<Rightarrow> string \<Rightarrow> int \<Rightarrow> bool" where
  "read_whole e path s n \<longleftrightarrow>
     we_read e path = Inr s \<and> length s \<le> 512 * 1024 \<and> ToValidUTF8 s = s \<and> int (count_list s (CHR 10)) \<le> n"

lemma tail_whole:
  assumes "read_whole e path s n" and "s = concat (map (\<lambda>l. l @ [CHR 10]) ls)" and "\<forall>l \<in> set ls. CHR 10 \<notin> set l"
  shows "tail e path n = ls"
  using assms(1) splitLines_text [OF assms(3)] count_newlines [OF assms(3)]
  by (auto simp: read_whole_def tail_def last_n_def tailBlock_def keep_last_def assms(2))

lemma log_file_lines_of: "log_file prt rs = concat (map (\<lambda>l. l @ [CHR 10]) (map (key_line prt) rs))"
proof (induction rs)
  case Nil
  then show ?case by (simp add: log_file_def)
qed (simp add: log_file_Cons key_line_def)

lemma shell_line_free: "shell_ok r \<Longrightarrow> CHR 10 \<notin> set (shell_line r)"
  by (auto simp: shell_ok_def shell_line_def)

definition from_input :: "reportRow \<Rightarrow> bool" where
  "from_input r \<longleftrightarrow> rr_tag r = ''KEY'' \<or> rr_tag r = ''DEV''"

lemma shell_rows_tag: "r \<in> set (shell_rows kind tag rs) \<Longrightarrow> rr_tag r = tag"
  by (induction rs) (auto simp: shell_rows_def split: option.splits if_splits)

lemma exec_row_tag: "r \<in> set (List.map_filter (exec_row t0) ls) \<Longrightarrow> rr_tag r = ''EXEC''"
  by (induction ls) (auto simp: exec_row_def Let_def mk_row_def split: option.splits if_splits)

lemma input_row_tag: "r \<in> set (List.map_filter (input_row prt) ks) \<Longrightarrow> from_input r"
  by (induction ks) (auto simp: input_row_def from_input_def split: option.splits logged.splits)

text \<open>
  C14: What the input monitor wrote is what the report of the dashboard shows of it. When the prompt log
  holds what the hooks wrote and the key log what the monitor wrote, and each fits what the
  report reads of it (the last 512 KiB, valid UTF-8, 6000 and 12000 lines), then the rows of the
  report that come from input are exactly these, each as often as written: every key press not
  before the first prompt kept, with the name of its device, of its key, its value and its bus,
  and every device record not before it with the name of its device. Start records are not
  shown, nor is anything when no prompt is kept. The command log may hold, or fail with, anything, and the
  names of devices may have any bytes.
\<close>

theorem key_log_reported:
  assumes "list_all shell_ok bs" and "list_all clean_record rs" and "0 \<le> n"
    and "read_whole e (bufLog e) (shell_text bs) 6000"
    and "read_whole e keyLog (log_file prt rs) 12000"
  shows "mset (filter from_input (report e n)) =
    (case kept_prompts n bs of
       [] \<Rightarrow> {#}
     | p # ps \<Rightarrow> mset (filter (\<lambda>r. \<not> f64_less (rr_ts r) (rr_ts p)) (List.map_filter (input_row prt) rs)))"
proof -
  have buf: "tail e (bufLog e) 6000 = map shell_line bs"
    using assms(1) by (intro tail_whole [OF assms(4)]) (auto simp: shell_text_def comp_def list_all_iff shell_line_free)
  have keys: "tail e keyLog 12000 = map (key_line prt) rs"
    using assms(2) record_line(1) by (intro tail_whole [OF assms(5)]) (auto simp: log_file_lines_of list_all_iff)
  show ?thesis
  proof (cases "kept_prompts n bs")
    case Nil
    then show ?thesis by (simp add: report_def buf keys report_rows_kept assms(1,3))
  next
    case (Cons p ps)
    then have prompts: "\<forall>r \<in> set (p # ps). \<not> from_input r"
      using kept_prompts_in [of _ n bs] shell_rows_tag [of _ "''BUFFER''" "''BUF''" bs] by (force simp: from_input_def)
    have cmds: "\<forall>r \<in> set (List.map_filter (exec_row t0) ls). \<not> from_input r" for t0 ls
      by (auto simp: from_input_def dest: exec_row_tag)
    have ins: "filter from_input (filter P (List.map_filter (input_row prt) rs)) = filter P (List.map_filter (input_row prt) rs)" for P
      unfolding filter_filter by (rule filter_cong) (auto dest: input_row_tag)
    have none: "filter from_input xs = []" if "\<forall>r \<in> set xs. \<not> from_input r" for xs
      using that by (simp add: filter_empty_conv)
    have sort: "mset (filter from_input (SliceStable report_less xs)) = mset (filter from_input xs)" for xs
      by simp
    show ?thesis
      unfolding report_def buf keys report_rows_kept [OF assms(1,3)] Cons list.case sort key_rows [OF assms(2)]
      using prompts by (simp only: append_Cons [symmetric] filter_append none [OF cmds] none [OF prompts] ins append_Nil)
  qed
qed

text \<open>A host on which one prompt, one removal and one start were written, and no command log can be read.\<close>

definition ex_report_env :: webenv where
  "ex_report_env =
     \<lparr>we_home = ''/h'', we_stat = (\<lambda>_. None),
      we_read = (\<lambda>p. if p = keyLog then Inr (log_file (\<lambda>_. True) ex_inputs)
        else if p = ''/h/.local/share/linaudit/buffer.log'' then Inr (shell_text [ex_shell ''0'' ''BUFFER'' ''ls'']) else Inl ''no such file''),
      we_active = (\<lambda>_. False), we_journal = (\<lambda>_. Inr ''''), we_now = 0\<rparr>"

lemma key_log_reported_witness:
  "mset (filter from_input (report ex_report_env 5)) =
     {#\<lparr>rr_ts = Fin 0, rr_tag = ''DEV'', rr_detail = ''DEVICE_REMOVED '' @ single_quote # ''kbd'' @ [single_quote], rr_kind = []\<rparr>#}"
proof -
  have "read_whole ex_report_env (bufLog ex_report_env) (shell_text [ex_shell ''0'' ''BUFFER'' ''ls'']) 6000"
    by code_simp
  moreover have "read_whole ex_report_env keyLog (log_file (\<lambda>_. True) ex_inputs) 12000"
    by code_simp
  ultimately have "mset (filter from_input (report ex_report_env 5)) =
    (case kept_prompts 5 [ex_shell ''0'' ''BUFFER'' ''ls''] of
       [] \<Rightarrow> {#}
     | p # ps \<Rightarrow> mset (filter (\<lambda>r. \<not> f64_less (rr_ts r) (rr_ts p)) (List.map_filter (input_row (\<lambda>_. True)) ex_inputs)))"
    by (intro key_log_reported ex_ok) simp_all
  then show ?thesis unfolding ex_rows kept_prompts_def by (simp add: f64_less_irrefl)
qed

text \<open>
  A NaN is inconsistent: from a window that starts at one, no command is reported and every input
  event is.
\<close>

lemma nan_window:
  "exec_row NaN l = None"
  "ParseFloat (hd (split_on (CHR 9) l)) = Some ts \<Longrightarrow> key_row NaN l = key_row NegInf l"
  by (auto simp: exec_row_def key_row_def Let_def f64_ge_def f64_less_NaN f64_less_def split: option.splits f64.splits)

end
