(* ===== verification/Scrypt.thy ===== *)
theory Scrypt
  imports Prelude
begin

text \<open>
  Model of the scrypt part of \<^verbatim>\<open>web/auth.go\<close>: Salsa20/8, BlockMix, ROMix, PBKDF2 and
  \<^verbatim>\<open>scryptKey\<close> on flat word arrays with their slice bounds, where \<open>None\<close> is a panic, next to
  the reference of RFC 7914 on lists of blocks, which they refine. HMAC-SHA256 is a parameter: a
  function of the key and the message to 32 bytes.
\<close>

unbundle bit_operations_syntax

section \<open>Arrays\<close>

text \<open>\<^verbatim>\<open>copy(dst[i:], src)\<close>: as many elements as fit.\<close>

definition copy_to :: "'a list \<Rightarrow> nat \<Rightarrow> 'a list \<Rightarrow> 'a list option" where
  "copy_to dst i src =
     (if i \<le> length dst
      then Some (take i dst @ take (length dst - i) src @ drop (i + length src) dst) else None)"

text \<open>A loop whose passes may panic.\<close>

fun ofold :: "('b \<Rightarrow> 'a \<Rightarrow> 'a option) \<Rightarrow> 'b list \<Rightarrow> 'a \<Rightarrow> 'a option" where
  "ofold f [] s = Some s"
| "ofold f (x # xs) s = (case f x s of None \<Rightarrow> None | Some t \<Rightarrow> ofold f xs t)"

section \<open>Salsa20/8\<close>

definition rotl :: "u32 \<Rightarrow> nat \<Rightarrow> u32" where
  "rotl v n = push_bit n v OR drop_bit (32 - n) v"

text \<open>One line of the two rounds, \<^verbatim>\<open>x[k] ^= rotl(x[a]+x[b], n)\<close>.\<close>

definition qstep :: "nat \<Rightarrow> nat \<Rightarrow> nat \<Rightarrow> nat \<Rightarrow> u32 list \<Rightarrow> u32 list" where
  "qstep k a b n x = x[k := x ! k XOR rotl (x ! a + x ! b) n]"

definition columnRound :: "u32 list \<Rightarrow> u32 list" where
  "columnRound x = foldl (\<lambda>x f. f x) x
     [qstep 4 0 12 7, qstep 8 4 0 9, qstep 12 8 4 13, qstep 0 12 8 18,
      qstep 9 5 1 7, qstep 13 9 5 9, qstep 1 13 9 13, qstep 5 1 13 18,
      qstep 14 10 6 7, qstep 2 14 10 9, qstep 6 2 14 13, qstep 10 6 2 18,
      qstep 3 15 11 7, qstep 7 3 15 9, qstep 11 7 3 13, qstep 15 11 7 18]"

definition rowRound :: "u32 list \<Rightarrow> u32 list" where
  "rowRound x = foldl (\<lambda>x f. f x) x
     [qstep 1 0 3 7, qstep 2 1 0 9, qstep 3 2 1 13, qstep 0 3 2 18,
      qstep 6 5 4 7, qstep 7 6 5 9, qstep 4 7 6 13, qstep 5 4 7 18,
      qstep 11 10 9 7, qstep 8 11 10 9, qstep 9 8 11 13, qstep 10 9 8 18,
      qstep 12 15 14 7, qstep 13 12 15 9, qstep 14 13 12 13, qstep 15 14 13 18]"

definition salsa20Core8 :: "u32 list \<Rightarrow> u32 list" where
  "salsa20Core8 inp =
     (let x = ((rowRound \<circ> columnRound) ^^ 4) inp
      in map (\<lambda>i. x ! i + inp ! i) [0..<16])"

section \<open>BlockMix and ROMix\<close>

definition xor_words :: "u32 list \<Rightarrow> u32 list \<Rightarrow> u32 list" where
  "xor_words xs ys = map2 (XOR) xs ys"

definition block_pass :: "u32 list \<Rightarrow> nat \<Rightarrow> nat \<Rightarrow> u32 list \<times> u32 list \<Rightarrow> (u32 list \<times> u32 list) option" where
  "block_pass inp r i = (\<lambda>(x, out). do {
     blk \<leftarrow> slice inp (i * 16) (i * 16 + 16);
     let x = salsa20Core8 (xor_words x blk);
     out \<leftarrow> copy_to out (if i mod 2 = 0 then i div 2 * 16 else (i div 2 + r) * 16) x;
     Some (x, out)
   })"

definition scryptBlockMix :: "u32 list \<Rightarrow> u32 list \<Rightarrow> nat \<Rightarrow> u32 list option" where
  "scryptBlockMix inp out r = do {
     x \<leftarrow> slice inp ((2 * r - 1) * 16) ((2 * r - 1) * 16 + 16);
     (x, out) \<leftarrow> ofold (block_pass inp r) [0..<2 * r] (x, out);
     Some out
   }"

text \<open>\<^verbatim>\<open>blockXor\<close> into the first \<open>cnt\<close> words; it panics when either is shorter.\<close>

definition blockXor :: "u32 list \<Rightarrow> u32 list \<Rightarrow> nat \<Rightarrow> u32 list option" where
  "blockXor dst src cnt =
     (if cnt \<le> length dst \<and> cnt \<le> length src
      then Some (xor_words (take cnt dst) (take cnt src) @ drop cnt dst) else None)"

text \<open>The halves of \<^verbatim>\<open>xy\<close> are the state of the loops, with the scratch array \<^verbatim>\<open>v\<close>.\<close>

type_synonym romix = "u32 list \<times> u32 list \<times> u32 list"

definition fill_pass :: "nat \<Rightarrow> nat \<Rightarrow> romix \<Rightarrow> romix option" where
  "fill_pass r i = (\<lambda>(x, y, v). do {
     let bw = 32 * r;
     _ \<leftarrow> slice v (i * bw) ((i + 1) * bw);
     v \<leftarrow> copy_to v (i * bw) x;
     y \<leftarrow> scryptBlockMix x y r;
     src \<leftarrow> slice y 0 bw;
     x \<leftarrow> copy_to x 0 src;
     Some (x, y, v)
   })"

definition mix_pass :: "nat \<Rightarrow> nat \<Rightarrow> nat \<Rightarrow> romix \<Rightarrow> romix option" where
  "mix_pass n r i = (\<lambda>(x, y, v). do {
     let bw = 32 * r;
     w \<leftarrow> index x ((2 * r - 1) * 16);
     let j = unat (w AND word_of_nat (n - 1));
     src \<leftarrow> slice v (j * bw) (length v);
     x \<leftarrow> blockXor x src bw;
     y \<leftarrow> scryptBlockMix x y r;
     src \<leftarrow> slice y 0 bw;
     x \<leftarrow> copy_to x 0 src;
     Some (x, y, v)
   })"

definition scryptROMix :: "u32 list \<Rightarrow> u32 list \<Rightarrow> nat \<Rightarrow> nat \<Rightarrow> (u32 list \<times> u32 list) option" where
  "scryptROMix xy v n r = do {
     let bw = 32 * r;
     x \<leftarrow> slice xy 0 bw;
     (x, y, v) \<leftarrow> ofold (fill_pass r) [0..<n] (x, drop bw xy, v);
     (x, y, v) \<leftarrow> ofold (mix_pass n r) [0..<n] (x, y, v);
     Some (x @ y, v)
   }"

section \<open>PBKDF2 and the key\<close>

type_synonym hmac_fun = "u8 list \<Rightarrow> u8 list \<Rightarrow> u8 list"

definition hLen :: nat where "hLen = 32"

fun pbkdf2_iter :: "hmac_fun \<Rightarrow> u8 list \<Rightarrow> nat \<Rightarrow> u8 list \<Rightarrow> u8 list \<Rightarrow> u8 list" where
  "pbkdf2_iter hmac password 0 u t = t"
| "pbkdf2_iter hmac password (Suc k) u t =
     (let u = hmac password u in pbkdf2_iter hmac password k u (map2 (XOR) t u))"

definition pbkdf2SHA256 :: "hmac_fun \<Rightarrow> u8 list \<Rightarrow> u8 list \<Rightarrow> nat \<Rightarrow> nat \<Rightarrow> u8 list" where
  "pbkdf2SHA256 hmac password salt iter keyLen =
     (let numBlocks = (keyLen + hLen - 1) div hLen;
          block = (\<lambda>b. let u = hmac password (salt @ put_be32 (word_of_nat b))
                      in pbkdf2_iter hmac password (iter - 1) u u)
      in take keyLen (concat (map block [1..<numBlocks + 1])))"

fun bytesToUint32LE :: "u8 list \<Rightarrow> u32 list" where
  "bytesToUint32LE (a # b # c # d # bs) = word_of_nat (le_nat [a, b, c, d]) # bytesToUint32LE bs"
| "bytesToUint32LE _ = []"

definition uint32ToBytesLE :: "u32 list \<Rightarrow> u8 list" where
  "uint32ToBytesLE ws = concat (map put_le32 ws)"

text \<open>
  \<^verbatim>\<open>make\<close> panics beyond the address space of 48 bits. The sizes are not wrapped here: where they
  would wrap in 64 bits the code panics too, at the latest when a loop runs out of its array.
\<close>

definition make_words :: "nat \<Rightarrow> u32 list option" where
  "make_words n = (if n < 2 ^ 46 then Some (replicate n 0) else None)"

definition key_pass :: "nat \<Rightarrow> nat \<Rightarrow> nat \<Rightarrow> u8 list \<times> u32 list \<times> u32 list \<Rightarrow> (u8 list \<times> u32 list \<times> u32 list) option" where
  "key_pass n r i = (\<lambda>(b, xy, v). do {
     let bw = 32 * r;
     blk \<leftarrow> slice b (i * bw * 4) ((i + 1) * bw * 4);
     xy \<leftarrow> copy_to xy 0 (bytesToUint32LE blk);
     (xy, v) \<leftarrow> scryptROMix xy v n r;
     ws \<leftarrow> slice xy 0 bw;
     b \<leftarrow> copy_to b (i * bw * 4) (uint32ToBytesLE ws);
     Some (b, xy, v)
   })"

definition errScrypt :: "string \<Rightarrow> string" where
  "errScrypt msg = ''scrypt: '' @ msg"

text \<open>\<^verbatim>\<open>n & (n-1)\<close> on 64-bit integers, \<open>n\<close> positive.\<close>

definition power_of_two :: "int \<Rightarrow> bool" where
  "power_of_two n \<longleftrightarrow> n AND (n - 1) = 0"

definition scryptKey :: "hmac_fun \<Rightarrow> u8 list \<Rightarrow> u8 list \<Rightarrow> int \<Rightarrow> int \<Rightarrow> int \<Rightarrow> int \<Rightarrow> (string + u8 list) option" where
  "scryptKey hmac password salt n r p dkLen =
     (if n \<le> 1 \<or> \<not> power_of_two n then Some (Inl (errScrypt ''N must be > 1 and a power of two''))
      else if r \<le> 0 \<or> p \<le> 0 then Some (Inl (errScrypt ''r and p must be positive''))
      else if dkLen \<le> 0 then Some (Inl (errScrypt ''dkLen must be positive''))
      else if 2 ^ 30 \<le> (word_of_int r * word_of_int p :: u64) then Some (Inl (errScrypt ''parameters too large''))
      else do {
        let n = nat n;
        let r = nat r;
        let p = nat p;
        let bw = 32 * r;
        b \<leftarrow> (if p * bw * 4 < 2 ^ 48 then Some (pbkdf2SHA256 hmac password salt 1 (p * bw * 4)) else None);
        v \<leftarrow> make_words (n * bw);
        xy \<leftarrow> make_words (2 * bw);
        (b, xy, v) \<leftarrow> ofold (key_pass n r) [0..<p] (b, xy, v);
        Some (Inr (pbkdf2SHA256 hmac password b 1 (nat dkLen)))
      })"

section \<open>The reference of RFC 7914\<close>

definition chunk :: "nat \<Rightarrow> 'a list \<Rightarrow> nat \<Rightarrow> 'a list" where
  "chunk b xs j = take b (drop (b * j) xs)"

text \<open>The quarter-round of Salsa20 and its rounds on the columns and rows of the matrix.\<close>

definition quarterround :: "u32 \<times> u32 \<times> u32 \<times> u32 \<Rightarrow> u32 \<times> u32 \<times> u32 \<times> u32" where
  "quarterround = (\<lambda>(y0, y1, y2, y3).
     let z1 = y1 XOR rotl (y0 + y3) 7;
         z2 = y2 XOR rotl (z1 + y0) 9;
         z3 = y3 XOR rotl (z2 + z1) 13;
         z0 = y0 XOR rotl (z3 + z2) 18
     in (z0, z1, z2, z3))"

definition rowround_ref :: "u32 list \<Rightarrow> u32 list" where
  "rowround_ref y =
     (let (z0, z1, z2, z3) = quarterround (y ! 0, y ! 1, y ! 2, y ! 3);
          (z5, z6, z7, z4) = quarterround (y ! 5, y ! 6, y ! 7, y ! 4);
          (z10, z11, z8, z9) = quarterround (y ! 10, y ! 11, y ! 8, y ! 9);
          (z15, z12, z13, z14) = quarterround (y ! 15, y ! 12, y ! 13, y ! 14)
      in [z0, z1, z2, z3, z4, z5, z6, z7, z8, z9, z10, z11, z12, z13, z14, z15])"

definition transpose4 :: "u32 list \<Rightarrow> u32 list" where
  "transpose4 x = map (\<lambda>i. x ! (4 * (i mod 4) + i div 4)) [0..<16]"

definition columnround_ref :: "u32 list \<Rightarrow> u32 list" where
  "columnround_ref x = transpose4 (rowround_ref (transpose4 x))"

definition doubleround_ref :: "u32 list \<Rightarrow> u32 list" where
  "doubleround_ref x = rowround_ref (columnround_ref x)"

definition salsa20_8_ref :: "u32 list \<Rightarrow> u32 list" where
  "salsa20_8_ref x = map2 (+) ((doubleround_ref ^^ 4) x) x"

text \<open>BlockMix on a list of \<open>2 r\<close> blocks: the chain of the mixes, even ones first.\<close>

fun mixed :: "u32 list list \<Rightarrow> nat \<Rightarrow> u32 list" where
  "mixed B 0 = last B"
| "mixed B (Suc i) = salsa20_8_ref (xor_words (mixed B i) (B ! i))"

definition blockMix_ref :: "nat \<Rightarrow> u32 list list \<Rightarrow> u32 list list" where
  "blockMix_ref r B = map (\<lambda>k. mixed B (Suc (2 * k))) [0..<r] @ map (\<lambda>k. mixed B (Suc (2 * k + 1))) [0..<r]"

definition blocks :: "nat \<Rightarrow> nat \<Rightarrow> 'a list \<Rightarrow> 'a list list" where
  "blocks b m xs = map (chunk b xs) [0..<m]"

definition mix_words :: "nat \<Rightarrow> u32 list \<Rightarrow> u32 list" where
  "mix_words r x = concat (blockMix_ref r (blocks 16 (2 * r) x))"

text \<open>Integerify: the last block as a little-endian number.\<close>

fun le_words :: "u32 list \<Rightarrow> nat" where
  "le_words [] = 0"
| "le_words (w # ws) = unat w + 2 ^ 32 * le_words ws"

definition integerify :: "nat \<Rightarrow> u32 list \<Rightarrow> nat" where
  "integerify r x = le_words (chunk 16 x (2 * r - 1))"

definition romix_ref :: "nat \<Rightarrow> nat \<Rightarrow> u32 list \<Rightarrow> u32 list" where
  "romix_ref N r x =
     ((\<lambda>y. mix_words r (xor_words y ((mix_words r ^^ (integerify r y mod N)) x))) ^^ N) ((mix_words r ^^ N) x)"

text \<open>PBKDF2 with one iteration, and scrypt.\<close>

definition pbkdf2_ref :: "hmac_fun \<Rightarrow> u8 list \<Rightarrow> u8 list \<Rightarrow> nat \<Rightarrow> u8 list" where
  "pbkdf2_ref hmac P S len =
     take len (concat (map (\<lambda>i. hmac P (S @ put_be32 (word_of_nat (Suc i)))) [0..<(len + 31) div 32]))"

definition scrypt_ref :: "hmac_fun \<Rightarrow> u8 list \<Rightarrow> u8 list \<Rightarrow> nat \<Rightarrow> nat \<Rightarrow> nat \<Rightarrow> nat \<Rightarrow> u8 list" where
  "scrypt_ref hmac P S N r p len =
     (let B = blocks (128 * r) p (pbkdf2_ref hmac P S (p * 128 * r));
          mix = (\<lambda>b. uint32ToBytesLE (romix_ref N r (bytesToUint32LE b)))
      in pbkdf2_ref hmac P (concat (map mix B)) len)"

section \<open>The rounds are those of Salsa20\<close>

lemma length_qstep [simp]: "length (qstep k a b n x) = length x"
  by (simp add: qstep_def)

lemma length16E:
  assumes "length x = 16"
  obtains a b c d e f g h i j k l m n p q where "x = [a, b, c, d, e, f, g, h, i, j, k, l, m, n, p, q]"
  using assms by (auto simp: numeral_eq_Suc length_Suc_conv)

lemma rowRound_ref: "length x = 16 \<Longrightarrow> rowRound x = rowround_ref x"
  by (erule length16E) (simp add: rowRound_def rowround_ref_def quarterround_def qstep_def Let_def)

lemma transpose4_list:
  "transpose4 [a, b, c, d, e, f, g, h, i, j, k, l, m, n, p, q] = [a, e, i, m, b, f, j, n, c, g, k, p, d, h, l, q]"
  by (simp add: transpose4_def upt_rec)

lemma columnRound_ref: "length x = 16 \<Longrightarrow> columnRound x = columnround_ref x"
  by (erule length16E)
    (simp add: columnRound_def columnround_ref_def transpose4_list rowround_ref_def quarterround_def qstep_def Let_def
      add.commute)

lemma length_rounds [simp]: "length (columnRound x) = length x" "length (rowRound x) = length x"
  by (simp_all add: columnRound_def rowRound_def)

lemma rounds_ref:
  assumes "length x = 16"
  shows "((rowRound \<circ> columnRound) ^^ k) x = (doubleround_ref ^^ k) x \<and> length (((rowRound \<circ> columnRound) ^^ k) x) = 16"
proof (induction k)
  case (Suc k)
  then show ?case
    by (simp add: doubleround_ref_def) (metis Suc columnRound_ref length_rounds(1) rowRound_ref)
qed (simp add: assms)

text \<open>
  C32: On every 16-word block the unrolled rounds of \<^verbatim>\<open>salsa20Core8\<close> compute the Salsa20/8 core
  of its specification: four double rounds of quarter-rounds over the columns and then the rows of
  the matrix, added to the input.
\<close>

theorem salsa20Core8_is_salsa20_8:
  assumes "length x = 16"
  shows "salsa20Core8 x = salsa20_8_ref x"
proof -
  let ?y = "((rowRound \<circ> columnRound) ^^ 4) x"
  have "length ?y = 16" and "?y = (doubleround_ref ^^ 4) x"
    using rounds_ref [OF assms, of 4] by blast+
  then show ?thesis
    using assms by (intro nth_equalityI) (simp_all add: salsa20Core8_def salsa20_8_ref_def Let_def)
qed

text \<open>The test vector of RFC 7914, section 8.\<close>

definition rfc_input :: "u32 list" where
  "rfc_input =
     [0x219a877e, 0x86c93e4f, 0xe640a97c, 0x268f7141, 0x5b55eeba, 0xb5c1618c, 0x1146f80d, 0x1d3bcd6d,
      0x19f324ee, 0x853d9bdf, 0x4b1e1214, 0x32aac55a, 0x291d0276, 0x2948c709, 0x8dc6ebed, 0x5ec2b8b8]"

definition rfc_output :: "u32 list" where
  "rfc_output =
     [0x9c851fa4, 0x99cc0866, 0xcbca813b, 0x05ef0c02, 0x81214b04, 0x7d33fda2, 0x631c7bfd, 0x292f6896,
      0x683139b4, 0xbce6c9e3, 0xb7c56bfe, 0xba966da0, 0x10cc24e4, 0x5c74912c, 0x3d67ad24, 0x818f61c7]"

lemmas round_evals = columnRound_def rowRound_def qstep_def rotl_def

definition rfc_round1 :: "u32 list" where
  "rfc_round1 =
     [0x482665b1, 0xe6b639e8, 0x5528d0b6, 0x7163bf72, 0x93580e01, 0x0c50b5fd, 0xea23785c, 0xead125ec,
      0xf701a95d, 0xd590a7ea, 0x209aedeb, 0x965705b9, 0xd6e1a597, 0x6f4dbdbc, 0x53299386, 0x10a42604]"

definition rfc_round2 :: "u32 list" where
  "rfc_round2 =
     [0xe9e67835, 0x5a0e63c0, 0x85bf1cf2, 0xbce03a58, 0x95e02c9d, 0x10a33116, 0x91024ee3, 0xa399c709,
      0x678d68da, 0x70e69077, 0x3dffe364, 0xc393c734, 0xf3fc17d5, 0x8805fb7c, 0x4e709f83, 0x64b0ce84]"

definition rfc_round3 :: "u32 list" where
  "rfc_round3 =
     [0x28f2a180, 0x5e3bb01c, 0x03040a5c, 0x69e5ea6b, 0x997f9f3c, 0x1c650ad9, 0x9a28760a, 0x1c5778b3,
      0x89e18946, 0x5055ce7c, 0x3fec3108, 0x20123a83, 0x764c0e51, 0x44dda9f5, 0xf8616b01, 0x5632c6dc]"

definition rfc_round4 :: "u32 list" where
  "rfc_round4 =
     [0x7aea9826, 0x1302ca17, 0xe589d7bf, 0xdf5f9ac1, 0x25cb5c4a, 0xc7729c16, 0x51d583f0, 0x0bf39b29,
      0x4e3e14c6, 0x37a92e04, 0x6ca759ea, 0x87eba846, 0xe7af226e, 0x332bca23, 0xafa0c137, 0x22cca90f]"

lemma rfc_round1: "rowRound (columnRound rfc_input) = rfc_round1"
  by (simp add: rfc_input_def rfc_round1_def round_evals)

lemma rfc_round2: "rowRound (columnRound rfc_round1) = rfc_round2"
  by (simp add: rfc_round1_def rfc_round2_def round_evals)

lemma rfc_round3: "rowRound (columnRound rfc_round2) = rfc_round3"
  by (simp add: rfc_round2_def rfc_round3_def round_evals)

lemma rfc_round4: "rowRound (columnRound rfc_round3) = rfc_round4"
  by (simp add: rfc_round3_def rfc_round4_def round_evals)

lemma salsa20Core8_is_salsa20_8_witness: "salsa20_8_ref rfc_input = rfc_output"
proof -
  have "(f ^^ 4) x = f (f (f (f x)))" for f :: "u32 list \<Rightarrow> u32 list" and x
    by (simp add: eval_nat_numeral)
  then have "((rowRound \<circ> columnRound) ^^ 4) rfc_input = rfc_round4"
    by (simp add: rfc_round1 rfc_round2 rfc_round3 rfc_round4)
  then have "salsa20Core8 rfc_input = rfc_output"
    by (simp add: salsa20Core8_def rfc_round4_def rfc_input_def rfc_output_def upt_rec)
  then show ?thesis using salsa20Core8_is_salsa20_8 [of rfc_input] by (simp add: rfc_input_def)
qed

lemma salsa_core: "length x = 16 \<Longrightarrow> salsa20Core8 x = salsa20_8_ref x \<and> length (salsa20_8_ref x) = 16"
  using rounds_ref [of x 4] by (auto simp: salsa20_8_ref_def salsa20Core8_def Let_def intro!: nth_equalityI)

section \<open>Chunks of an array\<close>

lemma length_chunk [simp]: "(j + 1) * b \<le> length xs \<Longrightarrow> length (chunk b xs j) = b"
  by (simp add: chunk_def algebra_simps)

lemma chunk_slice: "(j + 1) * b \<le> length xs \<Longrightarrow> slice xs (j * b) (j * b + b) = Some (chunk b xs j)"
  by (simp add: slice_def chunk_def algebra_simps)

lemma concat_chunks: "length xs = b * m \<Longrightarrow> concat (blocks b m xs) = xs"
proof (induction m arbitrary: xs)
  case (Suc m)
  have e: "map (chunk b xs) [0..<m] = blocks b m (take (b * m) xs)"
    unfolding blocks_def
  proof (intro map_cong refl)
    fix j
    assume "j \<in> set [0..<m]"
    then have "b * j + b \<le> b * m" by (metis Suc_leI add.commute atLeastLessThan_iff mult_Suc_right mult_le_mono2 set_upt)
    then show "chunk b xs j = chunk b (take (b * m) xs) j"
      by (simp add: chunk_def drop_take min_def)
  qed
  have "concat (blocks b (Suc m) xs) = concat (map (chunk b xs) [0..<m]) @ chunk b xs m"
    by (simp add: blocks_def)
  also have "concat (map (chunk b xs) [0..<m]) = take (b * m) xs"
    unfolding e using Suc.IH [of "take (b * m) xs"] Suc.prems by simp
  also have "take (b * m) xs @ chunk b xs m = xs" using Suc.prems by (simp add: chunk_def)
  finally show ?case .
qed (simp add: blocks_def)

lemma chunk_end: "j < m \<Longrightarrow> b * j + b \<le> b * (m :: nat)"
  by (metis Suc_leI add.commute mult_Suc_right mult_le_mono2)

lemma chunks_eqI:
  assumes "length xs = b * m" and "length ys = b * m" and "\<And>j. j < m \<Longrightarrow> chunk b xs j = chunk b ys j"
  shows "xs = ys"
proof -
  have "blocks b m xs = blocks b m ys" using assms(3) by (simp add: blocks_def)
  then show ?thesis using concat_chunks assms(1,2) by metis
qed

lemma copy_to_chunk:
  assumes "length out = b * m" and "p < m" and "length x = b"
  obtains out' where "copy_to out (p * b) x = Some out'" and "length out' = b * m"
    and "\<And>j. j < m \<Longrightarrow> chunk b out' j = (if j = p then x else chunk b out j)"
proof
  note le = chunk_end [OF assms(2), of b]
  let ?o = "take (p * b) out @ x @ drop (p * b + b) out"
  show "copy_to out (p * b) x = Some ?o"
    using le assms by (simp add: copy_to_def algebra_simps)
  show "length ?o = b * m" using le assms by (simp add: algebra_simps)
  show "chunk b ?o j = (if j = p then x else chunk b out j)" if "j < m" for j
  proof (cases "j < p")
    case True
    with chunk_end [OF True, of b] le assms show ?thesis
      by (simp add: chunk_def algebra_simps drop_take min_def)
  next
    case False
    show ?thesis
    proof (cases "j = p")
      case True
      then show ?thesis using le assms by (simp add: chunk_def algebra_simps)
    next
      case False
      with \<open>\<not> j < p\<close> have "p < j" by simp
      from chunk_end [OF this, of b] obtain c where "b * j = b * p + b + c" by (metis le_iff_add)
      with le assms False show ?thesis by (simp add: chunk_def algebra_simps)
    qed
  qed
qed

lemma ofold_upt:
  assumes "P 0 s" and "\<And>i s. i < n \<Longrightarrow> P i s \<Longrightarrow> \<exists>t. f i s = Some t \<and> P (Suc i) t"
  shows "\<exists>t. ofold f [0..<n] s = Some t \<and> P n t"
proof -
  have app: "ofold f (xs @ ys) s = (case ofold f xs s of None \<Rightarrow> None | Some t \<Rightarrow> ofold f ys t)" for xs ys s
    by (induction xs arbitrary: s) (auto split: option.splits)
  have "k \<le> n \<Longrightarrow> \<exists>t. ofold f [0..<k] s = Some t \<and> P k t" for k
  proof (induction k)
    case (Suc k)
    then obtain t where "ofold f [0..<k] s = Some t" "P k t" by auto
    moreover have "k < n" using Suc.prems by simp
    ultimately obtain u where "f k t = Some u" "P (Suc k) u" using assms(2) by blast
    with \<open>ofold f [0..<k] s = Some t\<close> show ?case by (simp add: app)
  qed (simp add: assms(1))
  then show ?thesis by blast
qed

section \<open>BlockMix\<close>

lemma length_xor_words [simp]: "length (xor_words xs ys) = min (length xs) (length ys)"
  by (simp add: xor_words_def)

lemma length_mixed:
  assumes "length B = 2 * r" and "0 < r" and "\<forall>b \<in> set B. length b = 16"
  shows "i \<le> 2 * r \<Longrightarrow> length (mixed B i) = 16"
proof (induction i)
  case 0
  then show ?case using assms by (metis last_in_set length_0_conv mixed.simps(1) mult_is_0 neq0_conv zero_neq_numeral)
next
  case (Suc i)
  then have "length (B ! i) = 16" using assms by simp
  with Suc show ?case using salsa_core [of "xor_words (mixed B i) (B ! i)"] by simp
qed

definition out_pos :: "nat \<Rightarrow> nat \<Rightarrow> nat" where
  "out_pos r i = (if i mod 2 = 0 then i div 2 else i div 2 + r)"

lemma out_pos_less: "i < 2 * r \<Longrightarrow> out_pos r i < 2 * r"
  by (auto simp: out_pos_def)

lemma out_pos_inj: "i < 2 * r \<Longrightarrow> j < 2 * r \<Longrightarrow> out_pos r i = out_pos r j \<longleftrightarrow> i = j"
  unfolding out_pos_def by (auto; presburger)

lemma scryptBlockMix_ref:
  assumes x: "length x = 32 * r" and "length out = 32 * r" and "0 < r"
  shows "scryptBlockMix x out r = Some (mix_words r x)" and "length (mix_words r x) = 32 * r"
proof -
  let ?B = "blocks 16 (2 * r) x"
  have B: "length ?B = 2 * r" "\<forall>b \<in> set ?B. length b = 16"
    using x by (auto simp: blocks_def intro!: length_chunk)
  note mixed = length_mixed [OF B(1) assms(3) B(2)]
  have nthB: "?B ! i = chunk 16 x i" if "i < 2 * r" for i
    using that by (simp add: blocks_def)
  have last: "last ?B = chunk 16 x (2 * r - 1)"
    using assms(3) by (cases r) (simp_all add: blocks_def last_map)
  let ?P = "\<lambda>i s. fst s = mixed ?B i \<and> length (snd s) = 16 * (2 * r)
    \<and> (\<forall>k<i. chunk 16 (snd s) (out_pos r k) = mixed ?B (Suc k))"
  have "\<exists>t. ofold (block_pass x r) [0..<2 * r] (mixed ?B 0, out) = Some t \<and> ?P (2 * r) t"
  proof (rule ofold_upt [where P = ?P])
    fix i s
    assume i: "i < 2 * r" and P: "?P i s"
    obtain o' where s: "s = (mixed ?B i, o')" using P by (cases s) auto
    have "slice x (i * 16) (i * 16 + 16) = Some (?B ! i)"
      using chunk_slice [of i 16 x] i x nthB by simp
    moreover have "salsa20Core8 (xor_words (mixed ?B i) (?B ! i)) = mixed ?B (Suc i)"
      using salsa_core [of "xor_words (mixed ?B i) (?B ! i)"] mixed [of i] B i by simp
    moreover obtain o'' where "copy_to o' (out_pos r i * 16) (mixed ?B (Suc i)) = Some o''" "length o'' = 16 * (2 * r)"
      "\<And>j. j < 2 * r \<Longrightarrow> chunk 16 o'' j = (if j = out_pos r i then mixed ?B (Suc i) else chunk 16 o' j)"
      using copy_to_chunk [of o' 16 "2 * r" "out_pos r i" "mixed ?B (Suc i)"] P s mixed [of "Suc i"] out_pos_less [OF i] i
      by auto
    moreover have "(if i mod 2 = 0 then i div 2 * 16 else (i div 2 + r) * 16) = out_pos r i * 16"
      by (simp add: out_pos_def)
    moreover have "out_pos r k \<noteq> out_pos r i" if "k < i" for k
      using that i out_pos_inj [of k r i] by simp
    ultimately show "\<exists>t. block_pass x r i s = Some t \<and> ?P (Suc i) t"
      using P s i out_pos_less by (auto simp: block_pass_def Let_def less_Suc_eq)
  qed (use assms in simp)
  then obtain y o' where run: "ofold (block_pass x r) [0..<2 * r] (mixed ?B 0, out) = Some (y, o')"
    and o': "length o' = 16 * (2 * r)" "\<And>k. k < 2 * r \<Longrightarrow> chunk 16 o' (out_pos r k) = mixed ?B (Suc k)"
    by auto
  have "blocks 16 (2 * r) o' = blockMix_ref r ?B"
  proof (rule nth_equalityI)
    fix j
    assume "j < length (blocks 16 (2 * r) o')"
    then have j: "j < 2 * r" by (simp add: blocks_def)
    have "chunk 16 o' j = blockMix_ref r ?B ! j"
    proof (cases "j < r")
      case True
      then show ?thesis using o'(2) [of "2 * j"] by (simp add: blockMix_ref_def nth_append out_pos_def)
    next
      case False
      then have "j - r < r" "Suc (2 * (j - r)) < 2 * r" using j by simp_all
      then show ?thesis
        using o'(2) [of "2 * (j - r) + 1"] False by (simp add: blockMix_ref_def nth_append out_pos_def)
    qed
    with j show "blocks 16 (2 * r) o' ! j = blockMix_ref r ?B ! j" by (simp add: blocks_def)
  qed (simp add: blocks_def blockMix_ref_def)
  with concat_chunks [OF o'(1)] have "mix_words r x = o'" by (simp add: mix_words_def)
  moreover have "slice x ((2 * r - 1) * 16) ((2 * r - 1) * 16 + 16) = Some (last ?B)"
    using chunk_slice [of "2 * r - 1" 16 x] x last assms(3) by (simp add: algebra_simps)
  ultimately show "scryptBlockMix x out r = Some (mix_words r x)" "length (mix_words r x) = 32 * r"
    using run o'(1) by (simp_all add: scryptBlockMix_def)
qed

section \<open>ROMix\<close>

lemma length_mix_words: "0 < r \<Longrightarrow> length x = 32 * r \<Longrightarrow> length (mix_words r x) = 32 * r"
  using scryptBlockMix_ref(2) [of x r x] by simp

lemma length_mix_pow: "0 < r \<Longrightarrow> length x = 32 * r \<Longrightarrow> length ((mix_words r ^^ k) x) = 32 * r"
  by (induction k) (simp_all add: length_mix_words)

lemma copy_to_all: "length src = length dst \<Longrightarrow> copy_to dst 0 src = Some src"
  by (simp add: copy_to_def)

lemma slice_all: "length xs = n \<Longrightarrow> slice xs 0 n = Some xs"
  by (simp add: slice_def)

text \<open>The mask of the code is the remainder of Integerify when the cost is a power of two.\<close>

lemma le_words_mod: "le_words (w # ws) mod 2 ^ 32 = unat w"
  using unsigned_less [of w, where ?'a = nat] by simp

lemma integerify_mod:
  assumes "length x = 32 * r" and "0 < r" and "k \<le> 32"
  shows "unat (x ! ((2 * r - 1) * 16) AND word_of_nat (2 ^ k - 1)) = integerify r x mod 2 ^ k"
proof -
  let ?w = "x ! ((2 * r - 1) * 16)"
  have lt: "(2 * r - 1) * 16 < length x" using assms(1,2) by (cases r) simp_all
  then have "chunk 16 x (2 * r - 1) = ?w # take 15 (drop (Suc ((2 * r - 1) * 16)) x)"
    by (simp add: chunk_def Cons_nth_drop_Suc [symmetric] mult.commute)
  then have "integerify r x mod 2 ^ 32 = unat ?w"
    using le_words_mod [of ?w] by (simp add: integerify_def)
  moreover have "integerify r x mod 2 ^ 32 mod 2 ^ k = integerify r x mod 2 ^ k"
    using le_imp_power_dvd [OF assms(3), of "2 :: nat"] by (rule mod_mod_cancel)
  ultimately have "integerify r x mod 2 ^ k = unat ?w mod 2 ^ k" by simp
  moreover have "(word_of_nat (2 ^ k - 1) :: u32) = mask k"
    by (simp add: mask_eq_exp_minus_1 of_nat_diff)
  moreover have "unat (?w AND mask k) = take_bit k (unat ?w)"
    by (simp add: take_bit_eq_mask [symmetric] unsigned_take_bit_eq)
  ultimately show ?thesis by (simp only: take_bit_eq_mod)
qed

lemma fill_pass_ref:
  assumes "0 < r" and "length x = 32 * r" and "length y = 32 * r" and "length v = 32 * r * n" and "i < n"
  shows "\<exists>v'. fill_pass r i (x, y, v) = Some (mix_words r x, mix_words r x, v') \<and> length v' = 32 * r * n
    \<and> (\<forall>j<n. chunk (32 * r) v' j = (if j = i then x else chunk (32 * r) v j))"
proof -
  obtain v' where "copy_to v (i * (32 * r)) x = Some v'" "length v' = 32 * r * n"
    "\<And>j. j < n \<Longrightarrow> chunk (32 * r) v' j = (if j = i then x else chunk (32 * r) v j)"
    using copy_to_chunk [OF assms(4,5,2)] by blast
  moreover have "\<exists>s. slice v (i * (32 * r)) ((i + 1) * (32 * r)) = Some s"
    using chunk_end [OF assms(5), of "32 * r"] assms(4) by (simp add: slice_def algebra_simps)
  ultimately show ?thesis
    using scryptBlockMix_ref [OF assms(2,3,1)] assms(2)
    by (auto simp: fill_pass_def Let_def slice_all copy_to_all)
qed

lemma mix_pass_ref:
  assumes "0 < r" and "length x = 32 * r" and "length y = 32 * r" and "length v = 32 * r * n" and "n = 2 ^ k" and "k \<le> 32"
  shows "mix_pass n r i (x, y, v) =
    (let x' = mix_words r (xor_words x (chunk (32 * r) v (integerify r x mod n))) in Some (x', x', v))"
proof -
  let ?j = "integerify r x mod n"
  have j: "?j < n" using assms(5) by simp
  have lt: "(2 * r - 1) * 16 < length x" using assms(1,2) by (cases r) simp_all
  have "unat (x ! ((2 * r - 1) * 16) AND word_of_nat (n - 1)) = ?j"
    using integerify_mod [OF assms(2,1,6)] assms(5) by simp
  moreover have "?j * (32 * r) \<le> length v"
    using j assms(4) by simp
  then have "slice v (?j * (32 * r)) (length v) = Some (drop (?j * (32 * r)) v)"
    by (simp add: slice_to_end)
  moreover have "blockXor x (drop (?j * (32 * r)) v) (32 * r) = Some (xor_words x (chunk (32 * r) v ?j))"
    using chunk_end [OF j, of "32 * r"] assms(2,4) by (simp add: blockXor_def chunk_def algebra_simps)
  moreover have len: "length (xor_words x (chunk (32 * r) v ?j)) = 32 * r"
    using chunk_end [OF j, of "32 * r"] assms(2,4) by (simp add: chunk_def algebra_simps)
  ultimately show ?thesis
    using scryptBlockMix_ref [OF len assms(3,1)] lt len
    by (simp add: mix_pass_def Let_def slice_all copy_to_all index_Some)
qed

text \<open>The two loops of ROMix.\<close>

lemma fill_loop:
  assumes "0 < r" and "length x = 32 * r" and "length y = 32 * r" and "length v = 32 * r * n"
  shows "\<exists>y' v'. ofold (fill_pass r) [0..<n] (x, y, v) = Some ((mix_words r ^^ n) x, y', v') \<and> length y' = 32 * r
    \<and> length v' = 32 * r * n \<and> (\<forall>j<n. chunk (32 * r) v' j = (mix_words r ^^ j) x)"
proof -
  let ?P = "\<lambda>i (s :: romix). fst s = (mix_words r ^^ i) x \<and> length (fst (snd s)) = 32 * r \<and> length (snd (snd s)) = 32 * r * n
    \<and> (\<forall>j<i. chunk (32 * r) (snd (snd s)) j = (mix_words r ^^ j) x)"
  have "\<exists>t. ofold (fill_pass r) [0..<n] (x, y, v) = Some t \<and> ?P n t"
  proof (rule ofold_upt [where P = ?P])
    fix i s
    assume i: "i < n" and P: "?P i s"
    obtain y' v' where s: "s = ((mix_words r ^^ i) x, y', v')" using P by (cases s) auto
    obtain v'' where "fill_pass r i s = Some ((mix_words r ^^ Suc i) x, (mix_words r ^^ Suc i) x, v'')"
      "length v'' = 32 * r * n" "\<forall>j<n. chunk (32 * r) v'' j = (if j = i then (mix_words r ^^ i) x else chunk (32 * r) v' j)"
      using fill_pass_ref [OF assms(1) length_mix_pow [OF assms(1,2), of i], of y' v' n i] P s i by auto
    then show "\<exists>t. fill_pass r i s = Some t \<and> ?P (Suc i) t"
      using P s i length_mix_pow [OF assms(1,2), of "Suc i"] by (auto simp: less_Suc_eq)
  qed (use assms in simp)
  then show ?thesis by auto
qed

lemma mix_loop:
  assumes "0 < r" and "length z = 32 * r" and "length y = 32 * r" and "length v = 32 * r * n" and "n = 2 ^ k" and "k \<le> 32"
    and "\<forall>j<n. chunk (32 * r) v j = (mix_words r ^^ j) x" and "length x = 32 * r"
  defines "f \<equiv> \<lambda>y. mix_words r (xor_words y ((mix_words r ^^ (integerify r y mod n)) x))"
  shows "\<exists>y'. ofold (mix_pass n r) [0..<n] (z, y, v) = Some ((f ^^ n) z, y', v) \<and> length y' = 32 * r
    \<and> length ((f ^^ n) z) = 32 * r"
proof -
  let ?P = "\<lambda>i (s :: romix). fst s = (f ^^ i) z \<and> length (fst s) = 32 * r \<and> length (fst (snd s)) = 32 * r \<and> snd (snd s) = v"
  have "\<exists>t. ofold (mix_pass n r) [0..<n] (z, y, v) = Some t \<and> ?P n t"
  proof (rule ofold_upt [where P = ?P])
    fix i s
    assume P: "?P i s"
    obtain z' y' where s: "s = (z', y', v)" using P by (cases s) auto
    have z': "z' = (f ^^ i) z" "length z' = 32 * r" "length y' = 32 * r" using P unfolding s by auto
    have j: "integerify r z' mod n < n" using assms(5) by simp
    have "length (f z') = 32 * r"
      unfolding f_def using z'(2) by (intro length_mix_words assms(1)) (simp add: length_mix_pow assms(1,8))
    moreover have "mix_pass n r i s = Some (f z', f z', v)"
      using mix_pass_ref [OF assms(1) z'(2,3) assms(4-6), of i] j assms(7) s by (simp add: f_def Let_def)
    ultimately show "\<exists>t. mix_pass n r i s = Some t \<and> ?P (Suc i) t"
      using z'(1) by simp
  qed (use assms in simp)
  then show ?thesis by auto
qed

lemma scryptROMix_ref:
  assumes "0 < r" and "length xy = 64 * r" and "length v = 32 * r * n" and "n = 2 ^ k" and "k \<le> 32"
  shows "\<exists>y v'. scryptROMix xy v n r = Some (romix_ref n r (take (32 * r) xy) @ y, v') \<and> length y = 32 * r
    \<and> length v' = 32 * r * n \<and> length (romix_ref n r (take (32 * r) xy)) = 32 * r"
proof -
  let ?x = "take (32 * r) xy"
  have x: "length ?x = 32 * r" "length (drop (32 * r) xy) = 32 * r" using assms(2) by simp_all
  obtain y v' where fill: "ofold (fill_pass r) [0..<n] (?x, drop (32 * r) xy, v) = Some ((mix_words r ^^ n) ?x, y, v')"
    "length y = 32 * r" "length v' = 32 * r * n" "\<forall>j<n. chunk (32 * r) v' j = (mix_words r ^^ j) ?x"
    using fill_loop [OF assms(1) x assms(3)] by blast
  obtain y' where "ofold (mix_pass n r) [0..<n] ((mix_words r ^^ n) ?x, y, v') = Some (romix_ref n r ?x, y', v')"
    "length y' = 32 * r" "length (romix_ref n r ?x) = 32 * r"
    using mix_loop [OF assms(1) length_mix_pow [OF assms(1) x(1), of n] fill(2,3) assms(4,5) fill(4) x(1)]
    unfolding romix_ref_def by blast
  then show ?thesis
    using fill assms(2) by (simp add: scryptROMix_def Let_def slice_front slice_def)
qed

section \<open>The key\<close>

lemma length_bytesToUint32LE: "length bs = 4 * k \<Longrightarrow> length (bytesToUint32LE bs) = k"
proof (induction bs arbitrary: k rule: bytesToUint32LE.induct)
  case (1 a b c d bs)
  then show ?case by (cases k) auto
qed auto

lemma length_uint32ToBytesLE [simp]: "length (uint32ToBytesLE ws) = 4 * length ws"
  by (induction ws) (simp_all add: uint32ToBytesLE_def)

lemma pbkdf2_one: "pbkdf2SHA256 hmac password salt 1 len = pbkdf2_ref hmac password salt len"
proof -
  have "[1..<n + 1] = map Suc [0..<n]" for n
    by (simp add: map_Suc_upt)
  then show ?thesis by (simp add: pbkdf2SHA256_def pbkdf2_ref_def hLen_def Let_def comp_def add.commute)
qed

lemma length_pbkdf2_ref:
  assumes "\<And>k m. length (hmac k m) = 32"
  shows "length (pbkdf2_ref hmac P S len) = len"
proof -
  have "length (concat (map (\<lambda>i. hmac P (S @ put_be32 (word_of_nat (Suc i)))) [0..<n])) = 32 * n" for n
    by (induction n) (simp_all add: assms)
  moreover have "len \<le> 32 * ((len + 31) div 32)" by presburger
  ultimately show ?thesis by (simp add: pbkdf2_ref_def)
qed

lemma and_pred_power:
  fixes n :: int
  shows "0 < n \<Longrightarrow> n AND (n - 1) = 0 \<Longrightarrow> \<exists>k. n = 2 ^ k"
proof (induction "nat n" arbitrary: n rule: less_induct)
  case less
  have rec: "n AND (n - 1) = of_bool (odd n \<and> odd (n - 1)) + 2 * ((n div 2) AND ((n - 1) div 2))"
    by (rule and_rec)
  show ?case
  proof (cases "even n")
    case True
    then obtain m where m: "n = 2 * m" by blast
    then have "(n - 1) div 2 = m - 1" by presburger
    with rec m less(3) have "m AND (m - 1) = 0" by simp
    moreover have "0 < m" "nat m < nat n" using m less(2) by simp_all
    ultimately obtain k where "m = 2 ^ k" using less(1) by blast
    with m show ?thesis by (metis power_Suc)
  next
    case False
    then obtain m where m: "n = 2 * m + 1" by (metis oddE)
    then have "(n - 1) div 2 = m" "n div 2 = m" by presburger+
    with rec m less(3) have "m = 0" by simp
    with m show ?thesis by (metis power_0 mult_zero_right add_0)
  qed
qed

lemma power_and_pred:
  shows "(2 :: int) ^ k AND (2 ^ k - 1) = 0"
proof -
  have "(2 :: int) ^ k AND mask k = take_bit k (2 ^ k)" by (simp add: take_bit_eq_mask)
  then show ?thesis by (simp add: mask_eq_exp_minus_1)
qed

lemma power_of_two_iff: "1 < n \<Longrightarrow> power_of_two n \<longleftrightarrow> (\<exists>k. n = 2 ^ k)"
  using and_pred_power [of n] power_and_pred by (auto simp: power_of_two_def)

lemma key_loop:
  assumes "0 < r" and "length B = 128 * r * p" and "length xy = 64 * r" and "length v = 32 * r * n" and "n = 2 ^ k"
    and "k \<le> 32"
  shows "\<exists>xy' v'. ofold (key_pass n r) [0..<p] (B, xy, v) =
    Some (concat (map (\<lambda>b. uint32ToBytesLE (romix_ref n r (bytesToUint32LE b))) (blocks (128 * r) p B)), xy', v')"
proof -
  let ?mix = "\<lambda>b. uint32ToBytesLE (romix_ref n r (bytesToUint32LE b))"
  let ?P = "\<lambda>i (s :: u8 list \<times> u32 list \<times> u32 list). length (fst s) = 128 * r * p \<and> length (fst (snd s)) = 64 * r
    \<and> length (snd (snd s)) = 32 * r * n
    \<and> (\<forall>j<p. chunk (128 * r) (fst s) j = (if j < i then ?mix (chunk (128 * r) B j) else chunk (128 * r) B j))"
  have "\<exists>t. ofold (key_pass n r) [0..<p] (B, xy, v) = Some t \<and> ?P p t"
  proof (rule ofold_upt [where P = ?P])
    fix i s
    assume i: "i < p" and P: "?P i s"
    obtain b xy' v' where s: "s = (b, xy', v')" by (cases s) auto
    let ?c = "chunk (128 * r) B i" and ?w = "bytesToUint32LE (chunk (128 * r) B i)"
    have b: "length b = 128 * r * p" "length xy' = 64 * r" "length v' = 32 * r * n" "chunk (128 * r) b i = ?c"
      using P i unfolding s by auto
    have le: "(i + 1) * (128 * r) \<le> 128 * r * p" using chunk_end [OF i, of "128 * r"] by (simp add: algebra_simps)
    have slice: "slice b (i * (32 * r) * 4) ((i + 1) * (32 * r) * 4) = Some ?c"
      using chunk_slice [of i "128 * r" b] le b(1,4) by (simp add: algebra_simps)
    have "length ?c = 4 * (32 * r)" using le assms(2) by (simp add: length_chunk)
    then have w: "length ?w = 32 * r" by (rule length_bytesToUint32LE)
    let ?xy = "?w @ drop (32 * r) xy'"
    have copy: "copy_to xy' 0 ?w = Some ?xy" using w b(2) by (simp add: copy_to_def)
    obtain y v'' where mix: "scryptROMix ?xy v' n r = Some (romix_ref n r ?w @ y, v'')" "length y = 32 * r"
      "length v'' = 32 * r * n" "length (romix_ref n r ?w) = 32 * r"
      using scryptROMix_ref [OF assms(1) _ b(3) assms(5,6), of ?xy] w b(2) by auto
    have "length (?mix ?c) = 128 * r" using mix(4) by simp
    then obtain b' where "copy_to b (i * (128 * r)) (?mix ?c) = Some b'" "length b' = 128 * r * p"
      "\<And>j. j < p \<Longrightarrow> chunk (128 * r) b' j = (if j = i then ?mix ?c else chunk (128 * r) b j)"
      using copy_to_chunk [OF b(1) i] by blast
    note b' = this
    have e: "i * (32 * r) * 4 = i * (128 * r)" by simp
    have "slice (romix_ref n r ?w @ y) 0 (32 * r) = Some (romix_ref n r ?w)"
      "copy_to b (i * (32 * r) * 4) (?mix ?c) = Some b'"
      unfolding e by (rule slice_front [OF mix(4)], rule b'(1))
    then have "key_pass n r i s = Some (b', romix_ref n r ?w @ y, v'')"
      unfolding key_pass_def s Let_def prod.case slice by (simp add: copy mix(1))
    moreover have "?P (Suc i) (b', romix_ref n r ?w @ y, v'')"
      using b' mix P by (auto simp: s less_Suc_eq)
    ultimately show "\<exists>t. key_pass n r i s = Some t \<and> ?P (Suc i) t" by blast
  qed (use assms in simp)
  then obtain b xy' v' where run: "ofold (key_pass n r) [0..<p] (B, xy, v) = Some (b, xy', v')"
    and b: "length b = 128 * r * p" "\<And>j. j < p \<Longrightarrow> chunk (128 * r) b j = ?mix (chunk (128 * r) B j)"
    by auto
  have "b = concat (blocks (128 * r) p b)" using concat_chunks [OF b(1)] by simp
  also have "blocks (128 * r) p b = map ?mix (blocks (128 * r) p B)" using b(2) by (simp add: blocks_def)
  finally show ?thesis using run by blast
qed

text \<open>The parameters that \<^verbatim>\<open>scryptKey\<close> accepts, and those that fit the address space.\<close>

definition accepts :: "int \<Rightarrow> int \<Rightarrow> int \<Rightarrow> int \<Rightarrow> bool" where
  "accepts n r p dkLen \<longleftrightarrow> 1 < n \<and> power_of_two n \<and> 0 < r \<and> 0 < p \<and> r * p < 2 ^ 30 \<and> 0 < dkLen"

definition fits :: "int \<Rightarrow> int \<Rightarrow> bool" where
  "fits n r \<longleftrightarrow> n \<le> 2 ^ 32 \<and> 32 * n * r < 2 ^ 46"

definition is_hmac :: "hmac_fun \<Rightarrow> bool" where
  "is_hmac hmac \<longleftrightarrow> (\<forall>k m. length (hmac k m) = 32)"

lemma word_product_small:
  assumes "0 < r" and "0 < p" and "r * p < 2 ^ 30"
  shows "\<not> 2 ^ 30 \<le> (word_of_int r * word_of_int p :: u64)"
proof -
  have eq: "word_of_int r * word_of_int p = (word_of_int (r * p) :: u64)" by simp
  have "uint (word_of_int x :: u64) = x" if "0 < x" "x < 2 ^ 30" for x
    using that by (simp add: unsigned_of_int take_bit_int_eq_self)
  from this [of "r * p"] have "uint (word_of_int r * word_of_int p :: u64) = r * p"
    unfolding eq using assms by (simp only: mult_pos_pos)
  then show ?thesis using assms(3) by (simp add: word_le_def)
qed

lemma scryptKey_ref:
  assumes "is_hmac hmac" and "accepts n r p dkLen" and "fits n r"
  shows "scryptKey hmac password salt n r p dkLen
      = Some (Inr (scrypt_ref hmac password salt (nat n) (nat r) (nat p) (nat dkLen)))
    \<and> length (scrypt_ref hmac password salt (nat n) (nat r) (nat p) (nat dkLen)) = nat dkLen"
proof -
  have pos: "1 < n" "0 < r" "0 < p" "r * p < 2 ^ 30" "0 < dkLen" "power_of_two n"
    using assms(2) by (auto simp: accepts_def)
  obtain k where k: "n = 2 ^ k" using power_of_two_iff pos(1,6) by blast
  have "(2 :: int) ^ k \<le> 2 ^ 32" using assms(3) k by (simp add: fits_def)
  then have k32: "k \<le> 32" by (rule power_le_imp_le_exp [rotated]) simp
  have nat_n: "nat n = 2 ^ k" using k by (simp add: nat_power_eq)
  let ?n = "nat n" and ?r = "nat r" and ?p = "nat p"
  have "?r * ?p < 2 ^ 30" using pos by (simp add: nat_mult_distrib [symmetric] nat_less_iff)
  moreover have "?r \<le> ?r * ?p" using pos by simp
  ultimately have rp: "?r * ?p < 2 ^ 30" "?r < 2 ^ 30" by linarith+
  have "int (?n * (32 * ?r)) = 32 * n * r" using pos by simp
  moreover have "32 * n * r < 2 ^ 46" using assms(3) by (simp add: fits_def)
  ultimately have mem: "?n * (32 * ?r) < 2 ^ 46"
    by (metis of_nat_less_iff of_nat_numeral of_nat_power)
  have B: "length (pbkdf2_ref hmac password salt (?p * (32 * ?r) * 4)) = 128 * ?r * ?p"
    using length_pbkdf2_ref [of hmac] assms(1) by (simp add: is_hmac_def)
  have r0: "0 < ?r" using pos by simp
  obtain xy' v' where loop: "ofold (key_pass ?n ?r) [0..<?p]
      (pbkdf2_ref hmac password salt (?p * (32 * ?r) * 4), replicate (2 * (32 * ?r)) 0, replicate (?n * (32 * ?r)) 0)
    = Some (concat (map (\<lambda>b. uint32ToBytesLE (romix_ref ?n ?r (bytesToUint32LE b)))
        (blocks (128 * ?r) ?p (pbkdf2_ref hmac password salt (?p * (32 * ?r) * 4)))), xy', v')"
    using key_loop [OF r0 B, of "replicate (2 * (32 * ?r)) 0" "replicate (?n * (32 * ?r)) 0" ?n k] nat_n k32 by auto
  have size: "?p * (32 * ?r) * 4 = ?p * 128 * ?r" by simp
  have bounds: "?p * (32 * ?r) * 4 < 2 ^ 48" "2 * (32 * ?r) < 2 ^ 46" using rp by (simp_all add: mult.commute)
  have "scryptKey hmac password salt n r p dkLen
      = Some (Inr (scrypt_ref hmac password salt ?n ?r ?p (nat dkLen)))"
    using pos mem bounds loop word_product_small [OF pos(2,3,4)]
    unfolding scryptKey_def make_words_def pbkdf2_one Let_def scrypt_ref_def size
    by (simp add: mult.assoc)
  then show ?thesis using length_pbkdf2_ref [of hmac] assms(1) by (simp add: is_hmac_def scrypt_ref_def Let_def)
qed

text \<open>
  C5: \<^verbatim>\<open>scryptKey\<close>, with its flat arrays, in-place mixing and byte conversions, returns the key of
  the reference scrypt of RFC 7914, of the requested length, for all accepted parameters that fit
  in memory and every HMAC; no slice or index of its loops is out of bounds.
\<close>

theorem scryptKey_is_scrypt:
  assumes "is_hmac hmac" and "accepts n r p dkLen" and "fits n r"
  shows "scryptKey hmac password salt n r p dkLen
      = Some (Inr (scrypt_ref hmac password salt (nat n) (nat r) (nat p) (nat dkLen)))
    \<and> length (scrypt_ref hmac password salt (nat n) (nat r) (nat p) (nat dkLen)) = nat dkLen"
  using assms by (rule scryptKey_ref)

lemma scryptKey_is_scrypt_witness:
  "length (scrypt_ref (\<lambda>k m. replicate 32 7) [1] [2] (2 ^ 15) 8 1 32) = 32"
proof -
  have "power_of_two 32768" by (simp add: power_of_two_def)
  then have "accepts 32768 8 1 32" "fits 32768 8" "is_hmac (\<lambda>k m. replicate 32 7)"
    by (simp_all add: accepts_def fits_def is_hmac_def)
  from scryptKey_is_scrypt [OF this(3,1,2)] show ?thesis by simp
qed

text \<open>
  \<^verbatim>\<open>scryptKey\<close> reports an error exactly for a cost that is not a power of two above one, a
  block size, parallelism or length that is not positive, or a product of the first two of at
  least \<open>2 ^ 30\<close>, computed in 64 bits; it never reports an error after it started to hash.
\<close>

theorem scryptKey_rejects:
  "(\<exists>e. scryptKey hmac password salt n r p dkLen = Some (Inl e)) \<longleftrightarrow>
     (n \<le> 1 \<or> (\<forall>k. n \<noteq> 2 ^ k)) \<or> r \<le> 0 \<or> p \<le> 0 \<or> dkLen \<le> 0 \<or> 2 ^ 30 \<le> (word_of_int r * word_of_int p :: u64)"
proof -
  let ?rest = "\<lambda>b v xy. do {
      (b, xy, v) \<leftarrow> ofold (key_pass (nat n) (nat r)) [0..<nat p] (b, xy, v);
      Some (Inr (pbkdf2SHA256 hmac password b 1 (nat dkLen))) }"
  have "?rest b v xy \<noteq> Some (Inl e)" for b v xy e by (auto split: option.splits Option.bind_splits)
  then show ?thesis
    using power_of_two_iff [of n]
    by (auto simp: scryptKey_def Let_def not_le split: Option.bind_splits if_splits)
qed

end
