(* ===== verification/Auth.thy ===== *)
theory Auth
  imports Scrypt GoStrings
begin

text \<open>
  Model of the rest of \<^verbatim>\<open>web/auth.go\<close>: base64 of \<^verbatim>\<open>encoding/base64\<close>, the password record and
  its verification, and the table of sessions. The JSON package is a pair of functions with the
  round trip it documents, random bytes and the clock are arguments, HMAC is the parameter of the
  scrypt model.
\<close>

section \<open>Base64\<close>

definition b64_std :: string where
  "b64_std = ''ABCDEFGHIJKLMNOPQRSTUVWXYZabcdefghijklmnopqrstuvwxyz0123456789+/''"

definition b64_url :: string where
  "b64_url = ''ABCDEFGHIJKLMNOPQRSTUVWXYZabcdefghijklmnopqrstuvwxyz0123456789-_''"

fun b64_encode :: "string \<Rightarrow> bool \<Rightarrow> u8 list \<Rightarrow> string" where
  "b64_encode tab pad (a # b # c # bs) =
     (let v = unat a * 65536 + unat b * 256 + unat c
      in tab ! (v div 262144) # tab ! (v div 4096 mod 64) # tab ! (v div 64 mod 64) # tab ! (v mod 64)
         # b64_encode tab pad bs)"
| "b64_encode tab pad [a, b] =
     (let v = unat a * 1024 + unat b * 4
      in [tab ! (v div 4096), tab ! (v div 64 mod 64), tab ! (v mod 64)] @ (if pad then ''='' else []))"
| "b64_encode tab pad [a] =
     (let v = unat a * 16 in [tab ! (v div 64), tab ! (v mod 64)] @ (if pad then ''=='' else []))"
| "b64_encode tab pad [] = []"

definition StdEncoding_EncodeToString :: "u8 list \<Rightarrow> string" where
  "StdEncoding_EncodeToString bs = b64_encode b64_std True bs"

definition RawURLEncoding_EncodeToString :: "u8 list \<Rightarrow> string" where
  "RawURLEncoding_EncodeToString bs = b64_encode b64_url False bs"

definition b64_val :: "char \<Rightarrow> nat option" where
  "b64_val c = index_byte b64_std c"

text \<open>
  Decoding skips line ends, wants padding to a multiple of four and ignores the unused bits of the
  last digit.
\<close>

fun b64_quads :: "string \<Rightarrow> u8 list option" where
  "b64_quads [] = Some []"
| "b64_quads (a # b # c # d # s) = do {
     x \<leftarrow> b64_val a;
     y \<leftarrow> b64_val b;
     if c = CHR ''='' then
       if d = CHR ''='' \<and> s = [] then Some [word_of_nat ((x * 64 + y) div 16)] else None
     else do {
       z \<leftarrow> b64_val c;
       if d = CHR ''='' then
         if s = [] then
           let v = (x * 64 + y) * 64 + z in Some [word_of_nat (v div 1024), word_of_nat (v div 4)]
         else None
       else do {
         w \<leftarrow> b64_val d;
         let v = ((x * 64 + y) * 64 + z) * 64 + w;
         rest \<leftarrow> b64_quads s;
         Some (word_of_nat (v div 65536) # word_of_nat (v div 256) # word_of_nat v # rest)
       }
     }
   }"
| "b64_quads _ = None"

definition StdEncoding_DecodeString :: "string \<Rightarrow> u8 list option" where
  "StdEncoding_DecodeString s = b64_quads (filter (\<lambda>c. c \<noteq> CHR 10 \<and> c \<noteq> CHR 13) s)"

lemma length_b64 [simp]: "length b64_std = 64" "length b64_url = 64"
  by (simp_all add: b64_std_def b64_url_def)

lemma index_byte_nth:
  assumes "distinct xs" and "k < length xs"
  shows "index_byte xs (xs ! k) = Some k"
  using assms
proof (induction xs arbitrary: k)
  case (Cons x xs)
  then show ?case by (cases k) auto
qed simp

lemma b64_std_distinct: "distinct b64_std"
  by (simp add: b64_std_def)

lemma b64_val_nth: "k < 64 \<Longrightarrow> b64_val (b64_std ! k) = Some k"
  by (simp add: b64_val_def index_byte_nth b64_std_distinct)

lemma b64_std_chars: "k < 64 \<Longrightarrow> b64_std ! k \<noteq> CHR ''=''" "k < 64 \<Longrightarrow> b64_std ! k \<noteq> CHR 10" "k < 64 \<Longrightarrow> b64_std ! k \<noteq> CHR 13"
proof -
  have "CHR ''='' \<notin> set b64_std" "CHR 10 \<notin> set b64_std" "CHR 13 \<notin> set b64_std"
    by (simp_all add: b64_std_def)
  then show "k < 64 \<Longrightarrow> b64_std ! k \<noteq> CHR ''=''" "k < 64 \<Longrightarrow> b64_std ! k \<noteq> CHR 10" "k < 64 \<Longrightarrow> b64_std ! k \<noteq> CHR 13"
    by (metis length_b64(1) nth_mem)+
qed

lemma word_byte: "n mod 256 = unat a \<Longrightarrow> (word_of_nat n :: u8) = a"
  by (simp add: word_unat_eq_iff)

text \<open>The digits to base 64 of a number, and the bytes of two and three digits to base 256.\<close>

lemma digits_of_24:
  fixes v :: nat
  assumes "v < 16777216"
  shows "((v div 262144 * 64 + v div 4096 mod 64) * 64 + v div 64 mod 64) * 64 + v mod 64 = v" and "v div 262144 < 64"
proof -
  have "v div 262144 = v div 64 div 64 div 64" "v div 4096 = v div 64 div 64"
    by (simp_all add: div_mult2_eq [symmetric])
  then show "((v div 262144 * 64 + v div 4096 mod 64) * 64 + v div 64 mod 64) * 64 + v mod 64 = v"
    by (simp only: div_mult_mod_eq)
  show "v div 262144 < 64" using assms by (simp add: less_mult_imp_div_less)
qed

lemma digits_of_18:
  fixes v :: nat
  assumes "v < 262144"
  shows "(v div 4096 * 64 + v div 64 mod 64) * 64 + v mod 64 = v" and "v div 4096 < 64"
proof -
  have "v div 4096 = v div 64 div 64" by (simp add: div_mult2_eq [symmetric])
  then show "(v div 4096 * 64 + v div 64 mod 64) * 64 + v mod 64 = v" by (simp only: div_mult_mod_eq)
  show "v div 4096 < 64" using assms by (simp add: less_mult_imp_div_less)
qed

lemma digits_of_12:
  fixes v :: nat
  assumes "v < 4096"
  shows "v div 64 * 64 + v mod 64 = v" and "v div 64 < 64"
  using assms by (simp_all add: less_mult_imp_div_less)

lemma bytes_of_24:
  fixes a b c :: nat
  assumes "a < 256" and "b < 256" and "c < 256"
  shows "(a * 65536 + b * 256 + c) div 65536 mod 256 = a" and "(a * 65536 + b * 256 + c) div 256 mod 256 = b"
    and "(a * 65536 + b * 256 + c) mod 256 = c"
proof -
  have e: "a * 65536 + b * 256 + c = (a * 256 + b) * 256 + c" by simp
  have d: "((a * 256 + b) * 256 + c) div 256 = a * 256 + b" using assms(3) by (simp add: div_mult_self4)
  show "(a * 65536 + b * 256 + c) div 65536 mod 256 = a" using assms by simp
  show "(a * 65536 + b * 256 + c) div 256 mod 256 = b" unfolding e d using assms(2) by (simp add: mod_mult_self4)
  show "(a * 65536 + b * 256 + c) mod 256 = c" unfolding e using assms(3) by (simp only: mod_mult_self3) simp
qed

lemma byte_less: "unat (a :: u8) < 256"
  using unsigned_less [of a, where ?'a = nat] by simp

lemma b64_quads_encode: "b64_quads (b64_encode b64_std True bs) = Some bs"
proof (induction b64_std True bs rule: b64_encode.induct)
  case (1 a b c bs)
  let ?v = "unat a * 65536 + unat b * 256 + unat c"
  have "?v < 16777216" using byte_less [of a] byte_less [of b] byte_less [of c] by simp
  note v = digits_of_24 [OF this]
  have "?v div 65536 mod 256 = unat a" "?v div 256 mod 256 = unat b" "?v mod 256 = unat c"
    by (rule bytes_of_24, simp_all add: byte_less)+
  then have w: "word_of_nat (?v div 65536) = a" "word_of_nat (?v div 256) = b" "word_of_nat ?v = c"
    by (simp_all only: word_byte)
  have m: "?v div 4096 mod 64 < 64" "?v div 64 mod 64 < 64" "?v mod 64 < 64" by simp_all
  show ?case
    using 1 v(2) m
    by (simp only: b64_encode.simps Let_def b64_quads.simps b64_val_nth b64_std_chars v(1) w bind.bind_lunit if_False)
next
  case (2 a b)
  let ?v = "unat a * 1024 + unat b * 4"
  have "?v < 262144" using byte_less [of a] byte_less [of b] by simp
  note v = digits_of_18 [OF this]
  have "?v div 1024 mod 256 = unat a" "?v div 4 mod 256 = unat b"
    using byte_less [of a] byte_less [of b] by simp_all
  then have w: "word_of_nat (?v div 1024) = a" "word_of_nat (?v div 4) = b"
    by (simp_all only: word_byte)
  have m: "?v div 64 mod 64 < 64" "?v mod 64 < 64" by simp_all
  show ?case
    using v(2) m
    by (simp only: b64_encode.simps Let_def b64_quads.simps b64_val_nth b64_std_chars v(1) w bind.bind_lunit if_False
        if_True append.simps HOL.simp_thms)
next
  case (3 a)
  let ?v = "unat a * 16"
  have "?v < 4096" using byte_less [of a] by simp
  note v = digits_of_12 [OF this]
  have "?v div 16 mod 256 = unat a" using byte_less [of a] by simp
  then have w: "word_of_nat (?v div 16) = a" by (simp only: word_byte)
  have m: "?v mod 64 < 64" by simp
  show ?case
    using v(2) m
    by (simp only: b64_encode.simps Let_def b64_quads.simps b64_val_nth b64_std_chars v(1) w bind.bind_lunit if_False
        if_True append.simps HOL.simp_thms)
qed simp

lemma b64_encode_chars: "set (b64_encode b64_std True bs) \<subseteq> insert (CHR ''='') (set b64_std)"
proof (induction b64_std True bs rule: b64_encode.induct)
  case (1 a b c bs)
  have "unat a * 65536 + unat b * 256 + unat c < 16777216"
    using byte_less [of a] byte_less [of b] byte_less [of c] by simp
  then have "(unat a * 65536 + unat b * 256 + unat c) div 262144 < 64" by (rule digits_of_24)
  with 1 show ?case by (auto simp: Let_def)
next
  case (2 a b)
  have "unat a * 1024 + unat b * 4 < 262144" using byte_less [of a] byte_less [of b] by simp
  then have "(unat a * 1024 + unat b * 4) div 4096 < 64" by (rule digits_of_18)
  then show ?case by (auto simp: Let_def)
next
  case (3 a)
  have "unat a * 16 < 4096" using byte_less [of a] by simp
  then have "unat a * 16 div 64 < 64" by (rule digits_of_12)
  then show ?case by (auto simp: Let_def)
qed simp

lemma StdEncoding_round_trip: "StdEncoding_DecodeString (StdEncoding_EncodeToString bs) = Some bs"
proof -
  have "CHR 10 \<notin> insert (CHR ''='') (set b64_std)" "CHR 13 \<notin> insert (CHR ''='') (set b64_std)"
    by (simp_all add: b64_std_def)
  then have "filter (\<lambda>c. c \<noteq> CHR 10 \<and> c \<noteq> CHR 13) (b64_encode b64_std True bs) = b64_encode b64_std True bs"
    using b64_encode_chars [of bs] by (intro filter_True) blast
  then show ?thesis
    by (simp add: StdEncoding_DecodeString_def StdEncoding_EncodeToString_def b64_quads_encode)
qed

section \<open>The password record\<close>

definition scryptN :: int where "scryptN = 2 ^ 15"
definition scryptR :: int where "scryptR = 8"
definition scryptP :: int where "scryptP = 1"
definition scryptDKLen :: nat where "scryptDKLen = 32"
definition scryptSalt :: nat where "scryptSalt = 16"

record authRecord =
  au_Salt :: string
  au_Hash :: string
  au_N :: int
  au_R :: int
  au_P :: int

text \<open>
  \<^verbatim>\<open>json.Marshal\<close> and \<^verbatim>\<open>json.Unmarshal\<close> at this type. What they promise: a record with ASCII
  strings and 64-bit integers survives, and empty input is an error.
\<close>

record json =
  j_marshal :: "authRecord \<Rightarrow> string option"
  j_unmarshal :: "string \<Rightarrow> authRecord option"

definition int64 :: "int \<Rightarrow> bool" where
  "int64 i \<longleftrightarrow> - (2 ^ 63) \<le> i \<and> i < 2 ^ 63"

definition json_law :: "json \<Rightarrow> bool" where
  "json_law j \<longleftrightarrow>
     (\<forall>r. is_ascii (au_Salt r) \<and> is_ascii (au_Hash r) \<and> int64 (au_N r) \<and> int64 (au_R r) \<and> int64 (au_P r) \<longrightarrow>
        (\<exists>s. j_marshal j r = Some s \<and> j_unmarshal j s = Some r))
     \<and> j_unmarshal j '''' = None"

text \<open>The file: its content, or \<open>None\<close> when it cannot be read.\<close>

definition loadAuth :: "json \<Rightarrow> string option \<Rightarrow> authRecord option" where
  "loadAuth j file = (case file of None \<Rightarrow> None | Some data \<Rightarrow> j_unmarshal j data)"

text \<open>
  The file system during a save: whether the directory and the file can be made, and after how
  many bytes the write fails, if it does. Opening truncates.
\<close>

record save_fs =
  fs_mkdir :: bool
  fs_open :: bool
  fs_fail :: "nat option"

text \<open>
  The outer option is a panic; the result tells success, and the file afterwards. The salt is
  \<open>None\<close> when the random source fails.
\<close>

definition saveAuth ::
  "json \<Rightarrow> hmac_fun \<Rightarrow> u8 list option \<Rightarrow> save_fs \<Rightarrow> string \<Rightarrow> string option \<Rightarrow> (bool \<times> string option) option" where
  "saveAuth j hmac rand fs password file =
     (case rand of
        None \<Rightarrow> Some (False, file)
      | Some salt \<Rightarrow> do {
          key \<leftarrow> scryptKey hmac (bytes_of password) salt scryptN scryptR scryptP (int scryptDKLen);
          case key of
            Inl err \<Rightarrow> Some (False, file)
          | Inr dk \<Rightarrow>
              (case j_marshal j \<lparr>au_Salt = StdEncoding_EncodeToString salt, au_Hash = StdEncoding_EncodeToString dk,
                   au_N = scryptN, au_R = scryptR, au_P = scryptP\<rparr> of
                 None \<Rightarrow> Some (False, file)
               | Some blob \<Rightarrow>
                   if \<not> fs_mkdir fs then Some (False, file)
                   else if \<not> fs_open fs then Some (False, file)
                   else case fs_fail fs of
                       Some k \<Rightarrow> Some (False, Some (take k blob))
                     | None \<Rightarrow> Some (True, Some blob))
        })"

definition ConstantTimeCompare :: "'a list \<Rightarrow> 'a list \<Rightarrow> nat" where
  "ConstantTimeCompare x y = (if x = y then 1 else 0)"

definition verifyPw :: "json \<Rightarrow> hmac_fun \<Rightarrow> string option \<Rightarrow> string \<Rightarrow> bool option" where
  "verifyPw j hmac file password =
     (case loadAuth j file of
        None \<Rightarrow> Some False
      | Some r \<Rightarrow>
          (case StdEncoding_DecodeString (au_Salt r) of
             None \<Rightarrow> Some False
           | Some salt \<Rightarrow>
               (case StdEncoding_DecodeString (au_Hash r) of
                  None \<Rightarrow> Some False
                | Some want \<Rightarrow> do {
                    key \<leftarrow> scryptKey hmac (bytes_of password) salt (au_N r) (au_R r) (au_P r) (int (length want));
                    case key of Inl err \<Rightarrow> Some False | Inr dk \<Rightarrow> Some (ConstantTimeCompare dk want = 1)
                  })))"

lemma is_ascii_b64: "is_ascii (StdEncoding_EncodeToString bs)"
proof -
  have "is_ascii (CHR ''='' # b64_std)" by (simp add: is_ascii_def b64_std_def)
  then show ?thesis
    using b64_encode_chars [of bs] by (auto simp: is_ascii_def list_all_iff StdEncoding_EncodeToString_def)
qed

lemma accepts_defaults: "accepts scryptN scryptR scryptP 32" "fits scryptN scryptR"
  by (simp_all add: accepts_def fits_def scryptN_def scryptR_def scryptP_def power_of_two_def)

text \<open>The key that a new password gets.\<close>

definition new_key :: "hmac_fun \<Rightarrow> string \<Rightarrow> u8 list \<Rightarrow> u8 list" where
  "new_key hmac password salt = scrypt_ref hmac (bytes_of password) salt (2 ^ 15) 8 1 32"

lemma scryptKey_default:
  assumes "is_hmac hmac"
  shows "scryptKey hmac (bytes_of password) salt scryptN scryptR scryptP 32 = Some (Inr (new_key hmac password salt))"
    and "length (new_key hmac password salt) = 32"
  using scryptKey_ref [OF assms accepts_defaults]
  by (simp_all add: new_key_def scryptN_def scryptR_def scryptP_def nat_power_eq)

lemma scryptDKLen_int [simp]: "int scryptDKLen = 32"
  by (simp add: scryptDKLen_def)

lemma saveAuth_ok:
  assumes "is_hmac hmac" and "json_law j" and "saveAuth j hmac (Some salt) fs password file = Some (True, file')"
  obtains r where "loadAuth j file' = Some r" and "au_Salt r = StdEncoding_EncodeToString salt"
    and "au_Hash r = StdEncoding_EncodeToString (new_key hmac password salt)"
    and "au_N r = scryptN" and "au_R r = scryptR" and "au_P r = scryptP"
proof -
  let ?r = "\<lparr>au_Salt = StdEncoding_EncodeToString salt, au_Hash = StdEncoding_EncodeToString (new_key hmac password salt),
      au_N = scryptN, au_R = scryptR, au_P = scryptP\<rparr>"
  obtain blob where "j_marshal j ?r = Some blob" "j_unmarshal j blob = Some ?r"
    using assms(2) is_ascii_b64 unfolding json_law_def
    by (fastforce simp: int64_def scryptN_def scryptR_def scryptP_def dest!: spec [of _ ?r])
  moreover from this(1) assms(3) scryptKey_default [OF assms(1), of password salt] have "file' = Some blob"
    by (simp add: saveAuth_def split: if_splits option.splits)
  ultimately have "loadAuth j file' = Some ?r" by (simp add: loadAuth_def)
  then show ?thesis by (rule that) simp_all
qed

text \<open>
  C33: After a password has been saved successfully, verification accepts a password exactly when
  scrypt derives from it, with the stored salt, the same key as from the saved one: the saved
  password is accepted, and the scrypt run never panics or fails.
\<close>

theorem verifyPw_after_saveAuth:
  assumes "is_hmac hmac" and "json_law j" and "saveAuth j hmac (Some salt) fs password file = Some (True, file')"
  shows "verifyPw j hmac file' guess = Some (new_key hmac guess salt = new_key hmac password salt)
    \<and> verifyPw j hmac file' password = Some True"
proof -
  obtain r where r: "loadAuth j file' = Some r" "au_Salt r = StdEncoding_EncodeToString salt"
    "au_Hash r = StdEncoding_EncodeToString (new_key hmac password salt)"
    "au_N r = scryptN" "au_R r = scryptR" "au_P r = scryptP"
    using assms by (rule saveAuth_ok)
  have "verifyPw j hmac file' g = Some (new_key hmac g salt = new_key hmac password salt)" for g
    using r scryptKey_default [OF assms(1)]
    by (simp add: verifyPw_def StdEncoding_round_trip ConstantTimeCompare_def)
  then show ?thesis by simp
qed

text \<open>
  Parameters for the witness: a package that marks every character of a field and ends it with a
  dot, a constant hash and a file system without errors.
\<close>

definition put_field :: "string \<Rightarrow> string" where
  "put_field f = concat (map (\<lambda>c. [CHR ''x'', c]) f) @ ''.''"

fun get_field :: "string \<Rightarrow> (string \<times> string) option" where
  "get_field [] = None"
| "get_field [a] = (if a = CHR ''.'' then Some ([], []) else None)"
| "get_field (a # c # s) =
     (if a = CHR ''.'' then Some ([], c # s)
      else case get_field s of None \<Rightarrow> None | Some (f, r) \<Rightarrow> Some (c # f, r))"

lemma get_put_field [simp]: "get_field (put_field f @ r) = Some (f, r)"
proof (induction f)
  case Nil
  then show ?case by (cases r) (simp_all add: put_field_def)
next
  case (Cons c f)
  then show ?case by (simp add: put_field_def)
qed

definition simple_json :: json where
  "simple_json =
     \<lparr>j_marshal = (\<lambda>r. Some (concat (map put_field [au_Salt r, au_Hash r, Itoa (au_N r), Itoa (au_R r), Itoa (au_P r)]))),
      j_unmarshal = (\<lambda>s. do {
        (salt, s) \<leftarrow> get_field s;
        (hash, s) \<leftarrow> get_field s;
        (n, s) \<leftarrow> get_field s;
        (r, s) \<leftarrow> get_field s;
        (p, s) \<leftarrow> get_field s;
        n \<leftarrow> Atoi n;
        r \<leftarrow> Atoi r;
        p \<leftarrow> Atoi p;
        Some \<lparr>au_Salt = salt, au_Hash = hash, au_N = n, au_R = r, au_P = p\<rparr>
      })\<rparr>"

lemma simple_json_law: "json_law simple_json"
  using get_put_field [of _ "[]"]
  by (auto simp: json_law_def simple_json_def int64_def Atoi_Itoa simp del: append_Nil2)

definition constant_hmac :: hmac_fun where
  "constant_hmac k m = replicate 32 7"

definition good_fs :: save_fs where
  "good_fs = \<lparr>fs_mkdir = True, fs_open = True, fs_fail = None\<rparr>"

lemma verifyPw_after_saveAuth_witness:
  "\<exists>f. saveAuth simple_json constant_hmac (Some [1, 2]) good_fs ''secret password'' None = Some (True, f)
     \<and> verifyPw simple_json constant_hmac f ''secret password'' = Some True"
proof -
  have h: "is_hmac constant_hmac" by (simp add: is_hmac_def constant_hmac_def)
  have "\<exists>f. saveAuth simple_json constant_hmac (Some [1, 2]) good_fs ''secret password'' None = Some (True, f)"
    using scryptKey_default [OF h] by (simp add: saveAuth_def good_fs_def simple_json_def)
  then show ?thesis using verifyPw_after_saveAuth [OF h simple_json_law] by blast
qed

section \<open>Sessions\<close>

definition sessionTTL :: int where
  "sessionTTL = 12 * 3600 * 10 ^ 9"

type_synonym store = "string \<Rightarrow> int option"

definition newSessionStore :: store where
  "newSessionStore = Map.empty"

text \<open>\<open>None\<close> when the random source fails.\<close>

definition session_create :: "int \<Rightarrow> u8 list option \<Rightarrow> store \<Rightarrow> (string \<times> store) option" where
  "session_create now rand s =
     (case rand of
        None \<Rightarrow> None
      | Some raw \<Rightarrow> let tok = RawURLEncoding_EncodeToString raw in Some (tok, s(tok \<mapsto> now + sessionTTL)))"

definition session_ok :: "int \<Rightarrow> string \<Rightarrow> store \<Rightarrow> bool \<times> store" where
  "session_ok now tok s =
     (if tok = '''' then (False, s)
      else case s tok of
          None \<Rightarrow> (False, s)
        | Some exp \<Rightarrow> if exp < now then (False, s(tok := None)) else (True, s))"

definition session_drop :: "string \<Rightarrow> store \<Rightarrow> store" where
  "session_drop tok s = (if tok = '''' then s else s(tok := None))"

definition sessionCookie :: "string \<Rightarrow> bool \<Rightarrow> string" where
  "sessionCookie tok clear =
     (if clear then ''audit_session=; HttpOnly; SameSite=Strict; Path=/; Max-Age=0''
      else ''audit_session='' @ tok @ ''; HttpOnly; SameSite=Strict; Path=/; Max-Age=43200'')"

text \<open>
  The interface that the server relies on: \<open>valid\<close> is what a table means, the tokens it accepts at a
  time. A created token is accepted for the lifetime, a check answers what the table means and
  may forget only what the clock has passed, a revoked token is gone, and nothing else changes.
\<close>

locale session_table =
  fixes create :: "int \<Rightarrow> u8 list option \<Rightarrow> 's \<Rightarrow> (string \<times> 's) option"
    and check :: "int \<Rightarrow> string \<Rightarrow> 's \<Rightarrow> bool \<times> 's"
    and revoke :: "string \<Rightarrow> 's \<Rightarrow> 's"
    and valid :: "'s \<Rightarrow> int \<Rightarrow> string \<Rightarrow> bool"
  assumes create_fails: "create t None s = None"
    and create_issues: "raw \<noteq> [] \<Longrightarrow> \<exists>s'. create t (Some raw) s = Some (RawURLEncoding_EncodeToString raw, s')
      \<and> (\<forall>t' tok. valid s' t' tok
           \<longleftrightarrow> (if tok = RawURLEncoding_EncodeToString raw then t' \<le> t + sessionTTL else valid s t' tok))"
    and check_answers: "fst (check t tok s) = valid s t tok"
    and check_adds_none: "valid (snd (check t tok s)) t' tok' \<Longrightarrow> valid s t' tok'"
    and check_keeps: "t \<le> t' \<Longrightarrow> valid s t' tok' \<Longrightarrow> valid (snd (check t tok s)) t' tok'"
    and revoke_removes: "valid (revoke tok s) t tok' \<longleftrightarrow> valid s t tok' \<and> tok' \<noteq> tok"

text \<open>A history of calls, with random bytes at hand at every creation, run on any such table.\<close>

datatype session_call = Create int "u8 list" | Check int string | Drop string

fun run_calls ::
  "(int \<Rightarrow> u8 list option \<Rightarrow> 's \<Rightarrow> (string \<times> 's) option) \<Rightarrow> (int \<Rightarrow> string \<Rightarrow> 's \<Rightarrow> bool \<times> 's) \<Rightarrow>
   (string \<Rightarrow> 's \<Rightarrow> 's) \<Rightarrow> session_call list \<Rightarrow> 's \<Rightarrow> bool list" where
  "run_calls create check revoke [] s = []"
| "run_calls create check revoke (Create t raw # cs) s =
     (case create t (Some raw) s of
        None \<Rightarrow> run_calls create check revoke cs s
      | Some (_, s') \<Rightarrow> run_calls create check revoke cs s')"
| "run_calls create check revoke (Check t tok # cs) s =
     (let (r, s') = check t tok s in r # run_calls create check revoke cs s')"
| "run_calls create check revoke (Drop tok # cs) s = run_calls create check revoke cs (revoke tok s)"

text \<open>
  The specification looks at the calls before, latest first: a token is live when the last call
  that issued or dropped it issued it, at most the lifetime ago.
\<close>

fun live :: "session_call list \<Rightarrow> int \<Rightarrow> string \<Rightarrow> bool" where
  "live [] t tok \<longleftrightarrow> False"
| "live (Create t0 raw # past) t tok \<longleftrightarrow>
     (if RawURLEncoding_EncodeToString raw = tok then t \<le> t0 + sessionTTL else live past t tok)"
| "live (Drop tok' # past) t tok \<longleftrightarrow> tok' \<noteq> tok \<and> live past t tok"
| "live (Check t0 tok' # past) t tok \<longleftrightarrow> live past t tok"

fun spec_sessions :: "session_call list \<Rightarrow> session_call list \<Rightarrow> bool list" where
  "spec_sessions past [] = []"
| "spec_sessions past (Check t tok # cs) = live past t tok # spec_sessions (Check t tok # past) cs"
| "spec_sessions past (c # cs) = spec_sessions (c # past) cs"

definition call_time :: "session_call \<Rightarrow> int option" where
  "call_time c = (case c of Create t raw \<Rightarrow> Some t | Check t tok \<Rightarrow> Some t | Drop tok \<Rightarrow> None)"

lemma call_time_simps [simp]:
  "call_time (Create t raw) = Some t" "call_time (Check t tok) = Some t" "call_time (Drop tok) = None"
  by (simp_all add: call_time_def)

definition well_timed :: "session_call list \<Rightarrow> bool" where
  "well_timed cs \<longleftrightarrow> sorted (List.map_filter call_time cs) \<and> (\<forall>t raw. Create t raw \<in> set cs \<longrightarrow> raw \<noteq> [])"

context session_table
begin

text \<open>A table on which no token is live stays so, whatever is checked and revoked.\<close>

definition no_session :: "'s \<Rightarrow> bool" where
  "no_session s \<longleftrightarrow> (\<forall>t tok. \<not> valid s t tok)"

lemma no_session_check: "no_session s \<Longrightarrow> \<not> fst (check t tok s)" "no_session s \<Longrightarrow> no_session (snd (check t tok s))"
  by (auto simp: no_session_def check_answers dest: check_adds_none)

lemma no_session_revoke: "no_session s \<Longrightarrow> no_session (revoke tok s)"
  by (simp add: no_session_def revoke_removes)

text \<open>From a time on a table means what a history says; an evicted entry stays dead, as the clock does not go back.\<close>

definition means :: "int \<Rightarrow> session_call list \<Rightarrow> 's \<Rightarrow> bool" where
  "means t0 past s \<longleftrightarrow> (\<forall>t \<ge> t0. \<forall>tok. valid s t tok \<longleftrightarrow> live past t tok)"

lemma means_later: "means t0 past s \<Longrightarrow> t0 \<le> t1 \<Longrightarrow> means t1 past s"
  by (auto simp: means_def)

lemma means_check: "means t past s \<Longrightarrow> means t (Check t tok # past) (snd (check t tok s))"
  by (auto simp: means_def dest: check_adds_none check_keeps [of t])

lemma means_revoke: "means t0 past s \<Longrightarrow> means t0 (Drop tok # past) (revoke tok s)"
  by (auto simp: means_def revoke_removes)

lemma run_calls_means:
  "means t0 past s \<Longrightarrow> sorted (List.map_filter call_time cs) \<Longrightarrow>
     (\<forall>t \<in> set (List.map_filter call_time cs). t0 \<le> t) \<Longrightarrow> (\<forall>t raw. Create t raw \<in> set cs \<longrightarrow> raw \<noteq> []) \<Longrightarrow>
     run_calls create check revoke cs s = spec_sessions past cs"
proof (induction cs arbitrary: t0 past s)
  case (Cons c cs)
  have rest: "\<forall>t raw. Create t raw \<in> set cs \<longrightarrow> raw \<noteq> []" "sorted (List.map_filter call_time cs)"
    using Cons.prems by (cases "call_time c", auto)+
  have later: "\<forall>t' \<in> set (List.map_filter call_time cs). t \<le> t'" "means t past s" if "call_time c = Some t" for t
    using that Cons.prems means_later by auto
  show ?case
  proof (cases c)
    case (Create t raw)
    then have "raw \<noteq> []" using Cons.prems by auto
    from create_issues [OF this] obtain s' where s': "create t (Some raw) s = Some (RawURLEncoding_EncodeToString raw, s')"
      "\<forall>t' tok. valid s' t' tok
        \<longleftrightarrow> (if tok = RawURLEncoding_EncodeToString raw then t' \<le> t + sessionTTL else valid s t' tok)"
      by blast
    have "means t (c # past) s'" using later(2) s'(2) by (auto simp: Create means_def)
    with Cons.IH [OF this rest(2) _ rest(1)] later(1) s'(1) show ?thesis by (simp add: Create)
  next
    case (Check t tok)
    then have "fst (check t tok s) = live past t tok" using later(2) by (simp add: check_answers means_def)
    moreover have "means t (c # past) (snd (check t tok s))" unfolding Check using later(2) Check by (simp add: means_check)
    ultimately show ?thesis using Cons.IH [OF _ rest(2) _ rest(1)] later(1) by (simp add: Check split_beta)
  next
    case (Drop tok)
    have "means t0 (c # past) (revoke tok s)" unfolding Drop using Cons.prems(1) by (rule means_revoke)
    with Cons.IH [OF this rest(2) _ rest(1)] Cons.prems(3) show ?thesis by (simp add: Drop)
  qed
qed simp

text \<open>A table that starts without a session answers as the specification, on every history.\<close>

lemma run_calls_spec:
  assumes "no_session s" and "well_timed cs"
  shows "run_calls create check revoke cs s = spec_sessions [] cs"
proof -
  have m: "means t [] s" for t using assms(1) by (simp add: means_def no_session_def)
  show ?thesis
  proof (cases "List.map_filter call_time cs")
    case Nil
    with run_calls_means [OF m] assms(2) show ?thesis by (simp add: well_timed_def)
  next
    case (Cons t ts)
    with run_calls_means [OF m [of t]] assms(2) show ?thesis by (simp add: well_timed_def)
  qed
qed

end

text \<open>The table of the program keeps the interface; the empty token is never accepted.\<close>

definition store_valid :: "store \<Rightarrow> int \<Rightarrow> string \<Rightarrow> bool" where
  "store_valid s t tok \<longleftrightarrow> tok \<noteq> [] \<and> (case s tok of None \<Rightarrow> False | Some e \<Rightarrow> t \<le> e)"

lemma token_nonempty: "raw \<noteq> [] \<Longrightarrow> RawURLEncoding_EncodeToString raw \<noteq> []"
  unfolding RawURLEncoding_EncodeToString_def
  by (cases "(b64_url, False, raw)" rule: b64_encode.cases) (simp_all add: Let_def)

interpretation sessions: session_table session_create session_ok session_drop store_valid
  by unfold_locales
    (auto simp: session_create_def session_ok_def session_drop_def store_valid_def token_nonempty Let_def
      split: option.splits if_splits)

lemma newSessionStore_dead: "sessions.no_session newSessionStore"
  by (simp add: sessions.no_session_def store_valid_def newSessionStore_def)

definition run_sessions :: "session_call list \<Rightarrow> store \<Rightarrow> bool list" where
  "run_sessions = run_calls session_create session_ok session_drop"

text \<open>
  C9: The session table refines its specification: on every history of calls under a clock that
  does not go back, a token is accepted exactly when the last call that issued or dropped it
  issued it, no more than twelve hours before; the eviction of expired entries never shows.
\<close>

theorem sessions_refine_history:
  assumes "well_timed cs"
  shows "run_sessions cs newSessionStore = spec_sessions [] cs"
  unfolding run_sessions_def by (rule sessions.run_calls_spec [OF newSessionStore_dead assms])

lemma sessions_refine_history_witness:
  "run_sessions [Create 0 [1, 2, 3], Check 5 ''AQID'', Drop ''AQID'', Check 6 ''AQID''] newSessionStore = [True, False]"
proof -
  have "RawURLEncoding_EncodeToString [1, 2, 3] = ''AQID''"
    by (simp add: RawURLEncoding_EncodeToString_def b64_url_def Let_def)
  then show ?thesis
    by (subst sessions_refine_history) (auto simp: well_timed_def sessionTTL_def)
qed

end
