(* ===== verification/Server.thy ===== *)
theory Server
  imports NetMon ProcMon WebData Auth
begin

text \<open>
  Model of \<^verbatim>\<open>web/server.go\<close>: the checks on a request, the routes, first-run setup, login with
  its throttle, and the responses. A handler gets the request, the state of the server and the
  password file, and returns the response, the new state, the new file and the actions on the
  system. JSON decoding, the pages, random bytes, the clock and what the samplers published are
  parameters of a request. \<open>None\<close> is a panic, which \<^verbatim>\<open>net/http\<close> turns into a closed
  connection.
\<close>

section \<open>Requests and responses\<close>

datatype jval = JString string | JOther

record request =
  rq_method :: string
  rq_Host :: string
  rq_Origin :: string
  rq_SecFetchSite :: string
  rq_AuditToken :: string
  rq_cookie :: "string option"
  rq_path :: string
  rq_query :: "string \<Rightarrow> string"
  rq_body :: "string option"

text \<open>A JSON document is kept as the value that is marshalled.\<close>

datatype payload =
    Plain string
  | Html string
  | Svg
  | NetDoc snapshot
  | ProcDoc procSnapshot
  | StatusDoc statusJSON
  | LogDoc string "string list"
  | ReportDoc "reportRow list"
  | OkDoc

record response =
  rs_code :: nat
  rs_headers :: "(string \<times> string) list"
  rs_body :: payload

record server =
  sv_token :: string
  sv_sessions :: store
  sv_failCount :: nat
  sv_failUntil :: int

text \<open>
  What a request meets: the clock when it comes and when it ends, random bytes, the file system of
  a save, whether the flag file can be created, and the system before and after a toggle.
  \<open>wo_decode\<close> is \<^verbatim>\<open>json.Unmarshal\<close> into a map: an error, \<^verbatim>\<open>null\<close> or the members.
\<close>

record world =
  wo_json :: json
  wo_hmac :: hmac_fun
  wo_decode :: "string \<Rightarrow> (string \<rightharpoonup> jval) option option"
  wo_setupPage :: string
  wo_loginPage :: string
  wo_DashboardHTML :: string
  wo_env :: webenv
  wo_after :: webenv
  wo_net :: snapshot
  wo_proc :: procSnapshot
  wo_now :: int
  wo_end :: int
  wo_rand :: "u8 list option"
  wo_salt :: "u8 list option"
  wo_fs :: save_fs
  wo_creates :: bool

record outcome =
  oc_resp :: response
  oc_server :: server
  oc_auth :: "string option"
  oc_actions :: "action list"

definition server_host :: string where "server_host = ''127.0.0.1''"
definition server_port :: nat where "server_port = 8799"

definition allowedHosts :: "string list" where
  "allowedHosts = [server_host @ '':'' @ dec server_port, ''localhost:'' @ dec server_port]"

definition allowedOrigins :: "string list" where
  "allowedOrigins = [''http://'' @ server_host @ '':'' @ dec server_port, ''http://localhost:'' @ dec server_port]"

text \<open>The zero \<^verbatim>\<open>time.Time\<close>, in nanoseconds of the epoch.\<close>

definition zeroTime :: int where
  "zeroTime = - 62135596800 * 10 ^ 9"

definition newServer :: "u8 list option \<Rightarrow> server option" where
  "newServer rand =
     (case rand of
        None \<Rightarrow> None
      | Some raw \<Rightarrow> Some \<lparr>sv_token = RawURLEncoding_EncodeToString raw, sv_sessions = newSessionStore,
          sv_failCount = 0, sv_failUntil = zeroTime\<rparr>)"

section \<open>Checks\<close>

definition okOrigin :: "request \<Rightarrow> bool" where
  "okOrigin r =
     (if rq_Host r \<notin> set allowedHosts then False
      else if rq_Origin r \<noteq> '''' \<and> rq_Origin r \<notin> set allowedOrigins then False
      else if rq_SecFetchSite r \<noteq> '''' \<and> rq_SecFetchSite r \<noteq> ''same-origin'' \<and> rq_SecFetchSite r \<noteq> ''none'' then False
      else True)"

definition tokenOK :: "server \<Rightarrow> request \<Rightarrow> bool" where
  "tokenOK s r \<longleftrightarrow> ConstantTimeCompare (rq_AuditToken r) (sv_token s) = 1"

definition cookieSession :: "request \<Rightarrow> string" where
  "cookieSession r = (case rq_cookie r of None \<Rightarrow> '''' | Some v \<Rightarrow> v)"

text \<open>The check evicts an expired session.\<close>

definition authed :: "int \<Rightarrow> request \<Rightarrow> server \<Rightarrow> bool \<times> server" where
  "authed t r s =
     (let (ok, m) = session_ok t (cookieSession r) (sv_sessions s) in (ok, s\<lparr>sv_sessions := m\<rparr>))"

text \<open>\<open>None\<close> for a bad body.\<close>

definition readBody :: "world \<Rightarrow> request \<Rightarrow> (string \<rightharpoonup> jval) option" where
  "readBody w r =
     (case rq_body r of
        None \<Rightarrow> None
      | Some raw \<Rightarrow>
          (let trimmed = TrimSpace raw in
           if trimmed = '''' then Some Map.empty
           else case wo_decode w trimmed of
               None \<Rightarrow> None
             | Some None \<Rightarrow> Some Map.empty
             | Some (Some m) \<Rightarrow> Some m))"

definition validLayer :: "string \<Rightarrow> bool" where
  "validLayer layer \<longleftrightarrow> layer = ''shell'' \<or> layer = ''input'' \<or> layer = ''audit''"

definition queryDefault :: "request \<Rightarrow> string \<Rightarrow> string \<Rightarrow> string" where
  "queryDefault r key def = (let v = rq_query r key in if v = '''' then def else v)"

definition queryInt :: "request \<Rightarrow> string \<Rightarrow> int \<Rightarrow> int" where
  "queryInt r key def =
     (let v = rq_query r key in
      if v = '''' then def else case Atoi v of None \<Rightarrow> def | Some n \<Rightarrow> n)"

definition clamp :: "int \<Rightarrow> int \<Rightarrow> int \<Rightarrow> int" where
  "clamp v lo hi = (if v < lo then lo else if v > hi then hi else v)"

section \<open>Responses\<close>

definition send :: "nat \<Rightarrow> string \<Rightarrow> payload \<Rightarrow> string \<Rightarrow> response" where
  "send code ctype body cookie =
     \<lparr>rs_code = code,
      rs_headers = [(''Content-Type'', ctype), (''Cache-Control'', ''no-store''), (''X-Content-Type-Options'', ''nosniff'')]
        @ (if cookie \<noteq> '''' then [(''Set-Cookie'', cookie)] else []),
      rs_body = body\<rparr>"

definition sendText :: "nat \<Rightarrow> string \<Rightarrow> response" where
  "sendText code body = send code ''text/plain'' (Plain body) ''''"

text \<open>\<^verbatim>\<open>json.Marshal\<close> rejects infinities and NaN; only the report has times that can be one.\<close>

definition marshals :: "payload \<Rightarrow> bool" where
  "marshals obj = (case obj of ReportDoc rows \<Rightarrow> list_all (\<lambda>r. is_finite (rr_ts r)) rows | _ \<Rightarrow> True)"

definition sendJSON :: "nat \<Rightarrow> payload \<Rightarrow> string \<Rightarrow> response" where
  "sendJSON code obj cookie =
     (if \<not> marshals obj then sendText 500 ''internal error'' else send code ''application/json'' obj cookie)"

text \<open>\<^verbatim>\<open>strings.Replace(s, old, new, 1)\<close>.\<close>

definition replace_first :: "string \<Rightarrow> string \<Rightarrow> string \<Rightarrow> string" where
  "replace_first s old new =
     (case str_index s old of None \<Rightarrow> s | Some i \<Rightarrow> take i s @ new @ drop (i + length old) s)"

section \<open>GET\<close>

definition html_type :: string where
  "html_type = ''text/html; charset=utf-8''"

definition api_get :: "world \<Rightarrow> request \<Rightarrow> response" where
  "api_get w r =
     (let path = rq_path r in
      if path = ''/world.svg'' then send 200 ''image/svg+xml'' Svg ''''
      else if path = ''/api/net'' then sendJSON 200 (NetDoc (wo_net w)) ''''
      else if path = ''/api/proc'' then sendJSON 200 (ProcDoc (wo_proc w)) ''''
      else if path = ''/api/status'' then sendJSON 200 (StatusDoc (status (wo_env w))) ''''
      else if path = ''/api/log'' then
        let which = queryDefault r ''which'' ''buffer''; n = clamp (queryInt r ''lines'' 200) 1 5000
        in sendJSON 200 (LogDoc which (logview (wo_env w) which (nat n))) ''''
      else if path = ''/api/report'' then
        let n = clamp (queryInt r ''n'' 25) 1 200 in sendJSON 200 (ReportDoc (report (wo_env w) n)) ''''
      else sendText 404 ''not found'')"

definition handleGet :: "world \<Rightarrow> request \<Rightarrow> server \<Rightarrow> string option \<Rightarrow> response \<times> server" where
  "handleGet w r s auth =
     (if \<not> okOrigin r then (sendText 403 ''forbidden'', s)
      else
        let path = rq_path r in
        if path = ''/'' \<or> path = ''/index.html'' then
          if loadAuth (wo_json w) auth = None then (send 200 html_type (Html (wo_setupPage w)) '''', s)
          else
            let (ok, s) = authed (wo_now w) r s in
            if \<not> ok then (send 200 html_type (Html (wo_loginPage w)) '''', s)
            else (send 200 html_type (Html (replace_first (wo_DashboardHTML w) ''__TOKEN__'' (sv_token s))) '''', s)
        else if has_prefix path ''/api/'' \<or> path = ''/world.svg'' then
          let (ok, s) = authed (wo_now w) r s in
          if \<not> ok then (sendText 401 ''auth required'', s)
          else if \<not> tokenOK s r then (sendText 401 ''bad token'', s)
          else (api_get w r, s)
        else (sendText 404 ''not found'', s))"

section \<open>POST\<close>

definition issueSession :: "world \<Rightarrow> server \<Rightarrow> response \<times> server" where
  "issueSession w s =
     (case session_create (wo_end w) (wo_rand w) (sv_sessions s) of
        None \<Rightarrow> (sendText 500 ''internal error'', s)
      | Some (tok, m) \<Rightarrow> (sendJSON 200 OkDoc (sessionCookie tok False), s\<lparr>sv_sessions := m\<rparr>))"

text \<open>A type assertion to a string, in both its forms.\<close>

definition as_string :: "jval option \<Rightarrow> string option" where
  "as_string v = (case v of Some (JString x) \<Rightarrow> Some x | _ \<Rightarrow> None)"

definition or_empty :: "string option \<Rightarrow> string" where
  "or_empty v = (case v of None \<Rightarrow> '''' | Some x \<Rightarrow> x)"

definition handleSetup ::
  "world \<Rightarrow> (string \<rightharpoonup> jval) \<Rightarrow> server \<Rightarrow> string option \<Rightarrow> (response \<times> server \<times> string option) option" where
  "handleSetup w body s auth =
     (if loadAuth (wo_json w) auth \<noteq> None then Some (sendText 403 ''already configured'', s, auth)
      else case as_string (body ''password'') of
          None \<Rightarrow> Some (sendText 400 ''password must be at least 8 characters'', s, auth)
        | Some pw \<Rightarrow>
            if length pw < 8 then Some (sendText 400 ''password must be at least 8 characters'', s, auth)
            else do {
              (saved, auth) \<leftarrow> saveAuth (wo_json w) (wo_hmac w) (wo_salt w) (wo_fs w) pw auth;
              if \<not> saved then Some (sendText 500 ''could not save password'', s, auth)
              else let (resp, s) = issueSession w s in Some (resp, s, auth)
            })"

text \<open>The parts of a login that hold the lock.\<close>

definition login_locked :: "int \<Rightarrow> server \<Rightarrow> bool" where
  "login_locked t s \<longleftrightarrow> t < sv_failUntil s"

definition login_good :: "server \<Rightarrow> server" where
  "login_good s = s\<lparr>sv_failCount := 0\<rparr>"

definition login_bad :: "server \<Rightarrow> server" where
  "login_bad s = s\<lparr>sv_failCount := Suc (sv_failCount s)\<rparr>"

definition login_lock :: "int \<Rightarrow> server \<Rightarrow> server" where
  "login_lock t s =
     (if 5 \<le> sv_failCount s then s\<lparr>sv_failUntil := t + 30 * 10 ^ 9, sv_failCount := 0\<rparr> else s)"

definition handleLogin ::
  "world \<Rightarrow> (string \<rightharpoonup> jval) \<Rightarrow> server \<Rightarrow> string option \<Rightarrow> (response \<times> server) option" where
  "handleLogin w body s auth =
     (if login_locked (wo_now w) s then Some (sendText 429 ''too many attempts, wait a moment'', s)
      else do {
        ok \<leftarrow> verifyPw (wo_json w) (wo_hmac w) auth (or_empty (as_string (body ''password'')));
        if ok then Some (issueSession w (login_good s))
        else Some (sendText 401 ''invalid password'', login_lock (wo_now w) (login_bad s))
      })"

definition post_outcome :: "response \<Rightarrow> server \<Rightarrow> string option \<Rightarrow> action list \<Rightarrow> outcome" where
  "post_outcome resp s auth acts = \<lparr>oc_resp = resp, oc_server = s, oc_auth = auth, oc_actions = acts\<rparr>"

definition handlePost :: "world \<Rightarrow> request \<Rightarrow> server \<Rightarrow> string option \<Rightarrow> outcome option" where
  "handlePost w r s auth =
     (if \<not> okOrigin r then Some (post_outcome (sendText 403 ''forbidden'') s auth [])
      else case readBody w r of
          None \<Rightarrow> Some (post_outcome (sendText 400 ''bad json'') s auth [])
        | Some body \<Rightarrow>
            let path = rq_path r in
            if path = ''/api/setup'' then do {
              (resp, s, auth) \<leftarrow> handleSetup w body s auth;
              Some (post_outcome resp s auth [])
            }
            else if path = ''/api/login'' then do {
              (resp, s) \<leftarrow> handleLogin w body s auth;
              Some (post_outcome resp s auth [])
            }
            else
              let (ok, s) = authed (wo_now w) r s in
              if \<not> ok then Some (post_outcome (sendText 401 ''auth required'') s auth [])
              else if path = ''/api/logout'' then
                Some (post_outcome (sendJSON 200 OkDoc (sessionCookie '''' True))
                  (s\<lparr>sv_sessions := session_drop (cookieSession r) (sv_sessions s)\<rparr>) auth [])
              else if path = ''/api/toggle'' then
                if \<not> tokenOK s r then Some (post_outcome (sendText 401 ''bad token'') s auth [])
                else
                  let layer = or_empty (as_string (body ''layer'')); act = or_empty (as_string (body ''action'')) in
                  if \<not> validLayer layer \<or> (act \<noteq> ''enable'' \<and> act \<noteq> ''disable'') then
                    Some (post_outcome (sendText 400 ''bad params'') s auth [])
                  else
                    Some (post_outcome (sendJSON 200 (StatusDoc (status (wo_after w))) '''') s auth
                      (toggle_actions (wo_env w) (wo_creates w) layer act))
              else Some (post_outcome (sendText 404 ''not found'') s auth []))"

definition ServeHTTP :: "world \<Rightarrow> request \<Rightarrow> server \<Rightarrow> string option \<Rightarrow> outcome option" where
  "ServeHTTP w r s auth =
     (if rq_method r = ''GET'' then
        let (resp, s) = handleGet w r s auth in Some (post_outcome resp s auth [])
      else if rq_method r = ''POST'' then handlePost w r s auth
      else Some (post_outcome (send 404 ''text/plain'' (Plain ''not found'') '''') s auth []))"

section \<open>Guards\<close>

text \<open>What a response of a request without credentials may carry.\<close>

definition public :: "payload \<Rightarrow> bool" where
  "public p = (case p of Plain _ \<Rightarrow> True | Html _ \<Rightarrow> True | OkDoc \<Rightarrow> True | _ \<Rightarrow> False)"

definition has_session :: "world \<Rightarrow> request \<Rightarrow> server \<Rightarrow> bool" where
  "has_session w r s \<longleftrightarrow> fst (session_ok (wo_now w) (cookieSession r) (sv_sessions s))"

lemma body_send [simp]:
  "rs_body (send code ctype p c) = p" "rs_body (sendText code x) = Plain x"
  "rs_body (sendJSON code p c) = (if marshals p then p else Plain ''internal error'')"
  by (simp_all add: send_def sendText_def sendJSON_def)

lemma public_simps [simp]:
  "public (Plain x)" "public (Html x)" "public OkDoc" "\<not> public Svg" "\<not> public (NetDoc n)" "\<not> public (ProcDoc p)"
  "\<not> public (StatusDoc d)" "\<not> public (LogDoc a b)" "\<not> public (ReportDoc rs)"
  by (simp_all add: public_def)

lemma post_outcome_simps [simp]:
  "oc_resp (post_outcome resp s a acts) = resp" "oc_server (post_outcome resp s a acts) = s"
  "oc_auth (post_outcome resp s a acts) = a" "oc_actions (post_outcome resp s a acts) = acts"
  by (simp_all add: post_outcome_def)

lemma authed_simps [simp]:
  "fst (authed t r s) = fst (session_ok t (cookieSession r) (sv_sessions s))"
  "sv_token (snd (authed t r s)) = sv_token s"
  "sv_sessions (snd (authed t r s)) = snd (session_ok t (cookieSession r) (sv_sessions s))"
  by (simp_all add: authed_def split: prod.splits)

lemma tokenOK_authed [simp]: "tokenOK (snd (authed t r s)) r = tokenOK s r"
  by (simp add: tokenOK_def)

lemma issueSession_public: "issueSession w s = (resp, s') \<Longrightarrow> public (rs_body resp)"
  by (auto simp: issueSession_def split: option.splits prod.splits)

lemma handleSetup_cases:
  assumes "handleSetup w body s auth = Some (resp, s', auth')"
  shows "public (rs_body resp) \<and> (auth' = auth \<or> loadAuth (wo_json w) auth = None \<and>
    (\<exists>pw. body ''password'' = Some (JString pw) \<and> 8 \<le> length pw))"
proof (cases "loadAuth (wo_json w) auth = None \<and> (\<exists>pw. as_string (body ''password'') = Some pw \<and> \<not> length pw < 8)")
  case False
  with assms have "resp \<in> {sendText 403 ''already configured'',
      sendText 400 ''password must be at least 8 characters''} \<and> auth' = auth"
    by (auto simp: handleSetup_def split: if_splits option.splits)
  then show ?thesis by auto
next
  case True
  then obtain pw where pw: "as_string (body ''password'') = Some pw" "\<not> length pw < 8" by blast
  then have b: "body ''password'' = Some (JString pw)"
    by (auto simp: as_string_def split: option.splits jval.splits)
  from assms True pw have "public (rs_body resp)"
    by (auto simp: handleSetup_def bind_eq_Some_conv Let_def dest: issueSession_public split: prod.splits if_splits)
  with True b pw(2) show ?thesis by (simp add: not_less)
qed

lemma handleLogin_cases:
  assumes "handleLogin w body s auth = Some (resp, s')"
  shows "public (rs_body resp)"
  using assms
  by (auto simp: handleLogin_def bind_eq_Some_conv dest: issueSession_public split: if_splits)

lemma handleGet_private:
  assumes "handleGet w r s auth = (resp, s')" and "\<not> public (rs_body resp)"
  shows "okOrigin r \<and> has_session w r s \<and> tokenOK s r"
proof -
  obtain ok s1 where a: "authed (wo_now w) r s = (ok, s1)" by (cases "authed (wo_now w) r s")
  then have "ok = has_session w r s" "tokenOK s1 r = tokenOK s r"
    using authed_simps(1) [of "wo_now w" r s] tokenOK_authed [of "wo_now w" r s] by (simp_all add: has_session_def)
  with assms show ?thesis by (auto simp: handleGet_def a Let_def split: if_splits)
qed

lemma handlePost_private:
  assumes "handlePost w r s auth = Some out"
    and "\<not> public (rs_body (oc_resp out)) \<or> oc_actions out \<noteq> []"
  shows "okOrigin r \<and> has_session w r s \<and> tokenOK s r \<and> rq_path r = ''/api/toggle''"
proof -
  obtain ok s1 where a: "authed (wo_now w) r s = (ok, s1)" by (cases "authed (wo_now w) r s")
  then have "ok = has_session w r s" "tokenOK s1 r = tokenOK s r"
    using authed_simps(1) [of "wo_now w" r s] tokenOK_authed [of "wo_now w" r s] by (simp_all add: has_session_def)
  with assms show ?thesis
    by (auto simp: handlePost_def a Let_def bind_eq_Some_conv dest!: handleSetup_cases handleLogin_cases
        split: if_splits option.splits)
qed

lemma handlePost_auth:
  assumes "handlePost w r s auth = Some out" and "oc_auth out \<noteq> auth"
  shows "okOrigin r \<and> rq_path r = ''/api/setup'' \<and> loadAuth (wo_json w) auth = None"
  using assms
  by (auto simp: handlePost_def Let_def bind_eq_Some_conv dest!: handleSetup_cases
      split: if_splits option.splits prod.splits)

text \<open>
  C2: Whatever the request and the state, a response carries data, or the system is acted upon,
  only when the request passes the host and origin checks, its cookie names a live session and
  its header the token of this start. The password file changes only through setup, which asks
  for neither session nor token: for the host and origin checks, and that no password can be read
  from the file at that moment.
\<close>

theorem requests_guarded:
  assumes "ServeHTTP w r s auth = Some out"
  shows "(public (rs_body (oc_resp out)) \<and> oc_actions out = [] \<or> okOrigin r \<and> has_session w r s \<and> tokenOK s r)
    \<and> (oc_actions out = [] \<or> rq_method r = ''POST'' \<and> rq_path r = ''/api/toggle'')
    \<and> (oc_auth out = auth \<or> rq_method r = ''POST'' \<and> okOrigin r \<and> rq_path r = ''/api/setup''
         \<and> loadAuth (wo_json w) auth = None)"
proof (cases "rq_method r = ''GET''")
  case True
  obtain resp s' where g: "handleGet w r s auth = (resp, s')" by (cases "handleGet w r s auth")
  then have "out = post_outcome resp s' auth []" using assms True by (simp add: ServeHTTP_def)
  then show ?thesis using handleGet_private [OF g] by auto
next
  case False
  show ?thesis
  proof (cases "rq_method r = ''POST''")
    case True
    then have p: "handlePost w r s auth = Some out" using assms by (simp add: ServeHTTP_def)
    then show ?thesis using handlePost_private [OF p] handlePost_auth [OF p] True by blast
  next
    case False
    with assms \<open>rq_method r \<noteq> ''GET''\<close> show ?thesis by (auto simp: ServeHTTP_def)
  qed
qed

section \<open>Without the password\<close>

text \<open>A run serves requests one after the other; a panic leaves the state as it was.\<close>

fun serve :: "(world \<times> request) list \<Rightarrow> server \<Rightarrow> string option \<Rightarrow> outcome list" where
  "serve [] s auth = []"
| "serve ((w, r) # q) s auth =
     (case ServeHTTP w r s auth of
        None \<Rightarrow> serve q s auth
      | Some out \<Rightarrow> out # serve q (oc_server out) (oc_auth out))"

text \<open>The request is no login with a password that verifies.\<close>

definition wrong_guess :: "string option \<Rightarrow> world \<Rightarrow> request \<Rightarrow> bool" where
  "wrong_guess auth w r \<longleftrightarrow>
     (case readBody w r of
        None \<Rightarrow> True
      | Some body \<Rightarrow>
          verifyPw (wo_json w) (wo_hmac w) auth (or_empty (as_string (body ''password''))) \<noteq> Some True)"

definition locked_out :: "world \<Rightarrow> server \<Rightarrow> string option \<Rightarrow> outcome \<Rightarrow> bool" where
  "locked_out w s auth out \<longleftrightarrow>
     (\<exists>x. rs_body (oc_resp out) = Plain x) \<or> rs_body (oc_resp out) = Html (wo_loginPage w)"

text \<open>No token is live in the session table; the server only uses what a session table promises.\<close>

definition dead :: "server \<Rightarrow> bool" where
  "dead s \<longleftrightarrow> sessions.no_session (sv_sessions s)"

lemma authed_dead:
  assumes "dead s"
  obtains s' where "authed t r s = (False, s')" and "dead s'"
proof
  show "authed t r s = (False, snd (authed t r s))" "dead (snd (authed t r s))"
    using assms sessions.no_session_check by (simp_all add: prod_eq_iff dead_def)
qed

lemma serve_locked_out:
  assumes "ServeHTTP w r s auth = Some out" and "dead s"
    and "loadAuth (wo_json w) auth \<noteq> None" and "wrong_guess auth w r"
  shows "locked_out w s auth out \<and> oc_actions out = [] \<and> oc_auth out = auth \<and> dead (oc_server out)"
proof -
  from assms(2) obtain s1 where s1: "authed (wo_now w) r s = (False, s1)" "dead s1" by (rule authed_dead)
  have get: "handleGet w r s auth = (resp, s') \<Longrightarrow>
      dead s' \<and> ((\<exists>x. rs_body resp = Plain x) \<or> rs_body resp = Html (wo_loginPage w))" for resp s'
    using assms(2,3) s1 by (auto simp: handleGet_def Let_def split: if_splits)
  have login: "readBody w r = Some body \<Longrightarrow> handleLogin w body s auth = Some (resp, s') \<Longrightarrow>
      (\<exists>x. rs_body resp = Plain x) \<and> dead s'" for body resp s'
    using assms(2,4)
    by (auto simp: handleLogin_def wrong_guess_def bind_eq_Some_conv login_lock_def login_bad_def dead_def split: if_splits)
  have first_run: "handleSetup w body s auth = Some (resp, s', auth') \<Longrightarrow>
      (\<exists>x. rs_body resp = Plain x) \<and> s' = s \<and> auth' = auth" for body resp s' auth'
    using assms(3) by (auto simp: handleSetup_def)
  have post: "handlePost w r s auth = Some out \<Longrightarrow> ?thesis"
    using assms(2) s1
    by (auto simp: handlePost_def Let_def bind_eq_Some_conv locked_out_def dest: login first_run
        split: if_splits option.splits)
  show ?thesis
  proof (cases "rq_method r = ''GET''")
    case True
    obtain resp s' where g: "handleGet w r s auth = (resp, s')" by (cases "handleGet w r s auth")
    then have "out = post_outcome resp s' auth []" using assms(1) True by (simp add: ServeHTTP_def)
    then show ?thesis using get [OF g] assms(2) by (auto simp: locked_out_def)
  next
    case False
    then show ?thesis using assms(1,2) post by (auto simp: ServeHTTP_def locked_out_def split: if_splits)
  qed
qed

lemma run_locked_out:
  "dead s \<Longrightarrow>
   (\<forall>(w, r) \<in> set q. loadAuth (wo_json w) auth \<noteq> None \<and> wrong_guess auth w r) \<Longrightarrow>
   out \<in> set (serve q s auth) \<Longrightarrow>
   (\<exists>(w, r) \<in> set q. locked_out w s auth out) \<and> oc_actions out = [] \<and> oc_auth out = auth"
proof (induction q arbitrary: s)
  case Nil
  then show ?case by simp
next
  case (Cons p q)
  obtain w r where p: "p = (w, r)" by (cases p)
  show ?case
  proof (cases "ServeHTTP w r s auth")
    case None
    with Cons show ?thesis by (auto simp: p)
  next
    case (Some out1)
    have one: "locked_out w s auth out1 \<and> oc_actions out1 = [] \<and> oc_auth out1 = auth
        \<and> dead (oc_server out1)"
      using Cons.prems by (intro serve_locked_out [OF Some]) (simp_all add: p)
    then have "out = out1 \<or> out \<in> set (serve q (oc_server out1) auth)"
      using Cons.prems(3) by (simp add: p Some)
    then show ?thesis
    proof
      assume "out = out1"
      with one show ?thesis by (auto simp: p)
    next
      assume "out \<in> set (serve q (oc_server out1) auth)"
      with Cons.IH [of "oc_server out1"] Cons.prems(2) one show ?thesis
        by (auto simp: locked_out_def)
    qed
  qed
qed

text \<open>
  C1: From the start of a server with a password on file, as long as no login verifies, every
  response of every run is the login page or a line of plain text, nothing is done to the
  system, and the password file stays as it is.
\<close>

theorem no_password_no_access:
  assumes "newServer rand = Some s"
    and "\<forall>(w, r) \<in> set q. loadAuth (wo_json w) auth \<noteq> None \<and> wrong_guess auth w r"
    and "out \<in> set (serve q s auth)"
  shows "(\<exists>(w, r) \<in> set q. rs_body (oc_resp out) = Html (wo_loginPage w) \<or> (\<exists>x. rs_body (oc_resp out) = Plain x))
    \<and> oc_actions out = [] \<and> oc_auth out = auth"
proof -
  have "dead s"
    using assms(1) newSessionStore_dead by (auto simp: newServer_def dead_def split: option.splits)
  from run_locked_out [OF this assms(2,3)] show ?thesis by (auto simp: locked_out_def)
qed

section \<open>The throttle\<close>

text \<open>
  Logins one after the other, each with its time and whether its password verifies: the answer to
  each is whether the password was tried at all.
\<close>

fun logins :: "(int \<times> bool) list \<Rightarrow> server \<Rightarrow> bool list" where
  "logins [] s = []"
| "logins ((t, good) # ls) s =
     (if login_locked t s then False # logins ls s
      else True # logins ls (if good then login_good s else login_lock t (login_bad s)))"

lemma handleLogin_answer:
  assumes "verifyPw (wo_json w) (wo_hmac w) auth (or_empty (as_string (body ''password''))) = Some good"
  shows "\<exists>resp s'. handleLogin w body s auth = Some (resp, s')
    \<and> sv_failCount s' = sv_failCount (if login_locked (wo_now w) s then s else if good then login_good s else login_lock (wo_now w) (login_bad s))
    \<and> sv_failUntil s' = sv_failUntil (if login_locked (wo_now w) s then s else if good then login_good s else login_lock (wo_now w) (login_bad s))
    \<and> (rs_code resp = 429 \<longleftrightarrow> login_locked (wo_now w) s)"
  using assms
  by (auto simp: handleLogin_def issueSession_def sendJSON_def sendText_def send_def split: option.splits prod.splits)

text \<open>How many wrong and how many right passwords were tried.\<close>

definition tried :: "bool \<Rightarrow> (int \<times> bool) list \<Rightarrow> server \<Rightarrow> nat" where
  "tried right ls s = length (filter (\<lambda>((t, good), answer). answer \<and> good = right) (zip ls (logins ls s)))"

lemma tried_Cons:
  "tried right ((t, good) # ls) s =
     (if login_locked t s then tried right ls s
      else (if good = right then 1 else 0) + tried right ls (if good then login_good s else login_lock t (login_bad s)))"
  by (simp add: tried_def)

lemma tried_locked: "(\<forall>(t, good) \<in> set ls. t < sv_failUntil s) \<Longrightarrow> tried right ls s = 0"
  by (induction ls) (auto simp: tried_Cons login_locked_def, simp add: tried_def)

lemma tried_budget:
  "(\<forall>(t, good) \<in> set ls. t0 \<le> t \<and> t < t0 + 30 * 10 ^ 9) \<Longrightarrow> sv_failCount s < 5 \<Longrightarrow>
   sv_failCount s + tried False ls s \<le> 5 + 4 * tried True ls s"
proof (induction ls arbitrary: s)
  case Nil
  then show ?case by (simp add: tried_def)
next
  case (Cons p ls)
  obtain t good where p: "p = (t, good)" by (cases p)
  have t: "t0 \<le> t" "t < t0 + 30 * 10 ^ 9" and rest: "\<forall>(t, good) \<in> set ls. t0 \<le> t \<and> t < t0 + 30 * 10 ^ 9"
    using Cons.prems(1) by (auto simp: p)
  consider "login_locked t s" | "\<not> login_locked t s" good | "\<not> login_locked t s" "\<not> good" "sv_failCount s < 4"
    | "\<not> login_locked t s" "\<not> good" "sv_failCount s = 4"
    using Cons.prems(2) by linarith
  then show ?case
  proof cases
    case 1
    then show ?thesis using Cons.IH [OF rest Cons.prems(2)] by (simp add: p tried_Cons)
  next
    case 2
    then show ?thesis
      using Cons.IH [OF rest, of "login_good s"] Cons.prems(2) by (simp add: p tried_Cons login_good_def)
  next
    case 3
    then have "login_lock t (login_bad s) = login_bad s" "sv_failCount (login_bad s) = Suc (sv_failCount s)"
      by (simp_all add: login_lock_def login_bad_def)
    with Cons.IH [OF rest, of "login_bad s"] 3 show ?thesis by (simp add: p tried_Cons)
  next
    case 4
    have "\<forall>(t', good) \<in> set ls. t' < t + 30 * 10 ^ 9" using rest t by fastforce
    then have "tried right ls (login_lock t (login_bad s)) = 0" for right
      using 4 by (intro tried_locked) (auto simp: login_lock_def login_bad_def)
    with 4 show ?thesis by (simp add: p tried_Cons)
  qed
qed

text \<open>
  C19: When logins come one after the other, any thirty seconds see at most five wrong passwords
  tried, and four more for each right one tried in between, which clears the count. So without
  the password no more than five guesses are tried, however many arrive.
\<close>

theorem throttle_budget:
  assumes "\<forall>(t, good) \<in> set ls. t0 \<le> t \<and> t < t0 + 30 * 10 ^ 9" and "sv_failCount s < 5"
  shows "tried False ls s \<le> 5 + 4 * tried True ls s
    \<and> ((\<forall>(t, good) \<in> set ls. \<not> good) \<longrightarrow> tried False ls s \<le> 5)"
proof -
  have "(\<forall>(t, good) \<in> set ls. \<not> good) \<Longrightarrow> tried True ls s = 0" for s
    by (induction ls arbitrary: s) (auto simp: tried_Cons, simp add: tried_def)
  with tried_budget [OF assms] show ?thesis by force
qed

text \<open>The bound is met: four wrong, one right and five wrong are all tried.\<close>

lemma throttle_budget_tight:
  "\<not> login_locked t s \<Longrightarrow> sv_failCount s = 0 \<Longrightarrow>
   tried False (replicate 4 (t, False) @ (t, True) # replicate 5 (t, False)) s = 9"
  by (simp add: numeral_eq_Suc tried_Cons tried_def [of _ "[]"] login_locked_def login_good_def login_bad_def login_lock_def)

subsection \<open>Logins at the same time\<close>

text \<open>
  The handlers run concurrently: a login is admitted, counts its failure and closes the gate in
  three critical sections, with scrypt and half a second of sleep in between.
\<close>

datatype phase = Admitted int | Counted int

datatype login_event = Arrive nat int | Accept nat | Reject nat | Finish nat

inductive lstep :: "server \<times> (nat \<rightharpoonup> phase) \<Rightarrow> login_event \<Rightarrow> server \<times> (nat \<rightharpoonup> phase) \<Rightarrow> bool" where
  refuse: "login_locked t s \<Longrightarrow> lstep (s, run) (Arrive i t) (s, run)"
| admit: "\<not> login_locked t s \<Longrightarrow> run i = None \<Longrightarrow> lstep (s, run) (Arrive i t) (s, run(i \<mapsto> Admitted t))"
| accept: "run i = Some (Admitted t) \<Longrightarrow> lstep (s, run) (Accept i) (login_good s, run(i := None))"
| reject: "run i = Some (Admitted t) \<Longrightarrow> lstep (s, run) (Reject i) (login_bad s, run(i \<mapsto> Counted t))"
| finish: "run i = Some (Counted t) \<Longrightarrow> lstep (s, run) (Finish i) (login_lock t s, run(i := None))"

inductive lsteps :: "server \<times> (nat \<rightharpoonup> phase) \<Rightarrow> login_event list \<Rightarrow> server \<times> (nat \<rightharpoonup> phase) \<Rightarrow> bool" where
  none: "lsteps x [] x"
| more: "lstep x e y \<Longrightarrow> lsteps y es z \<Longrightarrow> lsteps x (e # es) z"

lemma lsteps_append: "lsteps x es y \<Longrightarrow> lsteps y fs z \<Longrightarrow> lsteps x (es @ fs) z"
  by (induction rule: lsteps.induct) (auto intro: lsteps.more)

lemma lsteps_one: "lstep x e y \<Longrightarrow> lsteps x [e] y"
  by (rule lsteps.more [OF _ lsteps.none])

text \<open>A login that runs alone is the sequential one.\<close>

lemma lsteps_alone:
  assumes "\<not> login_locked t s" and "run i = None"
  shows "lsteps (s, run) [Arrive i t, Reject i, Finish i] (login_lock t (login_bad s), run)"
    and "lsteps (s, run) [Arrive i t, Accept i] (login_good s, run)"
proof -
  have a: "lstep (s, run) (Arrive i t) (s, run(i \<mapsto> Admitted t))" using lstep.admit [of t s run i] assms by simp
  have r: "lstep (s, run(i \<mapsto> Admitted t)) (Reject i) (login_bad s, run(i \<mapsto> Counted t))"
    using lstep.reject [of "run(i \<mapsto> Admitted t)" i t s] by simp
  have f: "lstep (login_bad s, run(i \<mapsto> Counted t)) (Finish i) (login_lock t (login_bad s), run)"
    using lstep.finish [of "run(i \<mapsto> Counted t)" i t "login_bad s"] assms(2) by (simp add: fun_upd_idem)
  show "lsteps (s, run) [Arrive i t, Reject i, Finish i] (login_lock t (login_bad s), run)"
    by (rule lsteps.more [OF a lsteps.more [OF r lsteps_one [OF f]]])
  have "lstep (s, run(i \<mapsto> Admitted t)) (Accept i) (login_good s, run)"
    using lstep.accept [of "run(i \<mapsto> Admitted t)" i t s] assms(2) by (simp add: fun_upd_idem)
  then show "lsteps (s, run) [Arrive i t, Accept i] (login_good s, run)"
    by (rule lsteps.more [OF a lsteps_one])
qed

lemma all_admitted:
  assumes "\<not> login_locked t s"
  shows "lsteps (s, Map.empty) (map (\<lambda>i. Arrive i t) [0..<n]) (s, \<lambda>i. if i < n then Some (Admitted t) else None)"
proof (induction n)
  case 0
  show ?case using lsteps.none by (simp add: fun_eq_iff)
next
  case (Suc n)
  let ?r = "\<lambda>i. if i < n then Some (Admitted t) else None"
  have "lstep (s, ?r) (Arrive n t) (s, ?r(n \<mapsto> Admitted t))"
    by (rule lstep.admit [OF assms]) simp
  moreover have "?r(n \<mapsto> Admitted t) = (\<lambda>i. if i < Suc n then Some (Admitted t) else None)"
    by (auto simp: fun_eq_iff)
  ultimately show ?case using lsteps_append [OF Suc lsteps_one] by simp
qed

lemma all_tried:
  assumes "n \<le> m"
  shows "\<exists>s'. lsteps (s, \<lambda>i. if i < m then Some (Admitted t) else None) (map Reject [0..<n])
      (s', \<lambda>i. if i < n then Some (Counted t) else if i < m then Some (Admitted t) else None)
    \<and> sv_failUntil s' = sv_failUntil s"
  using assms
proof (induction n)
  case 0
  show ?case using lsteps.none by auto
next
  case (Suc n)
  let ?r = "\<lambda>i. if i < n then Some (Counted t) else if i < m then Some (Admitted t) else None"
  from Suc obtain s' where s': "lsteps (s, \<lambda>i. if i < m then Some (Admitted t) else None) (map Reject [0..<n]) (s', ?r)"
    "sv_failUntil s' = sv_failUntil s" by auto
  have "lstep (s', ?r) (Reject n) (login_bad s', ?r(n \<mapsto> Counted t))"
    using Suc.prems by (intro lstep.reject) simp
  moreover have "?r(n \<mapsto> Counted t) = (\<lambda>i. if i < Suc n then Some (Counted t) else if i < m then Some (Admitted t) else None)"
    by (auto simp: fun_eq_iff)
  ultimately have "lsteps (s, \<lambda>i. if i < m then Some (Admitted t) else None) (map Reject [0..<Suc n])
      (login_bad s', \<lambda>i. if i < Suc n then Some (Counted t) else if i < m then Some (Admitted t) else None)"
    using lsteps_append [OF s'(1) lsteps_one] by simp
  moreover have "sv_failUntil (login_bad s') = sv_failUntil s" using s'(2) by (simp add: login_bad_def)
  ultimately show ?case by blast
qed

text \<open>
  Any number of wrong passwords that arrive together are all tried, with the gate open as before:
  the count is looked at only after the half second of sleep.
\<close>

lemma concurrent_logins_not_throttled:
  assumes "\<not> login_locked t s"
  shows "\<exists>s' run. lsteps (s, Map.empty) (map (\<lambda>i. Arrive i t) [0..<n] @ map Reject [0..<n]) (s', run)
    \<and> (\<forall>i<n. run i = Some (Counted t)) \<and> \<not> login_locked t s'"
proof -
  obtain s' where "lsteps (s, \<lambda>i. if i < n then Some (Admitted t) else None) (map Reject [0..<n])
      (s', \<lambda>i. if i < n then Some (Counted t) else if i < n then Some (Admitted t) else None)"
    and "sv_failUntil s' = sv_failUntil s"
    using all_tried [of n n s t] by auto
  then show ?thesis
    using lsteps_append [OF all_admitted [OF assms]] assms by (fastforce simp: login_locked_def)
qed

section \<open>Setup and the report\<close>

text \<open>A password file that cannot be read or decoded opens the first-run page again.\<close>

lemma unreadable_file_reopens_setup:
  assumes "loadAuth (wo_json w) auth = None" and "body ''password'' = Some (JString pw)" and "8 \<le> length pw"
    and "saveAuth (wo_json w) (wo_hmac w) (wo_salt w) (wo_fs w) pw auth = Some (True, auth')" and "wo_rand w = Some raw"
  shows "\<exists>resp s'. handleSetup w body s auth = Some (resp, s', auth') \<and> rs_code resp = 200
    \<and> sv_sessions s' (RawURLEncoding_EncodeToString raw) = Some (wo_end w + sessionTTL)"
  using assms
  by (simp add: handleSetup_def as_string_def issueSession_def session_create_def sendJSON_def marshals_def send_def Let_def)

lemma report_has_kept_rows:
  assumes "row \<in> set (keep_last n (List.map_filter buf_row (tail e (bufLog e) 6000)))"
  shows "row \<in> set (report e n)"
  using assms by (auto simp: report_def report_rows_def Let_def)

text \<open>
  C35: An authorised request for the report gets the report when all its times are finite, and an
  internal error otherwise; one line in the shell's buffer log, a file of the user, with a time
  that reads as infinity or NaN is enough, as long as it is among the lines kept.
\<close>

theorem report_needs_finite_times:
  assumes "ServeHTTP w r s auth = Some out" and "rq_method r = ''GET''" and "rq_path r = ''/api/report''"
    and "okOrigin r" and "has_session w r s" and "tokenOK s r"
    and "n = clamp (queryInt r ''n'' 25) 1 200"
  shows "(if \<forall>row \<in> set (report (wo_env w) n). is_finite (rr_ts row)
      then oc_resp out = send 200 ''application/json'' (ReportDoc (report (wo_env w) n)) ''''
      else oc_resp out = sendText 500 ''internal error'')
    \<and> (\<forall>row \<in> set (keep_last n (List.map_filter buf_row (tail (wo_env w) (bufLog (wo_env w)) 6000))).
         is_finite (rr_ts row) \<or> rs_code (oc_resp out) = 500)"
proof -
  obtain ok s1 where a: "authed (wo_now w) r s = (ok, s1)" by (cases "authed (wo_now w) r s")
  then have ok: "ok" "tokenOK s1 r"
    using assms(5,6) authed_simps(1) [of "wo_now w" r s] tokenOK_authed [of "wo_now w" r s] by (simp_all add: has_session_def)
  have "handleGet w r s auth = (api_get w r, s1)"
    using assms(3,4) ok by (simp add: handleGet_def a)
  then have "oc_resp out = api_get w r" using assms(1,2) by (auto simp: ServeHTTP_def)
  then have "oc_resp out = sendJSON 200 (ReportDoc (report (wo_env w) n)) ''''"
    using assms(3,7) by (simp add: api_get_def)
  then show ?thesis
    using report_has_kept_rows [of _ n "wo_env w"]
    by (auto simp: sendJSON_def marshals_def list_all_iff sendText_def send_def)
qed

section \<open>Examples\<close>

text \<open>
  A system with a buffer log of one line, its time infinite; a password file whose hash does not
  decode; a request of the browser on this host.
\<close>

definition ex_webenv :: webenv where
  "ex_webenv =
     \<lparr>we_home = ''/h'', we_stat = (\<lambda>_. None),
      we_read = (\<lambda>p. if p = ''/h/.local/share/linaudit/buffer.log''
        then Inr (join [CHR 9] [''a'', ''inf'', ''b'', ''c'', ''BUFFER'', ''id''] @ [CHR 10]) else Inl ''no such file''),
      we_active = (\<lambda>_. False), we_journal = (\<lambda>_. Inr ''''), we_now = 0\<rparr>"

definition ex_world :: "procenv \<Rightarrow> world" where
  "ex_world e =
     \<lparr>wo_json = simple_json, wo_hmac = constant_hmac, wo_decode = (\<lambda>s. Some (Some [''password'' \<mapsto> JString s])),
      wo_setupPage = ''first'', wo_loginPage = ''login'', wo_DashboardHTML = ''__TOKEN__'',
      wo_env = ex_webenv, wo_after = ex_webenv, wo_net = empty_snapshot, wo_proc = state0 e,
      wo_now = 10, wo_end = 11, wo_rand = None, wo_salt = None, wo_fs = good_fs, wo_creates = True\<rparr>"

definition ex_request :: "string \<Rightarrow> string \<Rightarrow> string \<Rightarrow> request" where
  "ex_request meth path tok =
     \<lparr>rq_method = meth, rq_Host = ''localhost:8799'', rq_Origin = '''', rq_SecFetchSite = ''same-origin'',
      rq_AuditToken = tok, rq_cookie = Some ''c'', rq_path = path, rq_query = (\<lambda>_. ''''), rq_body = Some ''guess''\<rparr>"

definition ex_server :: server where
  "ex_server = \<lparr>sv_token = ''t'', sv_sessions = [''c'' \<mapsto> 20], sv_failCount = 0, sv_failUntil = zeroTime\<rparr>"

definition ex_auth :: string where
  "ex_auth = concat (map put_field [''AAAA'', ''A'', Itoa 2, Itoa 1, Itoa 1])"

lemma dec_port: "dec server_port = ''8799''"
  by code_simp

lemma ex_request_ok: "okOrigin (ex_request meth path tok)"
  by (simp add: okOrigin_def ex_request_def allowedHosts_def dec_port)

lemma ex_session: "has_session (ex_world e) (ex_request meth path tok) ex_server"
  by (simp add: has_session_def ex_world_def ex_request_def ex_server_def cookieSession_def session_ok_def)

lemma ex_token: "tokenOK ex_server (ex_request meth path tok) \<longleftrightarrow> tok = ''t''"
  by (auto simp: tokenOK_def ex_server_def ex_request_def ConstantTimeCompare_def)

lemma ex_request_method: "rq_method (ex_request meth path tok) = meth" "rq_path (ex_request meth path tok) = path"
  by (simp_all add: ex_request_def)

lemma get_answered: "rq_method r = ''GET'' \<Longrightarrow> \<exists>out. ServeHTTP w r s auth = Some out"
  by (simp add: ServeHTTP_def split_beta)

theorem requests_guarded_witness:
  "\<exists>out. ServeHTTP (ex_world ex_procenv) (ex_request ''GET'' ''/api/status'' ''wrong'') ex_server None = Some out
     \<and> public (rs_body (oc_resp out)) \<and> oc_actions out = [] \<and> oc_auth out = None"
proof -
  let ?r = "ex_request ''GET'' ''/api/status'' ''wrong''"
  obtain out where out: "ServeHTTP (ex_world ex_procenv) ?r ex_server None = Some out"
    using get_answered [of ?r] ex_request_method by blast
  from requests_guarded [OF this] show ?thesis
    using out ex_token [of "''GET''" "''/api/status''" "''wrong''"] by (auto simp: ex_request_def)
qed

lemma ex_auth_loads: "loadAuth simple_json (Some ex_auth) =
    Some \<lparr>au_Salt = ''AAAA'', au_Hash = ''A'', au_N = 2, au_R = 1, au_P = 1\<rparr>"
  using get_put_field [of "Itoa 1" "[]"]
  by (simp add: loadAuth_def simple_json_def ex_auth_def Atoi_Itoa)

lemma ex_wrong_guess: "wrong_guess (Some ex_auth) (ex_world e) r"
proof -
  have "StdEncoding_DecodeString ''A'' = None" by (simp add: StdEncoding_DecodeString_def)
  then have "verifyPw simple_json h (Some ex_auth) pw \<noteq> Some True" for h pw
    by (simp add: verifyPw_def ex_auth_loads split: option.splits)
  then show ?thesis by (simp add: wrong_guess_def ex_world_def split: option.splits)
qed

theorem no_password_no_access_witness:
  "\<exists>s out. newServer (Some [1, 2, 3]) = Some s
     \<and> out \<in> set (serve [(ex_world ex_procenv, ex_request ''POST'' ''/api/login'' ''t'')] s (Some ex_auth))
     \<and> oc_auth out = Some ex_auth \<and> oc_actions out = []"
proof -
  let ?w = "ex_world ex_procenv" and ?r = "ex_request ''POST'' ''/api/login'' ''t''"
  obtain s where s: "newServer (Some [1, 2, 3]) = Some s" and "sv_failUntil s = zeroTime" by (simp add: newServer_def)
  then have "\<not> login_locked 10 s" by (simp add: login_locked_def zeroTime_def)
  have "verifyPw simple_json constant_hmac (Some ex_auth) ''guess'' = Some False"
    by (simp add: verifyPw_def ex_auth_loads StdEncoding_DecodeString_def split: option.splits)
  moreover note \<open>\<not> login_locked 10 s\<close>
  moreover have "TrimSpace ''guess'' = ''guess''" by (simp add: TrimSpace_def is_space_def)
  ultimately obtain out where out: "ServeHTTP ?w ?r s (Some ex_auth) = Some out"
    using ex_request_ok [of "''POST''" "''/api/login''" "''t''"]
    by (simp add: ServeHTTP_def handlePost_def readBody_def handleLogin_def as_string_def or_empty_def ex_world_def
        ex_request_def split: if_splits)
  have "\<forall>(w, r) \<in> set [(?w, ?r)]. loadAuth (wo_json w) (Some ex_auth) \<noteq> None \<and> wrong_guess (Some ex_auth) w r"
    using ex_wrong_guess by (simp add: ex_world_def ex_auth_loads)
  from no_password_no_access [OF s this, of out] s out show ?thesis by auto
qed

theorem throttle_budget_witness:
  "tried False [(1, False), (2, False), (3, False), (4, False), (5, False), (6, False), (7, False)] ex_server \<le> 5"
proof -
  let ?ls = "[(1, False), (2, False), (3, False), (4, False), (5, False), (6, False), (7, False)] :: (int \<times> bool) list"
  have "tried False ?ls ex_server \<le> 5 + 4 * tried True ?ls ex_server
      \<and> ((\<forall>(t, good) \<in> set ?ls. \<not> good) \<longrightarrow> tried False ?ls ex_server \<le> 5)"
    by (rule throttle_budget [where ?t0.0 = 0]) (simp_all add: ex_server_def)
  then show ?thesis by simp
qed

theorem report_needs_finite_times_witness:
  "\<exists>out. ServeHTTP (ex_world ex_procenv) (ex_request ''GET'' ''/api/report'' ''t'') ex_server None = Some out
     \<and> rs_code (oc_resp out) = 500"
proof -
  let ?r = "ex_request ''GET'' ''/api/report'' ''t''" and ?w = "ex_world ex_procenv"
  obtain out where out: "ServeHTTP ?w ?r ex_server None = Some out"
    using get_answered [of ?r] ex_request_method by blast
  have m: "rq_method ?r = ''GET''" "rq_path ?r = ''/api/report''" by (simp_all add: ex_request_def)
  let ?rows = "keep_last 25 (List.map_filter buf_row (tail ex_webenv (bufLog ex_webenv) 6000))"
  have "list_ex (\<lambda>row. \<not> is_finite (rr_ts row)) ?rows" by code_simp
  then obtain row where row: "row \<in> set ?rows" "\<not> is_finite (rr_ts row)" by (auto simp: list_ex_iff)
  have n: "25 = clamp (queryInt ?r ''n'' 25) 1 200" by (simp add: ex_request_def queryInt_def clamp_def)
  have "wo_env ?w = ex_webenv" by (simp add: ex_world_def)
  with report_needs_finite_times [OF out m ex_request_ok ex_session _ n] row ex_token out show ?thesis by auto
qed

end
