(* ===== verification/Effects.thy ===== *)
theory Effects
  imports GoStrings
begin

text \<open>
  Code that is a sequence of commands and system calls: the outcome of an operation is asked of a
  function of everything done before, a step appends to the trace and may stop the sequence with
  an error, as \<^verbatim>\<open>if err != nil { return err }\<close> does. A relation \<open>only\<close> says which operations a
  step performs; its rules follow the structure of a step.
\<close>

type_synonym 'op trace = "('op \<times> bool) list"
type_synonym 'op step = "'op trace \<Rightarrow> string option \<times> 'op trace"

definition perform :: "('op trace \<Rightarrow> 'op \<Rightarrow> string option) \<Rightarrow> 'op \<Rightarrow> 'op step" where
  "perform f p tr = (let r = f tr p in (r, tr @ [(p, r = None)]))"

text \<open>An operation whose error is wrapped and returned, one whose error is dropped, and a sequence with early return.\<close>

definition act :: "('op trace \<Rightarrow> 'op \<Rightarrow> string option) \<Rightarrow> 'op \<Rightarrow> string \<Rightarrow> 'op step" where
  "act f p what tr = (case perform f p tr of (r, tr') \<Rightarrow> (map_option (\<lambda>e. what @ '': '' @ e) r, tr'))"

definition quiet :: "('op trace \<Rightarrow> 'op \<Rightarrow> string option) \<Rightarrow> 'op \<Rightarrow> 'op step" where
  "quiet f p tr = (None, snd (perform f p tr))"

definition skip :: "'op step" where
  "skip tr = (None, tr)"

fun steps :: "'op step list \<Rightarrow> 'op step" where
  "steps [] tr = (None, tr)"
| "steps (a # as) tr =
     (case a tr of (Some err, tr') \<Rightarrow> (Some err, tr') | (None, tr') \<Rightarrow> steps as tr')"

lemma steps_append:
  "steps (as @ bs) tr = (case steps as tr of (Some err, tr') \<Rightarrow> (Some err, tr') | (None, tr') \<Rightarrow> steps bs tr')"
  by (induction as arbitrary: tr) (auto split: prod.splits option.splits)

text \<open>A step only appends to the trace, and only operations of one kind.\<close>

definition only :: "('op \<Rightarrow> bool) \<Rightarrow> 'op step \<Rightarrow> bool" where
  "only P a \<longleftrightarrow> (\<forall>tr. \<exists>ext. snd (a tr) = tr @ ext \<and> list_all (P \<circ> fst) ext)"

named_theorems only_intros \<open>which operations a step performs\<close>

lemma onlyI: "(\<And>tr. \<exists>ext. snd (a tr) = tr @ ext \<and> list_all (P \<circ> fst) ext) \<Longrightarrow> only P a"
  by (simp add: only_def)

lemma onlyD: "only P a \<Longrightarrow> a tr = (r, tr') \<Longrightarrow> \<exists>ext. tr' = tr @ ext \<and> list_all (P \<circ> fst) ext"
  by (metis only_def snd_conv)

lemma only_act [only_intros]: "P p \<Longrightarrow> only P (act f p what)"
  by (intro onlyI) (simp add: act_def perform_def Let_def)

lemma only_quiet [only_intros]: "P p \<Longrightarrow> only P (quiet f p)"
  by (intro onlyI) (simp add: quiet_def perform_def Let_def)

lemma only_none [only_intros]: "only P (\<lambda>tr. (f tr, tr))"
  by (intro onlyI) simp

lemma only_skip [only_intros]: "only P skip"
  by (intro onlyI) (simp add: skip_def)

lemma only_if [only_intros]: "only P a \<Longrightarrow> only P b \<Longrightarrow> only P (\<lambda>tr. if c tr then a tr else b tr)"
  by (auto simp: only_def)

lemma only_steps_Nil [only_intros]: "only P (steps [])"
  by (intro onlyI) simp

lemma only_steps_Cons [only_intros]:
  assumes "only P a" and "only P (steps as)"
  shows "only P (steps (a # as))"
proof (rule onlyI)
  fix tr
  obtain r tr1 where a: "a tr = (r, tr1)" by (cases "a tr")
  with assms(1) obtain e1 where e1: "tr1 = tr @ e1" "list_all (P \<circ> fst) e1" by (blast dest: onlyD)
  obtain r2 tr2 where as: "steps as tr1 = (r2, tr2)" by (cases "steps as tr1")
  with assms(2) obtain e2 where e2: "tr2 = tr1 @ e2" "list_all (P \<circ> fst) e2" by (blast dest: onlyD)
  show "\<exists>ext. snd (steps (a # as) tr) = tr @ ext \<and> list_all (P \<circ> fst) ext"
  proof (cases r)
    case None
    then have "snd (steps (a # as) tr) = tr @ e1 @ e2" using a as e1 e2 by simp
    moreover have "list_all (P \<circ> fst) (e1 @ e2)" using e1 e2 by simp
    ultimately show ?thesis by blast
  next
    case (Some err)
    then have "snd (steps (a # as) tr) = tr @ e1" using a e1 by simp
    then show ?thesis using e1 by blast
  qed
qed

end
