(* ===== verification/Storage.thy ===== *)
theory Storage
  imports Effects
begin

text \<open>
  Model of \<^verbatim>\<open>storage/store.go\<close>: the commands and system calls that bring the encrypted store up,
  take it down and create it, in the order of the code with every early return, and the parser
  of \<^verbatim>\<open>/proc/mounts\<close>. The host is a parameter: what an operation returns and what a look at the
  system shows may depend on everything done before. A run returns its error and its trace.
\<close>

section \<open>Constants and paths\<close>

definition IMG :: string where "IMG = ''/var/lib/linaudit/store.img''"
definition CRED :: string where "CRED = ''/etc/linaudit/store.key.cred''"
definition MAP :: string where "MAP = ''linaudit_store''"
definition MNT :: string where "MNT = ''/var/log/linaudit''"
definition keyTmp :: string where "keyTmp = ''/run/audit-keytmp''"
definition imgSize :: int where "imgSize = 2 ^ 30"

definition mapperPath :: string where
  "mapperPath = ''/dev/mapper/'' @ MAP"

definition octal :: "nat \<Rightarrow> nat \<Rightarrow> nat \<Rightarrow> nat" where
  "octal a b c = a * 64 + b * 8 + c"

section \<open>The host\<close>

datatype op =
    MkdirAll string nat
  | Chown string int int
  | Chmod string nat
  | Run string "string list"
  | MakePipe
  | ClosePipe
  | Start string "string list"
  | Wait string "string list"
  | OpenFile string bool bool nat
  | Truncate string int
  | Write string nat
  | Sync string
  | Close string
  | Remove string
  | Print string
  | Warn string

type_synonym otrace = "op trace"

text \<open>
  \<open>h_do\<close> is the error of an operation, \<open>h_stat\<close> the mode and size of a path, \<open>h_mounts\<close> the
  content of \<^verbatim>\<open>/proc/mounts\<close> and whether reading it went through, \<open>h_ids\<close> the monitored user.
\<close>

record host =
  h_do :: "otrace \<Rightarrow> op \<Rightarrow> string option"
  h_stat :: "otrace \<Rightarrow> string \<Rightarrow> (string \<times> int) option"
  h_mounts :: "otrace \<Rightarrow> (string \<times> bool) option"
  h_lookpath :: "string \<Rightarrow> bool"
  h_ids :: "(int \<times> int) option"
  h_rand :: "string option"

type_synonym ostep = "op step"

definition exists :: "host \<Rightarrow> otrace \<Rightarrow> string \<Rightarrow> bool" where
  "exists h tr path \<longleftrightarrow> h_stat h tr path \<noteq> None"

definition run :: "host \<Rightarrow> string \<Rightarrow> string list \<Rightarrow> ostep" where
  "run h name args = act (h_do h) (Run name args) (name @ '' '' @ join '' '' args)"

definition preflight :: "host \<Rightarrow> string list \<Rightarrow> ostep" where
  "preflight h tools tr =
     (let missing = filter (\<lambda>t. \<not> h_lookpath h t) tools
      in (if missing \<noteq> [] then Some (''required tool(s) not found in PATH: '' @ join '', '' missing) else None, tr))"

definition tpmPresent :: "host \<Rightarrow> otrace \<Rightarrow> bool" where
  "tpmPresent h tr \<longleftrightarrow> exists h tr ''/dev/tpmrm0'' \<or> exists h tr ''/dev/tpm0''"

section \<open>Mount points\<close>

text \<open>\<^verbatim>\<open>ParseUint(s, 8, 8)\<close> on three characters.\<close>

definition octal_byte :: "char \<Rightarrow> char \<Rightarrow> char \<Rightarrow> nat option" where
  "octal_byte a b c =
     (if list_all (\<lambda>d. is_digit d \<and> digit_val d < 8) [a, b, c]
      then let v = digit_val a * 64 + digit_val b * 8 + digit_val c in if v < 256 then Some v else None
      else None)"

fun unescapeMount :: "string \<Rightarrow> string" where
  "unescapeMount (x # a # b # c # s) =
     (if x = CHR 0x5C then
        (case octal_byte a b c of
           Some v \<Rightarrow> char_of v # unescapeMount s
         | None \<Rightarrow> x # unescapeMount (a # b # c # s))
      else x # unescapeMount (a # b # c # s))"
| "unescapeMount (x # s) = x # unescapeMount s"
| "unescapeMount [] = []"

text \<open>\<open>Some b\<close> when the scan reaches a match or the end without an error.\<close>

fun scan_mounts :: "string \<Rightarrow> string list \<Rightarrow> bool" where
  "scan_mounts target [] = False"
| "scan_mounts target (line # ls) =
     (let fields = Fields line in
      if length fields < 2 then scan_mounts target ls
      else if unescapeMount (fields ! 1) = target then True
      else scan_mounts target ls)"

definition mountpointFromProc :: "(string \<times> bool) option \<Rightarrow> string \<Rightarrow> bool option" where
  "mountpointFromProc mounts target =
     (case mounts of
        None \<Rightarrow> None
      | Some (text, readable) \<Rightarrow>
          (let (lines, fits) = scan_lines (2 ^ 20) text in
           if scan_mounts target lines then Some True
           else if fits \<and> readable then Some False else None))"

text \<open>The error of the check, or its answer.\<close>

definition isMountpoint :: "host \<Rightarrow> otrace \<Rightarrow> string \<Rightarrow> string + bool" where
  "isMountpoint h tr path =
     (let clean = path_Clean path in
      case mountpointFromProc (h_mounts h tr) clean of
        Some match \<Rightarrow> Inr match
      | None \<Rightarrow> Inl (''cannot determine mountpoint status of '' @ clean @ '': /proc/mounts unavailable''))"

section \<open>Up and down\<close>

definition decrypt_args :: "string list" where
  "decrypt_args = [''decrypt'', ''--name=auditstore'', CRED, ''-'']"

definition open_args :: "string list" where
  "open_args = [''open'', ''--type'', ''luks2'', ''--key-file=-'', IMG, MAP]"

text \<open>The producer is waited for first; its error wins.\<close>

definition wait_both :: "host \<Rightarrow> ostep" where
  "wait_both h tr =
     (let (decryptErr, tr) = perform (h_do h) (Wait ''systemd-creds'' decrypt_args) tr;
          (openErr, tr) = perform (h_do h) (Wait ''cryptsetup'' open_args) tr
      in (case decryptErr of
            Some e \<Rightarrow> (Some (''systemd-creds decrypt: '' @ e), tr)
          | None \<Rightarrow> (map_option (\<lambda>e. ''cryptsetup open: '' @ e) openErr, tr)))"

definition start_decrypt :: "host \<Rightarrow> ostep" where
  "start_decrypt h tr =
     (case perform (h_do h) (Start ''systemd-creds'' decrypt_args) tr of
        (None, tr) \<Rightarrow> (None, tr)
      | (Some e, tr) \<Rightarrow>
          let tr = snd (perform (h_do h) ClosePipe tr); tr = snd (perform (h_do h) (Wait ''cryptsetup'' open_args) tr)
          in (Some (''start systemd-creds decrypt: '' @ e), tr))"

definition decryptAndOpen :: "host \<Rightarrow> ostep" where
  "decryptAndOpen h =
     steps [act (h_do h) MakePipe ''systemd-creds stdout pipe'',
       act (h_do h) (Start ''cryptsetup'' open_args) ''start cryptsetup open'',
       start_decrypt h, wait_both h]"

definition inputDir :: string where "inputDir = path_Join [MNT, ''input'']"
definition shellDir :: string where "shellDir = path_Join [MNT, ''shell'']"

definition mount_step :: "host \<Rightarrow> ostep" where
  "mount_step h tr =
     (case isMountpoint h tr MNT of
        Inl err \<Rightarrow> (Some (''mountpoint check '' @ MNT @ '': '' @ err), tr)
      | Inr mounted \<Rightarrow> if \<not> mounted then run h ''mount'' [mapperPath, MNT] tr else (None, tr))"

definition own_shell_dir :: "host \<Rightarrow> ostep" where
  "own_shell_dir h =
     (case h_ids h of
        Some (uid, gid) \<Rightarrow> act (h_do h) (Chown shellDir uid gid) (''chown '' @ shellDir)
      | None \<Rightarrow> quiet (h_do h) (Warn (''linaudit store: monitored user unresolved (set LINAUDIT_USER); leaving ''
          @ shellDir @ '' root-owned (0700)'' @ [CHR 10])))"

definition Up :: "host \<Rightarrow> ostep" where
  "Up h =
     steps [preflight h [''systemd-creds'', ''cryptsetup'', ''mount''],
       (\<lambda>tr. if \<not> exists h tr mapperPath then decryptAndOpen h tr else skip tr),
       act (h_do h) (MkdirAll MNT (octal 7 5 5)) (''mkdir '' @ MNT),
       mount_step h,
       act (h_do h) (MkdirAll inputDir (octal 7 0 0)) (''mkdir '' @ inputDir),
       act (h_do h) (MkdirAll shellDir (octal 7 0 0)) (''mkdir '' @ shellDir),
       act (h_do h) (Chown inputDir 0 0) (''chown '' @ inputDir),
       act (h_do h) (Chmod inputDir (octal 7 0 0)) (''chmod '' @ inputDir),
       act (h_do h) (Chmod shellDir (octal 7 0 0)) (''chmod '' @ shellDir),
       own_shell_dir h]"

definition Down :: "host \<Rightarrow> ostep" where
  "Down h =
     steps [quiet (h_do h) (Run ''umount'' [MNT]),
       (\<lambda>tr. if exists h tr mapperPath then quiet (h_do h) (Run ''cryptsetup'' [''close'', MAP]) tr else skip tr)]"

section \<open>Init\<close>

text \<open>An operation on an open file; the file is closed when it fails.\<close>

definition or_close :: "host \<Rightarrow> op \<Rightarrow> string \<Rightarrow> string \<Rightarrow> ostep" where
  "or_close h p what path tr =
     (case act (h_do h) p what tr of
        (None, tr) \<Rightarrow> (None, tr)
      | (Some e, tr) \<Rightarrow> (Some e, snd (perform (h_do h) (Close path) tr)))"

definition createImage :: "host \<Rightarrow> ostep" where
  "createImage h =
     steps [act (h_do h) (OpenFile IMG True False (octal 6 0 0)) (''create '' @ IMG),
       or_close h (Truncate IMG imgSize) (''truncate '' @ IMG) IMG,
       act (h_do h) (Close IMG) (''close '' @ IMG),
       act (h_do h) (Chmod IMG (octal 6 0 0)) (''chmod '' @ IMG)]"

definition writeKey :: "host \<Rightarrow> ostep" where
  "writeKey h =
     steps [(\<lambda>tr. (map_option (\<lambda>e. ''generate key: '' @ e) (h_rand h), tr)),
       act (h_do h) (OpenFile keyTmp True True (octal 6 0 0)) (''create '' @ keyTmp),
       or_close h (Write keyTmp 64) (''write '' @ keyTmp) keyTmp,
       act (h_do h) (Close keyTmp) (''close '' @ keyTmp),
       act (h_do h) (Chmod keyTmp (octal 6 0 0)) (''chmod '' @ keyTmp)]"

function zero_loop :: "host \<Rightarrow> string \<Rightarrow> nat \<Rightarrow> nat \<Rightarrow> otrace \<Rightarrow> otrace" where
  "zero_loop h path sz written tr =
     (if written < sz then
        let n = min 4096 (sz - written) in
        (case perform (h_do h) (Write path n) tr of
           (Some e, tr) \<Rightarrow> tr
         | (None, tr) \<Rightarrow> zero_loop h path sz (written + n) tr)
      else tr)"
  by pat_completeness auto
termination
  by (relation "measure (\<lambda>(h, path, sz, written, tr). sz - written)") auto

declare zero_loop.simps [simp del]

definition shred :: "host \<Rightarrow> string \<Rightarrow> otrace \<Rightarrow> otrace" where
  "shred h path tr =
     (case h_stat h tr path of
        None \<Rightarrow> snd (perform (h_do h) (Remove path) tr)
      | Some (mode, sz) \<Rightarrow>
          let tr = (if sz > 0 then
              (case perform (h_do h) (OpenFile path False False 0) tr of
                 (Some e, tr) \<Rightarrow> tr
               | (None, tr) \<Rightarrow>
                   let tr = zero_loop h path (nat sz) 0 tr; tr = snd (perform (h_do h) (Sync path) tr)
                   in snd (perform (h_do h) (Close path) tr))
            else tr)
          in snd (perform (h_do h) (Remove path) tr))"

definition make_fs :: "host \<Rightarrow> ostep" where
  "make_fs h tr =
     (case run h ''mkfs.ext4'' [''-q'', ''-L'', ''linaudit'', mapperPath] tr of
        (None, tr) \<Rightarrow> (None, tr)
      | (Some e, tr) \<Rightarrow> (Some e, snd (run h ''cryptsetup'' [''close'', MAP] tr)))"

definition seal :: "host \<Rightarrow> ostep" where
  "seal h tr =
     (let (keyMode, tr) =
        (if \<not> tpmPresent h tr
         then (''--with-key=host'', snd (perform (h_do h) (Warn (''linaudit store: no TPM2 device (/dev/tpmrm0); sealing the key to the HOST only (no TPM binding).''
           @ [CHR 10])) tr))
         else (''--with-key=host+tpm2'', tr))
      in run h ''systemd-creds'' [''encrypt'', ''--name=auditstore'', keyMode, keyTmp, CRED] tr)"

text \<open>\<^verbatim>\<open>%10d\<close>.\<close>

definition pad10 :: "string \<Rightarrow> string" where
  "pad10 s = replicate (10 - length s) (CHR '' '') @ s"

fun printListing :: "host \<Rightarrow> string list \<Rightarrow> ostep" where
  "printListing h [] tr = (None, tr)"
| "printListing h (p # ps) tr =
     (case h_stat h tr p of
        None \<Rightarrow> printListing h ps tr
      | Some (mode, sz) \<Rightarrow>
          printListing h ps (snd (perform (h_do h) (Print (mode @ '' '' @ pad10 (Itoa sz) @ '' '' @ p @ [CHR 10])) tr)))"

text \<open>What follows the staging of the key, with the deferred removal of the key at every return.\<close>

definition with_key :: "host \<Rightarrow> ostep" where
  "with_key h tr =
     (let (r, tr) = steps [run h ''cryptsetup'' [''luksFormat'', ''--type'', ''luks2'', ''--batch-mode'', ''--key-file='' @ keyTmp, IMG],
            run h ''cryptsetup'' [''open'', ''--type'', ''luks2'', ''--key-file='' @ keyTmp, IMG, MAP],
            make_fs h,
            run h ''cryptsetup'' [''close'', MAP],
            seal h,
            act (h_do h) (Chmod CRED (octal 6 0 0)) (''chmod '' @ CRED),
            (\<lambda>tr. (None, shred h keyTmp tr)),
            quiet (h_do h) (Print (''OK: created '' @ IMG @ '' (LUKS2) and sealed key -> '' @ CRED @ [CHR 10])),
            printListing h [IMG, CRED]] tr
      in (r, shred h keyTmp tr))"

definition create_store :: "host \<Rightarrow> ostep" where
  "create_store h =
     steps [preflight h [''cryptsetup'', ''mkfs.ext4'', ''systemd-creds''], createImage h, writeKey h, with_key h]"

definition unless_exists :: "host \<Rightarrow> ostep" where
  "unless_exists h tr =
     (if exists h tr IMG
      then quiet (h_do h) (Print (''store already exists: '' @ IMG @ '' (leaving as-is)'' @ [CHR 10])) tr
      else create_store h tr)"

definition Init :: "host \<Rightarrow> ostep" where
  "Init h =
     steps [act (h_do h) (MkdirAll ''/var/lib/linaudit'' (octal 7 0 0)) ''mkdir /var/lib/linaudit'',
       act (h_do h) (MkdirAll ''/etc/linaudit'' (octal 7 0 0)) ''mkdir /etc/linaudit'',
       act (h_do h) (Chmod ''/var/lib/linaudit'' (octal 7 0 0)) ''chmod /var/lib/linaudit'',
       act (h_do h) (Chmod ''/etc/linaudit'' (octal 7 0 0)) ''chmod /etc/linaudit'',
       unless_exists h]"

section \<open>Runs\<close>

lemma only_run [only_intros]: "P (Run c args) \<Longrightarrow> only P (run h c args)"
  unfolding run_def by (rule only_act)

lemma only_preflight [only_intros]: "only P (preflight h tools)"
  by (intro onlyI) (simp add: preflight_def Let_def)

lemma only_or_close [only_intros]: "P p \<Longrightarrow> P (Close path) \<Longrightarrow> only P (or_close h p what path)"
  by (intro onlyI) (simp add: or_close_def act_def perform_def Let_def split: option.split)

section \<open>The store goes up only when mounted\<close>

text \<open>The operations that lay out the directories of the logs.\<close>

definition lays_out :: "op \<Rightarrow> bool" where
  "lays_out p =
     (case p of
        MkdirAll d m \<Rightarrow> d = inputDir \<or> d = shellDir
      | Chown d uid gid \<Rightarrow> d = inputDir \<or> d = shellDir
      | Chmod d m \<Rightarrow> d = inputDir \<or> d = shellDir
      | _ \<Rightarrow> False)"

lemma dirs: "inputDir = ''/var/log/linaudit/input''" "shellDir = ''/var/log/linaudit/shell''"
  by code_simp+

lemma lays_out_simps [simp]:
  "lays_out (MkdirAll d m) \<longleftrightarrow> d = inputDir \<or> d = shellDir" "\<not> lays_out (Run c args)" "\<not> lays_out MakePipe"
  "\<not> lays_out ClosePipe" "\<not> lays_out (Start c args)" "\<not> lays_out (Wait c args)"
  by (simp_all add: lays_out_def)

lemma MNT_other: "MNT \<noteq> inputDir" "MNT \<noteq> shellDir"
  by (simp_all add: dirs MNT_def)

lemma only_wait_both [only_intros]: "(\<And>c args. P (Wait c args)) \<Longrightarrow> only P (wait_both h)"
  by (intro onlyI) (simp add: wait_both_def perform_def Let_def split: option.split)

lemma only_start_decrypt [only_intros]:
  "P (Start ''systemd-creds'' decrypt_args) \<Longrightarrow> P ClosePipe \<Longrightarrow> (\<And>c args. P (Wait c args)) \<Longrightarrow> only P (start_decrypt h)"
  by (intro onlyI) (simp add: start_decrypt_def perform_def Let_def split: option.split)

lemma only_decryptAndOpen: "only (\<lambda>p. \<not> lays_out p) (decryptAndOpen h)"
  unfolding decryptAndOpen_def by (intro only_intros) simp_all

lemma only_mount_step: "only (\<lambda>p. \<not> lays_out p) (mount_step h)"
  by (intro onlyI) (simp add: mount_step_def run_def act_def perform_def Let_def split: sum.split)

definition before_layout :: "host \<Rightarrow> ostep list" where
  "before_layout h =
     [preflight h [''systemd-creds'', ''cryptsetup'', ''mount''],
      (\<lambda>tr. if \<not> exists h tr mapperPath then decryptAndOpen h tr else skip tr),
      act (h_do h) (MkdirAll MNT (octal 7 5 5)) (''mkdir '' @ MNT)]"

definition layout_steps :: "host \<Rightarrow> ostep list" where
  "layout_steps h =
     [act (h_do h) (MkdirAll inputDir (octal 7 0 0)) (''mkdir '' @ inputDir),
      act (h_do h) (MkdirAll shellDir (octal 7 0 0)) (''mkdir '' @ shellDir),
      act (h_do h) (Chown inputDir 0 0) (''chown '' @ inputDir),
      act (h_do h) (Chmod inputDir (octal 7 0 0)) (''chmod '' @ inputDir),
      act (h_do h) (Chmod shellDir (octal 7 0 0)) (''chmod '' @ shellDir),
      own_shell_dir h]"

lemma Up_parts: "Up h = steps (before_layout h @ mount_step h # layout_steps h)"
  by (simp add: Up_def before_layout_def layout_steps_def)

lemma only_before_layout: "only (\<lambda>p. \<not> lays_out p) (steps (before_layout h))"
  unfolding before_layout_def
  by (intro only_intros only_decryptAndOpen) (simp_all add: MNT_other)

lemma only_layout: "only (\<lambda>p. True) (steps (layout_steps h))"
  unfolding layout_steps_def own_shell_dir_def
  by (cases "h_ids h") (auto intro!: only_intros split: prod.split)

lemma Clean_MNT: "path_Clean MNT = MNT"
  by code_simp

lemma first_layout:
  assumes "list_all ((\<lambda>p. \<not> lays_out p) \<circ> fst) as" and "i < length (as @ bs)" and "lays_out (fst ((as @ bs) ! i))"
  shows "length as \<le> i"
  using assms by (force simp: list_all_iff nth_append split: if_splits)

text \<open>A host on which everything works and nothing is mounted yet.\<close>

definition ex_host :: host where
  "ex_host =
     \<lparr>h_do = (\<lambda>_ _. None), h_stat = (\<lambda>_ _. None), h_mounts = (\<lambda>_. Some ('''', True)), h_lookpath = (\<lambda>_. True),
      h_ids = None, h_rand = None\<rparr>"

lemma ex_mounts: "mountpointFromProc (Some ('''', True)) MNT = Some False"
  by code_simp

section \<open>The staged key\<close>

definition is_run :: "op \<Rightarrow> bool" where
  "is_run p = (case p of Run c args \<Rightarrow> True | _ \<Rightarrow> False)"

lemma is_run_simps [simp]:
  "is_run (Run c args)" "\<not> is_run (MkdirAll d m)" "\<not> is_run (Chmod d m)" "\<not> is_run (OpenFile d a b m)"
  "\<not> is_run (Truncate d n)" "\<not> is_run (Write d k)" "\<not> is_run (Close d)" "\<not> is_run (Print x)"
  by (simp_all add: is_run_def)

lemma shred_removes: "\<exists>b. last (shred h path tr) = (Remove path, b)"
  by (auto simp: shred_def perform_def Let_def split: option.split prod.split)

lemma only_before_key: "only (\<lambda>p. \<not> is_run p) (steps [preflight h ts, createImage h, writeKey h])"
  unfolding createImage_def writeKey_def by (intro only_intros) simp_all

definition make_dirs :: "host \<Rightarrow> ostep list" where
  "make_dirs h =
     [act (h_do h) (MkdirAll ''/var/lib/linaudit'' (octal 7 0 0)) ''mkdir /var/lib/linaudit'',
      act (h_do h) (MkdirAll ''/etc/linaudit'' (octal 7 0 0)) ''mkdir /etc/linaudit'',
      act (h_do h) (Chmod ''/var/lib/linaudit'' (octal 7 0 0)) ''chmod /var/lib/linaudit'',
      act (h_do h) (Chmod ''/etc/linaudit'' (octal 7 0 0)) ''chmod /etc/linaudit'']"

lemma only_make_dirs: "only (\<lambda>p. \<not> is_run p) (steps (make_dirs h))"
  unfolding make_dirs_def by (intro only_intros) simp_all

lemma create_store_parts:
  "create_store h = steps ([preflight h [''cryptsetup'', ''mkfs.ext4'', ''systemd-creds''], createImage h, writeKey h] @ [with_key h])"
  by (simp add: create_store_def)

lemma create_store_ends:
  assumes "list_all ((\<lambda>p. \<not> is_run p) \<circ> fst) tr" and "create_store h tr = (r, tr')"
  shows "list_all ((\<lambda>p. \<not> is_run p) \<circ> fst) tr' \<or> (\<exists>b. last tr' = (Remove keyTmp, b))"
proof -
  let ?pre = "steps [preflight h [''cryptsetup'', ''mkfs.ext4'', ''systemd-creds''], createImage h, writeKey h]"
  obtain r1 tr1 where p: "?pre tr = (r1, tr1)" by (cases "?pre tr")
  have t1: "list_all ((\<lambda>p. \<not> is_run p) \<circ> fst) tr1"
    using onlyD [OF only_before_key p] assms(1) by auto
  show ?thesis
  proof (cases r1)
    case None
    then have "with_key h tr1 = (r, tr')"
      using assms(2) p unfolding create_store_parts by (subst (asm) steps_append) (simp split: prod.splits option.splits)
    then show ?thesis using shred_removes by (auto simp: with_key_def Let_def split: prod.splits)
  next
    case (Some e)
    then have "tr' = tr1"
      using assms(2) p unfolding create_store_parts by (subst (asm) steps_append) simp
    then show ?thesis using t1 by simp
  qed
qed

text \<open>
  C12: Once an external command has been run during the creation of the store, and the key is handed
  to one only then, the run ends, however it ends, by removing the staged key.
\<close>

theorem init_removes_staged_key:
  assumes "Init h [] = (r, tr)" and "(Run c args, b) \<in> set tr"
  shows "\<exists>b. last tr = (Remove keyTmp, b)"
proof -
  obtain r1 tr1 where d: "steps (make_dirs h) [] = (r1, tr1)" by (cases "steps (make_dirs h) []")
  have t1: "list_all ((\<lambda>p. \<not> is_run p) \<circ> fst) tr1"
    using onlyD [OF only_make_dirs d] by auto
  have "Init h = steps (make_dirs h @ [unless_exists h])" by (simp add: Init_def make_dirs_def)
  then have i: "Init h [] = (case r1 of Some e \<Rightarrow> (Some e, tr1) | None \<Rightarrow> unless_exists h tr1)"
    by (simp add: steps_append d split: option.split prod.split)
  have has: "\<not> list_all ((\<lambda>p. \<not> is_run p) \<circ> fst) tr"
    using assms(2) by (force simp: list_all_iff)
  then have "tr \<noteq> tr1" using t1 by blast
  then have l: "unless_exists h tr1 = (r, tr)"
    using assms(1) by (simp add: i split: option.splits)
  show ?thesis
  proof (cases "exists h tr1 IMG")
    case True
    with l have "list_all ((\<lambda>p. \<not> is_run p) \<circ> fst) tr"
      using t1 by (auto simp: unless_exists_def quiet_def perform_def Let_def)
    with has show ?thesis by contradiction
  next
    case False
    with l have "create_store h tr1 = (r, tr)" by (simp add: unless_exists_def)
    with create_store_ends [OF t1] has show ?thesis by blast
  qed
qed

text \<open>A failure of the last call of the staging leaves the whole key behind.\<close>

definition chmod_fails :: host where
  "chmod_fails = ex_host\<lparr>h_do := (\<lambda>_ p. if p = Chmod keyTmp (octal 6 0 0) then Some ''denied'' else None)\<rparr>"

lemma failed_staging_leaves_key:
  "\<exists>r tr. Init chmod_fails [] = (Some r, tr) \<and> (Write keyTmp 64, True) \<in> set tr
     \<and> list_all (\<lambda>(p, b). p \<noteq> Remove keyTmp) tr"
  by (simp add: chmod_fails_def Init_def unless_exists_def create_store_def createImage_def writeKey_def or_close_def act_def perform_def
      Let_def exists_def preflight_def ex_host_def IMG_def keyTmp_def octal_def)

text \<open>An image left by a run that failed later makes every next run report success.\<close>

lemma init_takes_any_image_for_a_store:
  assumes "\<forall>tr. exists h tr IMG" and "\<forall>tr p. h_do h tr p = None"
  shows "\<exists>tr. Init h [] = (None, tr) \<and> list_all ((\<lambda>p. \<not> is_run p) \<circ> fst) tr"
  using assms by (simp add: Init_def unless_exists_def act_def perform_def quiet_def Let_def)

theorem init_removes_staged_key_witness:
  "\<exists>r tr b. Init ex_host [] = (r, tr) \<and> last tr = (Remove keyTmp, b)"
proof -
  obtain r tr where i: "Init ex_host [] = (r, tr)" by (cases "Init ex_host []")
  then have "(Run ''cryptsetup'' [''close'', MAP], True) \<in> set tr"
    by (auto simp: Init_def unless_exists_def create_store_def createImage_def writeKey_def with_key_def or_close_def
        act_def run_def quiet_def perform_def make_fs_def seal_def tpmPresent_def exists_def preflight_def ex_host_def
        shred_def Let_def)
  from init_removes_staged_key [OF i this] i show ?thesis by blast
qed

section \<open>The table of mounts\<close>

text \<open>The kernel writes a space, tab, newline or backslash of a name as an octal escape.\<close>

definition mangled :: "char \<Rightarrow> bool" where
  "mangled c \<longleftrightarrow> ord c \<in> {9, 10, 32, 92 :: nat}"

definition mangle :: "string \<Rightarrow> string" where
  "mangle s =
     concat (map (\<lambda>c. if mangled c
       then [CHR 0x5C, digit_char (ord c div 64), digit_char (ord c div 8 mod 8), digit_char (ord c mod 8)] else [c]) s)"

lemma unescape_plain: "c \<noteq> CHR 0x5C \<Longrightarrow> unescapeMount (c # s) = c # unescapeMount s"
  by (cases "c # s" rule: unescapeMount.cases) auto

lemma octal_byte_ord:
  "mangled c \<Longrightarrow> octal_byte (digit_char (ord c div 64)) (digit_char (ord c div 8 mod 8)) (digit_char (ord c mod 8)) = Some (ord c)"
  by (auto simp: mangled_def octal_byte_def)

lemma unescape_mangle: "unescapeMount (mangle s) = s"
proof (induction s)
  case Nil
  show ?case by (simp add: mangle_def)
next
  case (Cons c s)
  show ?case
  proof (cases "mangled c")
    case True
    then show ?thesis using Cons octal_byte_ord [OF True] by (simp add: mangle_def)
  next
    case False
    then have "c \<noteq> CHR 0x5C" by (auto simp: mangled_def)
    then show ?thesis using Cons False by (simp add: mangle_def unescape_plain)
  qed
qed

text \<open>Names of ASCII characters without the white space that the kernel does not escape.\<close>

definition mount_name :: "string \<Rightarrow> bool" where
  "mount_name s \<longleftrightarrow> s \<noteq> '''' \<and> list_all (\<lambda>c. ord c < (128 :: nat) \<and> ord c \<notin> {11, 12, 13 :: nat}) s"

lemma plain_mangle:
  assumes "mount_name s"
  shows "plain_word (mangle s)"
proof -
  have char: "list_all (\<lambda>c. ord c < (128 :: nat) \<and> \<not> is_space (ord c))
      (if mangled c then [CHR 0x5C, digit_char (ord c div 64), digit_char (ord c div 8 mod 8), digit_char (ord c mod 8)] else [c])"
    if "ord c < (128 :: nat)" "ord c \<notin> {11, 12, 13 :: nat}" for c
    using that by (auto simp: mangled_def is_space_def)
  have concat: "list_all P (concat (map f xs)) \<longleftrightarrow> list_all (\<lambda>c. list_all P (f c)) xs" for P and f :: "char \<Rightarrow> string" and xs
    by (induction xs) simp_all
  have "list_all (\<lambda>c. ord c < (128 :: nat) \<and> \<not> is_space (ord c)) (mangle s)"
    using assms char unfolding mount_name_def mangle_def concat by (simp only: list_all_iff) blast
  moreover have "mangle s \<noteq> ''''" using assms by (cases s) (simp_all add: mount_name_def mangle_def)
  ultimately show ?thesis by (simp add: plain_word_def)
qed

definition mount_line :: "string \<times> string \<times> string \<Rightarrow> string" where
  "mount_line m = (case m of (dev, target, rest) \<Rightarrow> mangle dev @ '' '' @ mangle target @ '' '' @ rest)"

definition mounts_text :: "(string \<times> string \<times> string) list \<Rightarrow> string" where
  "mounts_text ms = concat (map (\<lambda>m. mount_line m @ [CHR 10]) ms)"

definition mount_ok :: "string \<times> string \<times> string \<Rightarrow> bool" where
  "mount_ok m = (case m of (dev, target, rest) \<Rightarrow>
     mount_name dev \<and> mount_name target \<and> CHR 10 \<notin> set rest \<and> rest \<noteq> '''' \<and> ord (last rest) \<noteq> (13 :: nat)
     \<and> length (mount_line m) < 2 ^ 20)"

lemma Fields_mount_line:
  assumes "mount_ok (dev, target, rest)"
  shows "Fields (mount_line (dev, target, rest)) = mangle dev # mangle target # Fields rest"
  using assms plain_mangle by (simp add: mount_ok_def mount_line_def Fields_word is_space_def)

lemma mount_line_plain:
  assumes "mount_ok m"
  shows "CHR 10 \<notin> set (mount_line m)" and "drop_cr (mount_line m) = mount_line m"
proof -
  obtain dev target rest where m: "m = (dev, target, rest)" by (cases m)
  have "CHR 10 \<notin> set (mangle s)" if "mount_name s" for s
    using plain_mangle [OF that] by (auto simp: plain_word_def is_space_def list_all_iff)
  with assms show "CHR 10 \<notin> set (mount_line m)" by (auto simp: m mount_ok_def mount_line_def)
  show "drop_cr (mount_line m) = mount_line m"
    using assms by (auto simp: m mount_ok_def mount_line_def drop_cr_def)
qed

lemma scan_lines_mounts:
  assumes "\<forall>m\<in>set ms. mount_ok m"
  shows "scan_lines (2 ^ 20) (mounts_text ms) = (map mount_line ms, True)"
proof -
  have "\<forall>l \<in> set (map mount_line ms). CHR 10 \<notin> set l \<and> drop_cr l = l \<and> length l < 2 ^ 20"
    using assms mount_line_plain by (auto simp: mount_ok_def)
  from scan_lines_text [OF this] show ?thesis by (simp add: mounts_text_def comp_def)
qed

lemma mount_table_read:
  assumes "\<forall>m\<in>set ms. mount_ok m"
  shows "mountpointFromProc (Some (mounts_text ms, True)) target = Some (target \<in> (fst \<circ> snd) ` set ms)"
proof -
  have "scan_mounts target (map mount_line ms) \<longleftrightarrow> target \<in> (fst \<circ> snd) ` set ms"
    using assms
  proof (induction ms)
    case (Cons m ms)
    obtain dev tgt rest where m: "m = (dev, tgt, rest)" by (cases m)
    with Cons show ?case by (auto simp: Fields_mount_line unescape_mangle)
  qed simp
  then show ?thesis
    by (simp only: mountpointFromProc_def scan_lines_mounts [OF assms] option.case prod.case Let_def) simp
qed

text \<open>
  C36: On the table the kernel prints for any list of mounts whose names are not empty and ASCII
  without vertical tab, form feed or carriage return, and whose lines are shorter than the buffer
  of the scanner, the check answers whether some mount has the path as its target, spaces, tabs,
  newlines and backslashes in the names included.
\<close>

theorem mountpoint_exact:
  assumes "\<forall>m\<in>set ms. mount_ok m"
  shows "mountpointFromProc (Some (mounts_text ms, True)) target = Some (target \<in> (fst \<circ> snd) ` set ms)"
  by (rule mount_table_read [OF assms])

theorem mountpoint_exact_witness:
  "mountpointFromProc (Some (mounts_text [(''tmpfs'', ''/mnt/a b'', ''tmpfs rw 0 0''), (''m'', MNT, ''ext4 rw 0 0'')], True)) MNT = Some True"
proof -
  have "\<forall>m\<in>set [(''tmpfs'', ''/mnt/a b'', ''tmpfs rw 0 0''), (''m'', MNT, ''ext4 rw 0 0'')]. mount_ok m"
    by code_simp
  from mountpoint_exact [OF this] show ?thesis by simp
qed

text \<open>
  \<^verbatim>\<open>strings.Fields\<close> splits at any Unicode white space, and the kernel escapes none beyond ASCII:
  the name of a user's own mount, with a no-break space in it, passes for the store.
\<close>

lemma foreign_mount_taken_for_store:
  "mountpointFromProc (Some (mangle (''x'' @ [CHR 0xC2, CHR 0xA0] @ MNT) @ '' /home/u/m fuse.x rw 0 0'' @ [CHR 10], True)) MNT
     = Some True"
  by code_simp

section \<open>The store is mounted before it is laid out\<close>

text \<open>
  The kernel prints a list of mounts, at every moment, or the table cannot be opened; the names
  are of the kind that the parser reads back.
\<close>

definition kernel_table :: "host \<Rightarrow> (otrace \<Rightarrow> (string \<times> string \<times> string) list) \<Rightarrow> bool" where
  "kernel_table h ms \<longleftrightarrow>
     (\<forall>tr. (\<forall>m \<in> set (ms tr). mount_ok m) \<and> (h_mounts h tr = Some (mounts_text (ms tr), True) \<or> h_mounts h tr = None))"

text \<open>
  At some moment up to the end of the trace the kernel had a mount on the mount point of the
  store, or the mount command of the mapped device on it has succeeded.
\<close>

definition store_mounted :: "(otrace \<Rightarrow> (string \<times> string \<times> string) list) \<Rightarrow> otrace \<Rightarrow> bool" where
  "store_mounted ms tr \<longleftrightarrow>
     (\<exists>k \<le> length tr. \<exists>(dev, target, rest) \<in> set (ms (take k tr)). target = MNT)
     \<or> (Run ''mount'' [mapperPath, MNT], True) \<in> set tr"

lemma mount_step_answers:
  "mountpointFromProc (h_mounts h tr) MNT = Some True \<Longrightarrow> mount_step h tr = (None, tr)"
  "mountpointFromProc (h_mounts h tr) MNT = Some False \<Longrightarrow> mount_step h tr = run h ''mount'' [mapperPath, MNT] tr"
  "mountpointFromProc (h_mounts h tr) MNT = None \<Longrightarrow> fst (mount_step h tr) \<noteq> None"
  by (simp_all add: mount_step_def isMountpoint_def Clean_MNT)

lemma run_done: "run h name args tr = (None, tr') \<Longrightarrow> (Run name args, True) \<in> set tr'"
  by (auto simp: run_def act_def perform_def Let_def)

lemma mount_step_mounted:
  assumes "kernel_table h ms" and "mount_step h tr = (None, tr')"
  shows "store_mounted ms tr'"
proof (cases "mountpointFromProc (h_mounts h tr) MNT")
  case None
  then show ?thesis using mount_step_answers(3) [of h tr] assms(2) by simp
next
  case (Some mounted)
  have "h_mounts h tr = Some (mounts_text (ms tr), True) \<or> h_mounts h tr = None" and ok: "\<forall>m \<in> set (ms tr). mount_ok m"
    using assms(1) by (auto simp: kernel_table_def)
  then have mounted: "mounted = (MNT \<in> (fst \<circ> snd) ` set (ms tr))"
    using mount_table_read [OF ok, of MNT] Some by (auto simp: mountpointFromProc_def)
  show ?thesis
  proof (cases mounted)
    case True
    then have "tr' = tr" using mount_step_answers(1) [of h tr] assms(2) Some by simp
    moreover have "\<exists>(dev, target, rest) \<in> set (ms (take (length tr) tr)). target = MNT"
      using True unfolding mounted by force
    ultimately show ?thesis unfolding store_mounted_def by blast
  next
    case False
    then have "run h ''mount'' [mapperPath, MNT] tr = (None, tr')"
      using mount_step_answers(2) [of h tr] assms(2) Some by simp
    from run_done [OF this] show ?thesis by (simp add: store_mounted_def)
  qed
qed

lemma store_mounted_append: "store_mounted ms as \<Longrightarrow> length as \<le> i \<Longrightarrow> store_mounted ms (take i (as @ bs))"
proof -
  assume seen: "store_mounted ms as" and i: "length as \<le> i"
  have "store_mounted ms (as @ cs)" for cs
  proof (cases "(Run ''mount'' [mapperPath, MNT], True) \<in> set as")
    case True
    then show ?thesis by (simp add: store_mounted_def)
  next
    case False
    then obtain k where k: "k \<le> length as" "\<exists>(dev, target, rest) \<in> set (ms (take k as)). target = MNT"
      using seen by (auto simp: store_mounted_def)
    then have "take k (as @ cs) = take k as" "k \<le> length (as @ cs)" by simp_all
    with k(2) show ?thesis unfolding store_mounted_def by metis
  qed
  moreover have "take i (as @ bs) = as @ take (i - length as) bs" using i by simp
  ultimately show "store_mounted ms (take i (as @ bs))" by simp
qed

text \<open>
  C8: Bringing the store up never lays out the log directories on the bare file system: before any
  creation, change of owner or change of mode of the two directories, the kernel has had a mount
  on the mount point or the mount command has succeeded. This holds whatever the host answers,
  on the condition that the mount table, whenever it can be opened, is the kernel's print of
  mounts whose names are ASCII without vertical tab, form feed or carriage return; which device
  is mounted there the code does not ask.
\<close>

theorem up_lays_out_only_when_mounted:
  assumes "kernel_table h ms" and "Up h [] = (r, tr)" and "i < length tr" and "lays_out (fst (tr ! i))"
  shows "store_mounted ms (take i tr)"
proof -
  obtain r1 tr1 where b: "steps (before_layout h) [] = (r1, tr1)" by (cases "steps (before_layout h) []")
  have t1: "list_all ((\<lambda>p. \<not> lays_out p) \<circ> fst) tr1"
    using onlyD [OF only_before_layout b] by auto
  obtain r2 tr2 where m: "mount_step h tr1 = (r2, tr2)" by (cases "mount_step h tr1")
  have t2: "list_all ((\<lambda>p. \<not> lays_out p) \<circ> fst) tr2"
    using onlyD [OF only_mount_step m] t1 by auto
  obtain r3 tr3 where l: "steps (layout_steps h) tr2 = (r3, tr3)" by (cases "steps (layout_steps h) tr2")
  have up: "Up h [] = (case r1 of Some e \<Rightarrow> (Some e, tr1) | None \<Rightarrow> (case r2 of Some e \<Rightarrow> (Some e, tr2) | None \<Rightarrow> (r3, tr3)))"
    by (simp add: Up_parts steps_append b m l split: option.split)
  have "\<not> list_all ((\<lambda>p. \<not> lays_out p) \<circ> fst) tr"
    using assms(3,4) by (auto simp: list_all_length)
  with up assms(2) t1 t2 have ok: "r1 = None" "r2 = None" "tr = tr3" by (auto split: option.splits)
  then have "store_mounted ms tr2" using mount_step_mounted [OF assms(1)] m by blast
  moreover obtain ext where "tr3 = tr2 @ ext" using onlyD [OF only_layout l] by blast
  moreover from this have "length tr2 \<le> i"
    using first_layout [OF t2] assms(3,4) ok(3) by simp
  ultimately show ?thesis using store_mounted_append ok(3) by simp
qed

theorem up_lays_out_only_when_mounted_witness:
  "\<exists>r tr. Up ex_host [] = (r, tr) \<and> lays_out (fst (tr ! 7)) \<and> store_mounted (\<lambda>_. []) (take 7 tr)"
proof -
  have k: "kernel_table ex_host (\<lambda>_. [])" by (simp add: kernel_table_def ex_host_def mounts_text_def)
  obtain r tr where up: "Up ex_host [] = (r, tr)" by (cases "Up ex_host []")
  then have "7 < length tr \<and> tr ! 7 = (MkdirAll inputDir (octal 7 0 0), True)"
    by (auto simp: Up_def ex_host_def preflight_def decryptAndOpen_def start_decrypt_def wait_both_def exists_def act_def
        perform_def Let_def mount_step_def isMountpoint_def Clean_MNT ex_mounts run_def own_shell_dir_def quiet_def)
  then have "7 < length tr" "lays_out (fst (tr ! 7))" by simp_all
  with up_lays_out_only_when_mounted [OF k up this] up show ?thesis by blast
qed

end
