(* ===== verification/Identity.thy ===== *)
theory Identity
  imports GoStrings
begin

text \<open>
  Model of \<^verbatim>\<open>identity/identity.go\<close>: who the monitored user is. The environment variables, the
  account database, the process and the owner of the shell log directory are a parameter.
\<close>

record account =
  ac_Username :: string
  ac_Uid :: string
  ac_Gid :: string
  ac_HomeDir :: string

text \<open>\<open>ie_passwd\<close> is the content of \<^verbatim>\<open>/etc/passwd\<close> when it can be opened.\<close>

record idenv =
  ie_env :: "string \<Rightarrow> string"
  ie_lookup :: "string \<Rightarrow> account option"
  ie_lookupId :: "string \<Rightarrow> account option"
  ie_euid :: int
  ie_current :: "account option"
  ie_owner :: "string \<Rightarrow> nat option"
  ie_passwd :: "string option"

definition shellLogDir :: string where
  "shellLogDir = ''/var/log/linaudit/shell''"

definition nonLoginShells :: "string list" where
  "nonLoginShells = [''/usr/sbin/nologin'', ''/sbin/nologin'', ''/usr/bin/nologin'', ''/bin/false'', ''/usr/bin/false'', '''']"

definition lookupValid :: "idenv \<Rightarrow> string \<Rightarrow> account option" where
  "lookupValid e name = (if name = '''' then None else ie_lookup e name)"

definition ownerOfShellDir :: "idenv \<Rightarrow> string" where
  "ownerOfShellDir e =
     (case ie_owner e shellLogDir of
        None \<Rightarrow> ''''
      | Some uid \<Rightarrow>
          if uid = 0 then ''''
          else case ie_lookupId e (dec uid) of None \<Rightarrow> '''' | Some u \<Rightarrow> ac_Username u)"

text \<open>The name of a regular login account, from one line of the file.\<close>

definition login_name :: "string \<Rightarrow> string option" where
  "login_name line =
     (let fields = split_on (CHR '':'') line in
      if length fields < 7 then None
      else case Atoi (fields ! 2) of
          None \<Rightarrow> None
        | Some uid \<Rightarrow>
            if uid < 1000 \<or> uid > 60000 then None
            else if fields ! 6 \<in> set nonLoginShells then None
            else Some (fields ! 0))"

fun sole_loop :: "string \<Rightarrow> string list \<Rightarrow> string" where
  "sole_loop found [] = found"
| "sole_loop found (line # ls) =
     (case login_name line of
        None \<Rightarrow> sole_loop found ls
      | Some name \<Rightarrow> if found \<noteq> '''' then '''' else sole_loop name ls)"

text \<open>The scanner of the code has the default buffer of 64 KiB and its error is not looked at.\<close>

definition soleLoginUserFrom :: "string \<Rightarrow> string" where
  "soleLoginUserFrom text = sole_loop '''' (fst (scan_lines 65536 text))"

definition soleLoginUser :: "idenv \<Rightarrow> string" where
  "soleLoginUser e = (case ie_passwd e of None \<Rightarrow> '''' | Some text \<Rightarrow> soleLoginUserFrom text)"

definition last_resorts :: "idenv \<Rightarrow> string" where
  "last_resorts e = (let name = ownerOfShellDir e in if name \<noteq> '''' then name else soleLoginUser e)"

definition from_process :: "idenv \<Rightarrow> string" where
  "from_process e =
     (if ie_euid e \<noteq> 0 then
        (case ie_current e of
           None \<Rightarrow> last_resorts e
         | Some u \<Rightarrow> if ac_Username u \<noteq> '''' \<and> ac_Username u \<noteq> ''root'' then ac_Username u else last_resorts e)
      else last_resorts e)"

definition User :: "idenv \<Rightarrow> string" where
  "User e =
     (case lookupValid e (ie_env e ''LINAUDIT_USER'') of
        Some u \<Rightarrow> ac_Username u
      | None \<Rightarrow>
          (let s = ie_env e ''SUDO_USER'' in
           if s \<noteq> '''' \<and> s \<noteq> ''root'' then
             (case lookupValid e s of Some u \<Rightarrow> ac_Username u | None \<Rightarrow> from_process e)
           else from_process e))"

definition Home :: "idenv \<Rightarrow> string" where
  "Home e = (case lookupValid e (User e) of None \<Rightarrow> '''' | Some u \<Rightarrow> ac_HomeDir u)"

definition IDs :: "idenv \<Rightarrow> (int \<times> int) option" where
  "IDs e =
     (case lookupValid e (User e) of
        None \<Rightarrow> None
      | Some u \<Rightarrow>
          (case (Atoi (ac_Uid u), Atoi (ac_Gid u)) of
             (Some ui, Some gi) \<Rightarrow> if ui = 0 then None else Some (ui, gi)
           | _ \<Rightarrow> None))"

section \<open>The sole login account\<close>

definition login_names :: "string list \<Rightarrow> string list" where
  "login_names lines = List.map_filter login_name lines"

lemma sole_loop_found:
  "found \<noteq> '''' \<Longrightarrow> sole_loop found ls = (if login_names ls = [] then found else '''')"
  by (induction ls) (auto simp: login_names_def split: option.splits)

lemma sole_loop_none:
  "\<forall>name \<in> set (login_names ls). name \<noteq> '''' \<Longrightarrow>
     sole_loop '''' ls = (case login_names ls of [name] \<Rightarrow> name | _ \<Rightarrow> '''')"
proof (induction ls)
  case Nil
  show ?case by (simp add: login_names_def)
next
  case (Cons l ls)
  show ?case
  proof (cases "login_name l")
    case None
    then show ?thesis using Cons by (simp add: login_names_def)
  next
    case (Some name)
    then have names: "login_names (l # ls) = name # login_names ls" by (simp add: login_names_def)
    then have "name \<noteq> ''''" using Cons.prems by simp
    with Some names show ?thesis by (simp add: sole_loop_found split: list.split)
  qed
qed

text \<open>
  The account file as it is written: accounts of seven fields, and lines of fewer fields, which
  the format has for included databases and comments.
\<close>

record passwd_entry =
  pe_name :: string
  pe_password :: string
  pe_uid :: nat
  pe_gid :: string
  pe_gecos :: string
  pe_home :: string
  pe_shell :: string

datatype passwd_line = Account passwd_entry | Short string

fun passwd_string :: "passwd_line \<Rightarrow> string" where
  "passwd_string (Account e) =
     join '':'' [pe_name e, pe_password e, dec (pe_uid e), pe_gid e, pe_gecos e, pe_home e, pe_shell e]"
| "passwd_string (Short s) = s"

definition passwd_text :: "passwd_line list \<Rightarrow> string" where
  "passwd_text ls = concat (map (\<lambda>l. passwd_string l @ [CHR 10]) ls)"

fun passwd_ok :: "passwd_line \<Rightarrow> bool" where
  "passwd_ok (Account e) \<longleftrightarrow>
     list_all (\<lambda>f. CHR '':'' \<notin> set f) [pe_name e, pe_password e, pe_gid e, pe_gecos e, pe_home e, pe_shell e]
     \<and> pe_name e \<noteq> [] \<and> pe_uid e < 2 ^ 32"
| "passwd_ok (Short s) \<longleftrightarrow> count_list s (CHR '':'') < 6"

definition line_fits :: "string \<Rightarrow> bool" where
  "line_fits l \<longleftrightarrow> CHR 10 \<notin> set l \<and> (l = [] \<or> ord (last l) \<noteq> (13 :: nat)) \<and> length l < 64 * 1024"

text \<open>A person's account: a number from 1000 to 60000 and a shell that one can log in with.\<close>

definition person :: "passwd_entry \<Rightarrow> bool" where
  "person e \<longleftrightarrow> 1000 \<le> pe_uid e \<and> pe_uid e \<le> 60000 \<and>
     pe_shell e \<notin> {[], ''/bin/false'', ''/usr/bin/false'', ''/sbin/nologin'', ''/usr/sbin/nologin'', ''/usr/bin/nologin''}"

fun person_name :: "passwd_line \<Rightarrow> string option" where
  "person_name (Account e) = (if person e then Some (pe_name e) else None)"
| "person_name (Short s) = None"

lemma login_name_line:
  assumes "passwd_ok l"
  shows "login_name (passwd_string l) = person_name l"
proof (cases l)
  case (Short s)
  then show ?thesis using assms by (simp add: login_name_def length_split_on Let_def)
next
  case (Account e)
  have digits: "CHR '':'' \<notin> set (dec (pe_uid e))"
    using dec_digits [of "pe_uid e"] by (auto simp: list_all_iff is_digit_def)
  have s: "split_on (CHR '':'') (passwd_string (Account e))
      = [pe_name e, pe_password e, dec (pe_uid e), pe_gid e, pe_gecos e, pe_home e, pe_shell e]"
    using assms digits unfolding Account passwd_string.simps by (intro split_on_join) auto
  have "Atoi (dec (pe_uid e)) = Some (int (pe_uid e))"
    using Atoi_Itoa [of "int (pe_uid e)"] assms by (simp add: Account Itoa_def)
  moreover have "pe_shell e \<in> set nonLoginShells \<longleftrightarrow>
      pe_shell e \<in> {[], ''/bin/false'', ''/usr/bin/false'', ''/sbin/nologin'', ''/usr/sbin/nologin'', ''/usr/bin/nologin''}"
    by (auto simp: nonLoginShells_def)
  ultimately show ?thesis unfolding Account login_name_def s Let_def by (simp add: person_def)
qed

lemma login_names_text:
  "\<forall>l \<in> set ls. passwd_ok l \<Longrightarrow> login_names (map passwd_string ls) = List.map_filter person_name ls"
  unfolding login_names_def by (induction ls) (simp_all add: login_name_line split: option.split)

lemma person_name_nonempty:
  "\<forall>l \<in> set ls. passwd_ok l \<Longrightarrow> name \<in> set (List.map_filter person_name ls) \<Longrightarrow> name \<noteq> []"
  by (induction ls) (auto split: if_splits option.splits elim!: person_name.elims)

text \<open>
  C37: On an account file whose lines are accounts with non-empty names or have fewer than seven
  fields, each short enough for the scanner, the function returns the name of the one account
  with a number from 1000 to 60000 and a shell other than the six that refuse logins, when there
  is exactly one such account, and the empty string when there is none or more than one.
\<close>

theorem sole_login_user_exact:
  assumes "\<forall>l \<in> set ls. passwd_ok l \<and> line_fits (passwd_string l)"
  shows "soleLoginUserFrom (passwd_text ls) = (case List.map_filter person_name ls of [name] \<Rightarrow> name | _ \<Rightarrow> [])"
proof -
  have "scan_lines 65536 (concat (map (\<lambda>l. l @ [CHR 10]) (map passwd_string ls))) = (map passwd_string ls, True)"
    using assms by (intro scan_lines_text) (auto simp: line_fits_def drop_cr_def)
  moreover have "\<forall>l \<in> set ls. passwd_ok l" using assms by blast
  ultimately show ?thesis
    using sole_loop_none [of "map passwd_string ls"] person_name_nonempty [of ls]
    by (auto simp: soleLoginUserFrom_def passwd_text_def comp_def login_names_text)
qed

definition ex_account :: "string \<Rightarrow> nat \<Rightarrow> string \<Rightarrow> passwd_entry" where
  "ex_account name uid sh =
     \<lparr>pe_name = name, pe_password = ''x'', pe_uid = uid, pe_gid = ''100'', pe_gecos = [], pe_home = ''/h'', pe_shell = sh\<rparr>"

definition ex_passwd :: "passwd_line list" where
  "ex_passwd = [Account (ex_account ''root'' 0 ''/bin/bash''), Account (ex_account ''ann'' 1000 ''/bin/zsh''),
     Account (ex_account ''svc'' 1001 ''/bin/false''), Short ''+'']"

theorem sole_login_user_exact_witness: "soleLoginUserFrom (passwd_text ex_passwd) = ''ann''"
proof -
  have "\<forall>l \<in> set ex_passwd. passwd_ok l \<and> line_fits (passwd_string l)" by code_simp
  then show ?thesis
    by (subst sole_login_user_exact) (simp_all add: ex_passwd_def ex_account_def person_def)
qed

text \<open>An account with an empty name is forgotten again: the next one passes for the only one.\<close>

lemma empty_name_forgotten:
  "login_name l = Some '''' \<Longrightarrow> login_name l' = Some name \<Longrightarrow> name \<noteq> '''' \<Longrightarrow> sole_loop '''' [l, l'] = name"
  by simp

text \<open>The group of the ids: root is never the monitored user.\<close>

lemma IDs_not_root: "IDs e = Some (uid, gid) \<Longrightarrow> uid \<noteq> 0"
  by (auto simp: IDs_def split: option.splits if_splits)

lemma Home_of_User: "User e = '''' \<Longrightarrow> Home e = '''' \<and> IDs e = None"
  by (simp add: Home_def IDs_def lookupValid_def)

end
