(* ===== verification/Doctor.thy ===== *)
theory Doctor
  imports Effects Identity
begin

text \<open>
  Model of \<^verbatim>\<open>doctor/doctor.go\<close>: the checks of the preflight report in order, their parsers, the
  printed report and the verdict. What a check looks at is a parameter.
\<close>

datatype level = Ok | Warning | Missing

record result =
  rt_lvl :: level
  rt_label :: string
  rt_detail :: string

text \<open>\<open>d_probe\<close> tells whether \<^verbatim>\<open>auditctl -f\<close> accepts the mode; \<open>d_input\<close> is the list of \<^verbatim>\<open>/dev/input\<close>.\<close>

record docenv =
  d_goos :: string
  d_goarch :: string
  d_lookpath :: "string \<Rightarrow> string option"
  d_exists :: "string \<Rightarrow> bool"
  d_read :: "string \<Rightarrow> string option"
  d_output :: "string list \<Rightarrow> string option"
  d_active :: "string \<Rightarrow> bool"
  d_netlink :: bool
  d_input :: "string list option"
  d_euid :: int
  d_probe :: "int \<Rightarrow> bool"
  d_id :: idenv
  d_tty :: bool

definition add :: "level \<Rightarrow> string \<Rightarrow> string \<Rightarrow> result" where
  "add l label detail = \<lparr>rt_lvl = l, rt_label = label, rt_detail = detail\<rparr>"

definition dash :: "string \<Rightarrow> string" where
  "dash s = (if s = '''' then ''-'' else s)"

section \<open>Parsers\<close>

definition kernelRelease :: "docenv \<Rightarrow> string" where
  "kernelRelease e = (case d_read e ''/proc/sys/kernel/osrelease'' of Some b \<Rightarrow> TrimSpace b | None \<Rightarrow> ''?'')"

text \<open>\<^verbatim>\<open>strings.CutPrefix\<close>, and \<^verbatim>\<open>strings.Trim\<close> of one character.\<close>

definition CutPrefix :: "string \<Rightarrow> string \<Rightarrow> string option" where
  "CutPrefix s p = (if has_prefix s p then Some (drop (length p) s) else None)"

definition Trim :: "char \<Rightarrow> string \<Rightarrow> string" where
  "Trim c s = TrimRight c (dropWhile (\<lambda>x. x = c) s)"

fun distro_lines :: "string list \<Rightarrow> string" where
  "distro_lines [] = ''unknown distro''"
| "distro_lines (l # ls) =
     (case CutPrefix l ''PRETTY_NAME='' of Some v \<Rightarrow> Trim (CHR 0x22) v | None \<Rightarrow> distro_lines ls)"

definition distro :: "docenv \<Rightarrow> string" where
  "distro e =
     (case d_read e ''/etc/os-release'' of
        None \<Rightarrow> ''unknown distro''
      | Some text \<Rightarrow> distro_lines (fst (scan_lines 65536 text)))"

definition systemdVersion :: "docenv \<Rightarrow> string" where
  "systemdVersion e =
     (case d_output e [''systemctl'', ''--version''] of
        None \<Rightarrow> ''''
      | Some text \<Rightarrow>
          (case index_byte text (CHR 10) of
             Some i \<Rightarrow> '' ('' @ TrimSpace (take i text) @ '')''
           | None \<Rightarrow> ''''))"

fun mounted_lines :: "string \<Rightarrow> string list \<Rightarrow> bool" where
  "mounted_lines path [] = False"
| "mounted_lines path (l # ls) =
     (let fields = Fields l in if 2 \<le> length fields \<and> fields ! 1 = path then True else mounted_lines path ls)"

definition isMounted :: "docenv \<Rightarrow> string \<Rightarrow> bool" where
  "isMounted e path =
     (case d_read e ''/proc/mounts'' of None \<Rightarrow> False | Some text \<Rightarrow> mounted_lines path (fst (scan_lines 65536 text)))"

definition auditFailPrintk :: int where "auditFailPrintk = 1"

definition mitigationActive :: "docenv \<Rightarrow> bool" where
  "mitigationActive e =
     (if \<not> d_exists e ''/etc/sysctl.d/99-linaudit-audit-quiet.conf'' then False
      else case d_read e ''/proc/sys/kernel/printk_ratelimit_burst'' of
          None \<Rightarrow> False
        | Some b \<Rightarrow> (case Atoi (TrimSpace b) of None \<Rightarrow> False | Some n \<Rightarrow> n < 10))"

fun failure_lines :: "string list \<Rightarrow> int option" where
  "failure_lines [] = None"
| "failure_lines (l # ls) =
     (case CutPrefix l ''failure '' of
        None \<Rightarrow> failure_lines ls
      | Some v \<Rightarrow> (case Atoi (TrimSpace v) of Some n \<Rightarrow> Some n | None \<Rightarrow> failure_lines ls))"

definition auditFailureMode :: "docenv \<Rightarrow> int option" where
  "auditFailureMode e =
     (case d_output e [''auditctl'', ''-s''] of
        None \<Rightarrow> None
      | Some text \<Rightarrow> failure_lines (fst (scan_lines 65536 text)))"

definition apparmorEnabled :: "docenv \<Rightarrow> bool" where
  "apparmorEnabled e =
     (case d_read e ''/sys/module/apparmor/parameters/enabled'' of None \<Rightarrow> False | Some b \<Rightarrow> TrimSpace b = ''Y'')"

section \<open>Checks\<close>

definition optionalNote :: "string \<Rightarrow> string" where
  "optionalNote tool =
     (if tool = ''auditctl'' then
        ''auditd absent -- exec/uinput/USB audit plane off (install: apt install auditd / dnf install audit / pacman -S audit)''
      else if tool = ''nvidia-smi'' then
        ''absent -- per-process GPU VRAM will be omitted (non-NVIDIA hosts: expected)''
      else if tool = ''xdg-open'' then ''absent -- `linaudit open` falls back to BROWSER / brave / firefox''
      else ''absent (optional)'')"

definition platform :: "docenv \<Rightarrow> result list" where
  "platform e =
     [add Ok ''platform'' (d_goos e @ ''/'' @ d_goarch e @ '', kernel '' @ kernelRelease e @ '', '' @ distro e)]
     @ (if d_goos e \<noteq> ''linux'' then [add Missing ''os'' ''LinAudit requires Linux''] else [])"

definition init_system :: "docenv \<Rightarrow> result list" where
  "init_system e =
     [if d_exists e ''/run/systemd/system'' then add Ok ''systemd'' (''booted with systemd'' @ systemdVersion e)
      else add Warning ''systemd'' ''not detected -- service management (store/input/web units, enable/disable) is unavailable; `linaudit web|input` can still be run manually'']"

definition required_tools :: "string list" where
  "required_tools = [''cryptsetup'', ''systemd-creds'', ''mkfs.ext4'', ''mount'', ''umount'']"

definition required_tool :: "docenv \<Rightarrow> string \<Rightarrow> result" where
  "required_tool e t =
     (case d_lookpath e t of
        Some p \<Rightarrow> add Ok (''tool:'' @ t) p
      | None \<Rightarrow> add Missing (''tool:'' @ t) ''not found in PATH -- the encrypted log store cannot be created/mounted'')"

definition optional_tools :: "string list" where
  "optional_tools = [''systemctl'', ''journalctl'', ''auditctl'', ''nvidia-smi'', ''xdg-open'']"

definition optional_tool :: "docenv \<Rightarrow> string \<Rightarrow> result" where
  "optional_tool e t =
     (case d_lookpath e t of
        Some p \<Rightarrow> add Ok (''tool:'' @ t @ '' (optional)'') p
      | None \<Rightarrow> add Warning (''tool:'' @ t @ '' (optional)'') (optionalNote t))"

definition shell_plane :: "docenv \<Rightarrow> result" where
  "shell_plane e =
     (let shells = filter (\<lambda>s. d_lookpath e s \<noteq> None) [''bash'', ''zsh'', ''fish''] in
      if shells \<noteq> [] then
        add Ok ''shell plane'' (''hookable shells: '' @ join '', '' shells @ '' -- executed commands captured for all; zsh also records unexecuted prompt text'')
      else add Warning ''shell plane'' ''no supported shell (bash/zsh/fish) found in PATH -- the prompt/command plane is unavailable'')"

definition tpm2 :: "docenv \<Rightarrow> result" where
  "tpm2 e =
     (if d_exists e ''/dev/tpmrm0'' \<or> d_exists e ''/dev/tpm0''
      then add Ok ''tpm2'' ''/dev/tpmrm0 present -- store key sealed to the TPM''
      else add Warning ''tpm2'' ''no TPM2 device -- the store key seals to the HOST only (no hardware binding)'')"

definition kernel_interfaces :: "docenv \<Rightarrow> result list" where
  "kernel_interfaces e =
     [if d_netlink e then add Ok ''netlink sock_diag'' ''NETLINK_SOCK_DIAG socket created -- network plane OK''
      else add Missing ''netlink sock_diag'' ''cannot open NETLINK_SOCK_DIAG -- network bandwidth/connections unavailable (need CONFIG_INET_DIAG)'',
      if d_exists e ''/proc/self/stat'' \<and> d_exists e ''/proc/stat''
      then add Ok ''/proc'' ''readable -- process monitor OK''
      else add Missing ''/proc'' ''not readable -- process monitor unavailable'']"

definition doctor_geoDir :: string where
  "doctor_geoDir = ''/usr/local/share/linaudit/geoip''"

definition databases :: "docenv \<Rightarrow> result list" where
  "databases e =
     [if d_exists e (doctor_geoDir @ ''/ipv4.csv'') \<and> d_exists e (doctor_geoDir @ ''/ipv6.csv'')
      then add Ok ''geoip country db'' (doctor_geoDir @ '' -- connections resolve to country + world map'')
      else add Warning ''geoip country db'' ''absent -- run `sudo sh data/fetch-geoip.sh`; the country column and map degrade gracefully'',
      if d_exists e (doctor_geoDir @ ''/asn-ipv4.csv'') \<and> d_exists e (doctor_geoDir @ ''/asn-ipv6.csv'')
      then add Ok ''asn/org db'' (doctor_geoDir @ '' -- peers classified by owning network (corp/cloud/cdn/gov/telecom)'')
      else add Warning ''asn/org db'' (''absent -- run `sudo sh data/fetch-geoip.sh`; the owner column shows ''
        @ [CHR 0x27] @ ''unknown'' @ [CHR 0x27] @ '' for every peer'')]"

definition inputDevicesLevel :: "docenv \<Rightarrow> result" where
  "inputDevicesLevel e =
     (case d_input e of
        None \<Rightarrow> add Missing ''/dev/input'' ''unreadable -- input-source attribution unavailable''
      | Some ents \<Rightarrow>
          let n = length (filter (\<lambda>x. has_prefix x ''event'') ents) in
          if n = 0 then add Warning ''/dev/input'' ''no event devices found''
          else if d_euid e \<noteq> 0 then add Ok ''/dev/input'' (dec n @ '' event device(s); the input logger runs as root'')
          else add Ok ''/dev/input'' (dec n @ '' event device(s) readable''))"

definition uinput :: "docenv \<Rightarrow> result" where
  "uinput e =
     (if d_exists e ''/dev/uinput'' then add Ok ''/dev/uinput'' ''present -- software-injection (uinput) auditing possible''
      else add Warning ''/dev/uinput'' ''absent -- load the `uinput` module to detect software injectors'')"

definition monitored_user :: "docenv \<Rightarrow> result" where
  "monitored_user e =
     (let u = User (d_id e) in
      if u \<noteq> '''' then add Ok ''monitored user'' (u @ '' (home '' @ dash (Home (d_id e)) @ '')'')
      else add Warning ''monitored user'' ''unresolved -- set LINAUDIT_USER (the shell plane needs it); other planes are unaffected'')"

definition log_store :: "docenv \<Rightarrow> result" where
  "log_store e =
     (if isMounted e ''/var/log/linaudit'' then add Ok ''log store'' ''/var/log/linaudit is mounted''
      else add Warning ''log store'' ''/var/log/linaudit not mounted -- run `sudo linaudit store init` (once) then `store up`'')"

definition services :: "docenv \<Rightarrow> result list" where
  "services e =
     (if d_exists e ''/run/systemd/system'' then
        map (\<lambda>svc. if d_active e svc then add Ok (''service:'' @ svc) ''active'' else add Warning (''service:'' @ svc) ''not active'')
          [''linaudit-store.service'', ''linaudit-input.service'', ''linaudit-web.service'', ''auditd.service'']
      else [])"

definition flood_warning :: string where
  "flood_warning = ''kernel floods dmesg with '' @ [CHR 0x27] @ ''error in audit_log_subj_ctx'' @ [CHR 0x27]
     @ '' (AppArmor subj ctx) and rejects `auditctl -f 0` -- run `sudo install -m644 system/99-linaudit-audit-quiet.conf /etc/sysctl.d/ && sudo sysctl --system`, or boot a kernel without the regression''"

definition auditFloodLevel :: "docenv \<Rightarrow> result option" where
  "auditFloodLevel e =
     (if d_lookpath e ''auditctl'' = None then None
      else if \<not> d_active e ''auditd.service'' then None
      else if mitigationActive e then
        Some (add Ok ''audit log flood'' ''printk-ratelimit mitigation active (99-linaudit-audit-quiet.conf) -- AppArmor subj_ctx errors throttled'')
      else case auditFailureMode e of
          None \<Rightarrow> None
        | Some m \<Rightarrow>
            if m \<noteq> auditFailPrintk then None
            else if \<not> apparmorEnabled e then None
            else if d_probe e m then None
            else Some (add Warning ''audit log flood'' flood_warning))"

section \<open>The report\<close>

definition results :: "docenv \<Rightarrow> result list" where
  "results e =
     platform e @ init_system e @ map (required_tool e) required_tools @ map (optional_tool e) optional_tools
     @ [shell_plane e, tpm2 e] @ kernel_interfaces e @ databases e @ [inputDevicesLevel e, uinput e, monitored_user e, log_store e]
     @ services e @ (case auditFloodLevel e of None \<Rightarrow> [] | Some r \<Rightarrow> [r])"

definition count_level :: "level \<Rightarrow> result list \<Rightarrow> nat" where
  "count_level l rs = length (filter (\<lambda>r. rt_lvl r = l) rs)"

definition level_tag :: "(string \<Rightarrow> string) \<Rightarrow> level \<Rightarrow> string" where
  "level_tag col l =
     (case l of
        Ok \<Rightarrow> col ''[32m'' @ ''[ OK ]'' @ col ''[0m''
      | Warning \<Rightarrow> col ''[33m'' @ ''[WARN]'' @ col ''[0m''
      | Missing \<Rightarrow> col ''[31m'' @ ''[MISS]'' @ col ''[0m'')"

definition report_text :: "docenv \<Rightarrow> result list \<Rightarrow> string" where
  "report_text e rs =
     (let col = (\<lambda>s. if d_tty e then CHR 0x1B # s else ''''); rule = replicate 60 (CHR ''-'') @ [CHR 10];
          nMiss = count_level Missing rs in
      ''LinAudit doctor -- environment readiness'' @ [CHR 10] @ rule
      @ concat (map (\<lambda>r. ''  '' @ level_tag col (rt_lvl r) @ '' '' @ rt_label r
          @ replicate (26 - length (rt_label r)) (CHR '' '') @ '' '' @ col ''[2m'' @ rt_detail r @ col ''[0m'' @ [CHR 10]) rs)
      @ rule
      @ ''  '' @ dec (count_level Ok rs) @ '' ok, '' @ dec (count_level Warning rs) @ '' warnings, '' @ dec nMiss @ '' missing'' @ [CHR 10]
      @ (if nMiss = 0 then ''  core monitoring is supported on this host.''
         else ''  some core functionality is unavailable; see [MISS] lines above.'') @ [CHR 10])"

definition Run :: "docenv \<Rightarrow> string option \<times> string" where
  "Run e =
     (let rs = results e in
      (if list_ex (\<lambda>r. rt_lvl r = Missing) rs
       then Some ''one or more core requirements are missing (see [MISS] above)'' else None,
       report_text e rs))"

section \<open>The verdict\<close>

text \<open>What the program cannot do without.\<close>

definition core_supported :: "docenv \<Rightarrow> bool" where
  "core_supported e \<longleftrightarrow>
     d_goos e = ''linux'' \<and> (\<forall>t \<in> set required_tools. d_lookpath e t \<noteq> None) \<and> d_netlink e
     \<and> d_exists e ''/proc/self/stat'' \<and> d_exists e ''/proc/stat'' \<and> d_input e \<noteq> None"

lemma add_lvl [simp]: "rt_lvl (add l a b) = l"
  by (simp add: add_def)

lemma no_missing:
  "\<not> list_ex (\<lambda>r. rt_lvl r = Missing) (init_system e)" "rt_lvl (optional_tool e t) \<noteq> Missing"
  "rt_lvl (shell_plane e) \<noteq> Missing" "rt_lvl (tpm2 e) \<noteq> Missing" "\<not> list_ex (\<lambda>r. rt_lvl r = Missing) (databases e)"
  "rt_lvl (uinput e) \<noteq> Missing" "rt_lvl (monitored_user e) \<noteq> Missing" "rt_lvl (log_store e) \<noteq> Missing"
  "\<not> list_ex (\<lambda>r. rt_lvl r = Missing) (services e)"
  "auditFloodLevel e = Some r \<Longrightarrow> rt_lvl r \<noteq> Missing"
  by (auto simp: init_system_def optional_tool_def shell_plane_def tpm2_def databases_def uinput_def monitored_user_def
      log_store_def services_def auditFloodLevel_def Let_def split: option.splits if_splits)

lemma missing_checks:
  "list_ex (\<lambda>r. rt_lvl r = Missing) (platform e) \<longleftrightarrow> d_goos e \<noteq> ''linux''"
  "rt_lvl (required_tool e t) = Missing \<longleftrightarrow> d_lookpath e t = None"
  "list_ex (\<lambda>r. rt_lvl r = Missing) (kernel_interfaces e)
     \<longleftrightarrow> \<not> (d_netlink e \<and> d_exists e ''/proc/self/stat'' \<and> d_exists e ''/proc/stat'')"
  "rt_lvl (inputDevicesLevel e) = Missing \<longleftrightarrow> d_input e = None"
  by (auto simp: platform_def required_tool_def kernel_interfaces_def inputDevicesLevel_def Let_def split: option.splits)

text \<open>The command fails exactly when a core requirement is not met; warnings never make it fail.\<close>

lemma Run_fails_iff: "fst (Run e) = None \<longleftrightarrow> core_supported e"
proof -
  have flood: "\<not> list_ex (\<lambda>r. rt_lvl r = Missing) (case auditFloodLevel e of None \<Rightarrow> [] | Some r \<Rightarrow> [r])"
    using no_missing(10) by (simp split: option.split)
  have "list_ex (\<lambda>r. rt_lvl r = Missing) (map (required_tool e) required_tools)
      \<longleftrightarrow> \<not> (\<forall>t \<in> set required_tools. d_lookpath e t \<noteq> None)"
    by (simp add: list_ex_iff missing_checks(2))
  moreover have "\<not> list_ex (\<lambda>r. rt_lvl r = Missing) (map (optional_tool e) optional_tools)"
    by (simp add: list_ex_iff no_missing(2))
  ultimately have "list_ex (\<lambda>r. rt_lvl r = Missing) (results e) \<longleftrightarrow> \<not> core_supported e"
    using flood no_missing missing_checks by (auto simp: results_def core_supported_def list_ex_append)
  then show ?thesis by (simp add: Run_def Let_def)
qed

end
