(* ===== verification/Cli.thy ===== *)
theory Cli
  imports Effects Identity GoSort FloatParse
begin

text \<open>
  Model of the data side of \<^verbatim>\<open>cli/cli.go\<close>: paths and layer state, the numbers of the status,
  the tail of a log, the correlated timeline, the lines of the live view and the quoting of its
  script. The host the commands run on (files, units, environment, clock, the outcome of every
  operation) is a parameter; what the commands do to it is in \<open>CliCmd\<close>.
\<close>

section \<open>The host\<close>

datatype cop =
    Out string
  | Err string
  | RunTTY string "string list"
  | RunCmd string "string list"
  | Remove string
  | MkdirAll string nat
  | OpenFile string bool nat
  | WriteString string string
  | CloseFile string
  | Pager string "string list" string
  | StartCmd string "string list"
  | MakePipe

datatype open_error = Denied string | Missing string | Other string

text \<open>
  \<open>c_notExist\<close> is \<^verbatim>\<open>os.IsNotExist\<close> of an error, \<open>c_quote\<close> the verb \<^verbatim>\<open>%q\<close>, \<open>c_clock\<close> the local time
  of day of a Unix time. A path that cannot be opened or looked at is denied, missing or else.
  The output is that of a command that succeeds, that exits with a failure, or that cannot be run.
  \<open>c_taken\<close> is how much of its input a pager that failed has taken.
\<close>

datatype exec_result = Done string | Exited string | Unavailable string

record cli_host =
  c_do :: "cop trace \<Rightarrow> cop \<Rightarrow> string option"
  c_open :: "cop trace \<Rightarrow> string \<Rightarrow> open_error + string"
  c_size :: "cop trace \<Rightarrow> string \<Rightarrow> int"
  c_stat :: "cop trace \<Rightarrow> string \<Rightarrow> open_error option"
  c_notExist :: "string \<Rightarrow> bool"
  c_quote :: "string \<Rightarrow> string"
  c_active :: "cop trace \<Rightarrow> string \<Rightarrow> bool"
  c_output :: "cop trace \<Rightarrow> string \<Rightarrow> string list \<Rightarrow> exec_result"
  c_taken :: "cop trace \<Rightarrow> nat"
  c_lookpath :: "string \<Rightarrow> string option"
  c_env :: "string \<Rightarrow> string"
  c_tty :: bool
  c_id :: idenv
  c_userHome :: string
  c_clock :: "int \<Rightarrow> string"
  c_cvt :: "f64 \<Rightarrow> int"

definition keyLog :: string where "keyLog = ''/var/log/linaudit/input/keys.log''"
definition inputService :: string where "inputService = ''linaudit-input.service''"
definition auditService :: string where "auditService = ''auditd.service''"
definition dashboardURL :: string where "dashboardURL = ''http://127.0.0.1:8799/''"

section \<open>Colours, user, paths\<close>

record palette =
  pl_R :: string
  pl_G :: string
  pl_Y :: string
  pl_C :: string
  pl_M :: string
  pl_Dim :: string
  pl_Bold :: string
  pl_N :: string

definition esc :: "string \<Rightarrow> string" where
  "esc s = CHR 0x1B # s"

definition colors :: "cli_host \<Rightarrow> palette" where
  "colors h =
     (if c_tty h then
        \<lparr>pl_R = esc ''[31m'', pl_G = esc ''[32m'', pl_Y = esc ''[33m'', pl_C = esc ''[36m'', pl_M = esc ''[35m'',
         pl_Dim = esc ''[2m'', pl_Bold = esc ''[1m'', pl_N = esc ''[0m''\<rparr>
      else \<lparr>pl_R = '''', pl_G = '''', pl_Y = '''', pl_C = '''', pl_M = '''', pl_Dim = '''', pl_Bold = '''', pl_N = ''''\<rparr>)"

definition userName :: "cli_host \<Rightarrow> string" where
  "userName h =
     (let u = User (c_id h) in
      if u \<noteq> '''' then u
      else case ie_current (c_id h) of Some u \<Rightarrow> ac_Username u | None \<Rightarrow> '''')"

definition home :: "cli_host \<Rightarrow> string" where
  "home h =
     (let d = Home (c_id h) in
      if d \<noteq> '''' then d
      else case ie_current (c_id h) of
          Some u \<Rightarrow> if ac_HomeDir u \<noteq> '''' then ac_HomeDir u else c_userHome h
        | None \<Rightarrow> c_userHome h)"

record paths =
  pt_zdir :: string
  pt_buflog :: string
  pt_cmdlog :: string
  pt_disflag :: string
  pt_zshrc :: string
  pt_bashrc :: string
  pt_fishconf :: string

definition resolvePaths :: "cli_host \<Rightarrow> paths" where
  "resolvePaths h =
     (let d = home h; zdir = path_Join [d, ''.local'', ''share'', ''linaudit''] in
      \<lparr>pt_zdir = zdir, pt_buflog = path_Join [zdir, ''buffer.log''], pt_cmdlog = path_Join [zdir, ''commands.log''],
       pt_disflag = path_Join [zdir, ''disabled''], pt_zshrc = path_Join [d, ''.zshrc''],
       pt_bashrc = path_Join [d, ''.bashrc''],
       pt_fishconf = path_Join [d, ''.config'', ''fish'', ''conf.d'', ''linaudit.fish'']\<rparr>)"

section \<open>Layer state\<close>

definition fileExists :: "cli_host \<Rightarrow> cop trace \<Rightarrow> string \<Rightarrow> bool" where
  "fileExists h tr path \<longleftrightarrow> c_stat h tr path = None"

definition fileContains :: "cli_host \<Rightarrow> cop trace \<Rightarrow> string \<Rightarrow> string \<Rightarrow> bool" where
  "fileContains h tr path needle =
     (case c_open h tr path of Inl e \<Rightarrow> False | Inr data \<Rightarrow> str_contains data needle)"

definition shellHookWired :: "cli_host \<Rightarrow> cop trace \<Rightarrow> paths \<Rightarrow> bool" where
  "shellHookWired h tr p \<longleftrightarrow>
     fileContains h tr (pt_zshrc p) ''linaudit.zsh'' \<or> fileContains h tr (pt_bashrc p) ''linaudit.bash''
     \<or> fileExists h tr (pt_fishconf p)"

definition shellOn :: "cli_host \<Rightarrow> cop trace \<Rightarrow> paths \<Rightarrow> bool" where
  "shellOn h tr p \<longleftrightarrow> shellHookWired h tr p \<and> \<not> fileExists h tr (pt_disflag p)"

definition dot :: "palette \<Rightarrow> bool \<Rightarrow> string" where
  "dot pal on =
     (if on then pl_G pal @ [CHR 0xE2, CHR 0x97, CHR 0x8F] @ pl_N pal
      else pl_R pal @ [CHR 0xE2, CHR 0x97, CHR 0x8B] @ pl_N pal)"

section \<open>Sizes\<close>

text \<open>The loop of the units: the divisor and the index of the suffix.\<close>

function unit_loop :: "int \<Rightarrow> int \<Rightarrow> nat \<Rightarrow> int \<times> nat" where
  "unit_loop v d e = (if 1024 \<le> v then unit_loop (v div 1024) (d * 1024) (Suc e) else (d, e))"
  by pat_completeness auto
termination
  by (relation "measure (\<lambda>(v, d, e). nat v)") auto

declare unit_loop.simps [simp del]

definition suffixes :: "string list" where
  "suffixes = [''K'', ''M'', ''G'', ''T'', ''P'']"

text \<open>\<open>None\<close> is the panic of the index into the suffixes.\<close>

definition humanSize :: "int \<Rightarrow> string option" where
  "humanSize n =
     (if n < 1024 then Some (Itoa n @ ''B'')
      else
        let (d, e) = unit_loop (n div 1024) 1024 0; val = fdiv (float_of_int n) (float_of_int d) in
        case index suffixes e of
          None \<Rightarrow> None
        | Some sfx \<Rightarrow>
            if val \<ge> 10 \<or> val = float_of_int \<lfloor>val\<rfloor> then Some (Itoa \<lfloor>fadd val (1 / 2)\<rfloor> @ sfx)
            else Some (FormatFloat 1 val @ sfx))"

definition count_newlines :: "string \<Rightarrow> nat" where
  "count_newlines s = length (filter (\<lambda>c. c = CHR 10) s)"

definition logStat :: "cli_host \<Rightarrow> cop trace \<Rightarrow> string \<Rightarrow> (int \<times> int) option" where
  "logStat h tr path =
     (case c_open h tr path of
        Inl e \<Rightarrow> None
      | Inr data \<Rightarrow> Some (c_size h tr path, int (count_newlines data)))"

definition sudoLogStat :: "cli_host \<Rightarrow> cop trace \<Rightarrow> string \<Rightarrow> (int \<times> int) option" where
  "sudoLogStat h tr path =
     (case c_output h tr ''sudo'' [''wc'', ''-c'', ''-l'', path] of
        Done out \<Rightarrow>
          (let f = Fields out in
           if length f < 2 then None
           else case (Atoi (f ! 0), Atoi (f ! 1)) of (Some l, Some b) \<Rightarrow> Some (b, l) | _ \<Rightarrow> None)
      | _ \<Rightarrow> None)"

text \<open>\<^verbatim>\<open>%-16s\<close>, \<^verbatim>\<open>%-26s\<close> and \<^verbatim>\<open>%6s\<close> of ASCII strings.\<close>

definition pad_right :: "nat \<Rightarrow> string \<Rightarrow> string" where
  "pad_right n s = s @ replicate (n - length s) (CHR '' '')"

definition pad_left :: "nat \<Rightarrow> string \<Rightarrow> string" where
  "pad_left n s = replicate (n - length s) (CHR '' '') @ s"

text \<open>The size and the lines shown for a log.\<close>

definition log_numbers :: "cli_host \<Rightarrow> cop trace \<Rightarrow> string \<Rightarrow> bool \<Rightarrow> (string \<times> string) option" where
  "log_numbers h tr path privileged =
     (case logStat h tr path of
        Some (n, lines) \<Rightarrow> map_option (\<lambda>sz. (sz, Itoa lines)) (humanSize n)
      | None \<Rightarrow>
          if privileged then
            (case sudoLogStat h tr path of
               Some (n, lines) \<Rightarrow> map_option (\<lambda>sz. (sz, Itoa lines)) (humanSize n)
             | None \<Rightarrow> Some (''-'', ''?''))
          else Some (''-'', ''0''))"

section \<open>The tail of a log\<close>

definition tailWindow :: nat where
  "tailWindow = 512 * 1024"

definition last_bytes :: "nat \<Rightarrow> string \<Rightarrow> string" where
  "last_bytes n s = drop (length s - n) s"

definition readTailBytes :: "cli_host \<Rightarrow> cop trace \<Rightarrow> string \<Rightarrow> string option" where
  "readTailBytes h tr path =
     (case c_open h tr path of Inl e \<Rightarrow> None | Inr data \<Rightarrow> Some (last_bytes tailWindow data))"

definition trim_newline :: "string \<Rightarrow> string" where
  "trim_newline s = (if s \<noteq> '''' \<and> last s = CHR 10 then butlast s else s)"

definition splitLines :: "string \<Rightarrow> string list" where
  "splitLines data = (let s = trim_newline data in if s = '''' then [] else split_on (CHR 10) s)"

text \<open>Go's \<^verbatim>\<open>xs[len(xs)-n:]\<close> when \<^verbatim>\<open>len(xs) > n\<close>; a negative \<open>n\<close> is a panic.\<close>

definition last_of :: "int \<Rightarrow> 'a list \<Rightarrow> 'a list option" where
  "last_of n xs =
     (if int (length xs) > n then
        (if n < 0 then None else Some (drop (length xs - nat n) xs))
      else Some xs)"

definition tailLines :: "cli_host \<Rightarrow> cop trace \<Rightarrow> string \<Rightarrow> int \<Rightarrow> bool \<Rightarrow> string list option" where
  "tailLines h tr path n privileged =
     (case readTailBytes h tr path of
        Some data \<Rightarrow> last_of n (splitLines data)
      | None \<Rightarrow>
          if privileged then
            (case c_output h tr ''sudo'' [''cat'', path] of
               Done out \<Rightarrow> last_of n (splitLines out)
             | _ \<Rightarrow> Some [])
          else Some [])"

section \<open>The correlated timeline\<close>

record reportItem =
  ri_ts :: f64
  ri_tag :: string
  ri_detail :: string

definition mk_item :: "f64 \<Rightarrow> string \<Rightarrow> string \<Rightarrow> reportItem" where
  "mk_item ts tag detail = \<lparr>ri_ts = ts, ri_tag = tag, ri_detail = detail\<rparr>"

definition buf_item :: "string \<Rightarrow> reportItem option" where
  "buf_item line =
     (let f = split_on (CHR 9) line in
      if 6 \<le> length f \<and> f ! 4 = ''BUFFER''
      then map_option (\<lambda>ts. mk_item ts ''BUF'' (f ! 5)) (ParseFloat (f ! 1)) else None)"

definition exec_item :: "f64 \<Rightarrow> string \<Rightarrow> reportItem option" where
  "exec_item t0 line =
     (let f = split_on (CHR 9) line in
      if 6 \<le> length f \<and> f ! 4 = ''EXEC'' then
        (case ParseFloat (f ! 1) of
           None \<Rightarrow> None
         | Some ts \<Rightarrow> if f64_ge ts t0 then Some (mk_item ts ''EXEC'' (f ! 5)) else None)
      else None)"

definition key_item :: "f64 \<Rightarrow> string \<Rightarrow> reportItem option" where
  "key_item t0 line =
     (let f = split_on (CHR 9) line in
      if length f < 2 then None
      else case ParseFloat (f ! 0) of
          None \<Rightarrow> None
        | Some ts \<Rightarrow>
            if f64_less ts t0 then None
            else if f ! 1 = ''KEY'' \<and> 6 \<le> length f then
              Some (mk_item ts ''KEY'' (f ! 3 @ '' '' @ f ! 4 @ '' val='' @ f ! 5))
            else if f ! 1 = ''DEVICE_ADDED'' \<or> f ! 1 = ''DEVICE_REMOVED'' then
              Some (mk_item ts ''DEV'' (f ! 1 @ '' '' @ (if 4 \<le> length f then f ! 3 else '''')))
            else None)"

definition item_less :: "reportItem \<Rightarrow> reportItem \<Rightarrow> bool" where
  "item_less a b \<longleftrightarrow> f64_less (ri_ts a) (ri_ts b)"

definition build_items :: "int \<Rightarrow> string list \<Rightarrow> string list \<Rightarrow> string list \<Rightarrow> reportItem list option" where
  "build_items n buf cmd keys = do {
     bufs \<leftarrow> last_of n (List.map_filter buf_item buf);
     if bufs = [] then Some []
     else
       let t0 = ri_ts (hd bufs)
       in Some (SliceStable item_less (bufs @ List.map_filter (exec_item t0) cmd @ List.map_filter (key_item t0) keys))
   }"

definition buildReport :: "cli_host \<Rightarrow> cop trace \<Rightarrow> paths \<Rightarrow> int \<Rightarrow> reportItem list option" where
  "buildReport h tr p n = do {
     buf \<leftarrow> tailLines h tr (pt_buflog p) 6000 False;
     cmd \<leftarrow> tailLines h tr (pt_cmdlog p) 6000 False;
     keys \<leftarrow> tailLines h tr keyLog 12000 True;
     build_items n buf cmd keys
   }"

text \<open>\<^verbatim>\<open>%03d\<close> of a number up to 999.\<close>

definition milli :: "int \<Rightarrow> int" where
  "milli v = (if v < 0 then 0 else if v > 999 then 999 else v)"

definition formatTS :: "cli_host \<Rightarrow> f64 \<Rightarrow> string" where
  "formatTS h ts =
     (let sec = to_int64 (c_cvt h) ts;
          ms = (case ts of
              Fin x \<Rightarrow> to_int64 (c_cvt h) (Fin (fmul (fsub x (float_of_int sec)) 1000))
            | _ \<Rightarrow> to_int64 (c_cvt h) ts)
      in c_clock h sec @ ''.'' @ dec_pad 3 (nat (milli ms)))"

definition item_line :: "cli_host \<Rightarrow> palette \<Rightarrow> reportItem \<Rightarrow> string" where
  "item_line h pal it =
     (let col = (if ri_tag it = ''BUF'' then pl_M pal else if ri_tag it = ''EXEC'' then pl_Y pal
            else if ri_tag it = ''KEY'' then pl_Dim pal else if ri_tag it = ''DEV'' then pl_R pal else pl_N pal)
      in ''  '' @ formatTS h (ri_ts it) @ ''  '' @ col @ pad_right 5 (ri_tag it) @ pl_N pal @ ''  '' @ ri_detail it @ [CHR 10])"

text \<open>\<open>None\<close> when building the report panics.\<close>

definition reportTo :: "cli_host \<Rightarrow> cop trace \<Rightarrow> string \<Rightarrow> string option" where
  "reportTo h tr arg =
     (let n = (case Atoi (TrimSpace arg) of None \<Rightarrow> 15 | Some v \<Rightarrow> v); pal = colors h in
      map_option (\<lambda>items.
        if items = [] then ''no prompt entries logged yet.'' @ [CHR 10]
        else pl_Bold pal @ ''  correlated timeline (last '' @ Itoa n @ '' prompt entries)'' @ pl_N pal @ [CHR 10]
          @ ''  '' @ pl_Dim pal @ ''time          plane  detail'' @ pl_N pal @ [CHR 10]
          @ concat (map (item_line h pal) items))
        (buildReport h tr (resolvePaths h) n))"

section \<open>The live view\<close>

definition shellQuote :: "string \<Rightarrow> string" where
  "shellQuote s = [CHR 0x27] @ replace_byte (CHR 0x27) [CHR 0x27, CHR 0x5C, CHR 0x27, CHR 0x27] s @ [CHR 0x27]"

definition live_script :: "paths \<Rightarrow> string" where
  "live_script p =
     ''tail -n0 -F '' @ shellQuote (pt_buflog p) @ '' '' @ shellQuote (pt_cmdlog p) @ '' '' @ shellQuote keyLog
       @ '' 2>/dev/null''"

text \<open>\<^verbatim>\<open>strings.LastIndex\<close>, and what follows the last occurrence.\<close>

definition after_last :: "string \<Rightarrow> string \<Rightarrow> string" where
  "after_last s sep =
     (case str_index (rev s) (rev sep) of None \<Rightarrow> s | Some i \<Rightarrow> drop (length s - i) s)"

definition tabbed :: "string \<Rightarrow> string" where
  "tabbed s = CHR 9 # s @ [CHR 9]"

definition live_line :: "palette \<Rightarrow> string \<Rightarrow> string option" where
  "live_line pal line =
     (if str_contains line (tabbed ''BUFFER'') then
        Some (pl_M pal @ ''BUF'' @ pl_N pal @ '' '' @ after_last line (tabbed ''BUFFER'') @ [CHR 10])
      else if str_contains line (tabbed ''EXEC'') then
        Some (pl_Y pal @ ''EXEC'' @ pl_N pal @ '' '' @ after_last line (tabbed ''EXEC'') @ [CHR 10])
      else if str_contains line (tabbed ''KEY'') then
        Some (pl_Dim pal @ ''KEY '' @ line @ pl_N pal @ [CHR 10])
      else if str_contains line ''DEVICE_ADDED'' \<or> str_contains line ''DEVICE_REMOVED'' then
        Some (pl_R pal @ line @ pl_N pal @ [CHR 10])
      else None)"

section \<open>Quoting\<close>

text \<open>
  The tokens of a shell command line, by the rules of POSIX (Shell Command Language, 2.2 Quoting and
  2.3 Token Recognition), for the part of the language in which nothing is expanded: between single
  quotes every character stands for itself; a backslash outside quotes keeps the next character;
  blanks end a token; outside quotes a word may hold letters, digits and a few characters without
  any special meaning; a redirection is an operator, before which a word of unquoted digits is a
  file descriptor. A text with any other character outside quotes (the other operators, \<^verbatim>\<open>$\<close>,
  backquote, double quote, the pattern characters, \<^verbatim>\<open>#\<close>, \<^verbatim>\<open>~\<close>, \<^verbatim>\<open>=\<close>, a newline), or with an
  open quote, has no reading here: \<open>None\<close>.
\<close>

datatype token = Word string | Descriptor string | Redirect char

text \<open>Between tokens; in a word, with whether a part of it was quoted; in quotes; after a backslash.\<close>

datatype lex = Blank | Bare string bool | Quoted string | Escaped string

definition sh_plain :: "char \<Rightarrow> bool" where
  "sh_plain c \<longleftrightarrow>
     ord c \<in> {65..90 :: nat} \<or> ord c \<in> {97..122 :: nat} \<or> is_digit c \<or> c \<in> set ''-_./,:@%+''"

definition sh_blank :: "char \<Rightarrow> bool" where
  "sh_blank c \<longleftrightarrow> c = CHR '' '' \<or> c = CHR 9"

definition sh_redirect :: "char \<Rightarrow> bool" where
  "sh_redirect c \<longleftrightarrow> c = CHR ''<'' \<or> c = CHR ''>''"

definition sh_operator :: "char \<Rightarrow> bool" where
  "sh_operator c \<longleftrightarrow> c \<in> set ''|&;<>()''"

definition is_number :: "string \<Rightarrow> bool" where
  "is_number w \<longleftrightarrow> w \<noteq> [] \<and> list_all is_digit w"

text \<open>A redirection operator of one character: no other operator character follows.\<close>

fun sh_lex :: "lex \<Rightarrow> string \<Rightarrow> token list option" where
  "sh_lex Blank [] = Some []"
| "sh_lex (Bare w q) [] = Some [Word w]"
| "sh_lex (Quoted w) [] = None"
| "sh_lex (Escaped w) [] = None"
| "sh_lex Blank (c # s) =
     (if sh_blank c then sh_lex Blank s
      else if c = CHR 0x27 then sh_lex (Quoted []) s
      else if c = CHR 0x5C then sh_lex (Escaped []) s
      else if sh_redirect c \<and> \<not> (s \<noteq> [] \<and> sh_operator (hd s)) then map_option ((#) (Redirect c)) (sh_lex Blank s)
      else if sh_plain c then sh_lex (Bare [c] False) s
      else None)"
| "sh_lex (Bare w q) (c # s) =
     (if sh_blank c then map_option ((#) (Word w)) (sh_lex Blank s)
      else if c = CHR 0x27 then sh_lex (Quoted w) s
      else if c = CHR 0x5C then sh_lex (Escaped w) s
      else if sh_redirect c \<and> \<not> (s \<noteq> [] \<and> sh_operator (hd s)) then
        map_option (\<lambda>ts. (if is_number w \<and> \<not> q then Descriptor w else Word w) # Redirect c # ts) (sh_lex Blank s)
      else if sh_plain c then sh_lex (Bare (w @ [c]) q) s
      else None)"
| "sh_lex (Quoted w) (c # s) = (if c = CHR 0x27 then sh_lex (Bare w True) s else sh_lex (Quoted (w @ [c])) s)"
| "sh_lex (Escaped w) (c # s) = (if c = CHR 10 then None else sh_lex (Bare (w @ [c]) True) s)"

definition sh_tokens :: "string \<Rightarrow> token list option" where
  "sh_tokens s = sh_lex Blank s"

lemma sh_lex_quoted:
  "sh_lex (Quoted w) (replace_byte (CHR 0x27) [CHR 0x27, CHR 0x5C, CHR 0x27, CHR 0x27] s @ CHR 0x27 # rest)
     = sh_lex (Bare (w @ s) True) rest"
  by (induction s arbitrary: w) (auto simp: replace_byte_def sh_blank_def sh_redirect_def)

lemma sh_lex_shellQuote: "sh_lex Blank (shellQuote s @ rest) = sh_lex (Bare s True) rest"
  using sh_lex_quoted [of "[]" s rest] by (simp add: shellQuote_def sh_blank_def sh_redirect_def)

lemma sh_plain_rest: "sh_plain c \<Longrightarrow> \<not> sh_blank c \<and> \<not> sh_redirect c \<and> c \<noteq> CHR 0x27 \<and> c \<noteq> CHR 0x5C"
  by (auto simp: sh_plain_def sh_blank_def sh_redirect_def is_digit_def)

lemma sh_lex_bare: "list_all sh_plain s \<Longrightarrow> sh_lex (Bare w q) (s @ rest) = sh_lex (Bare (w @ s) q) rest"
  by (induction s arbitrary: w) (auto dest: sh_plain_rest)

lemma sh_lex_word:
  assumes "list_all sh_plain w" and "w \<noteq> []"
  shows "sh_lex Blank (w @ CHR '' '' # rest) = map_option ((#) (Word w)) (sh_lex Blank rest)"
proof -
  obtain c s where w: "w = c # s" using assms(2) by (cases w) simp_all
  with assms(1) have "sh_lex Blank (w @ CHR '' '' # rest) = sh_lex (Bare [c] False) (s @ CHR '' '' # rest)"
    using sh_plain_rest [of c] by simp
  also have "\<dots> = sh_lex (Bare w False) (CHR '' '' # rest)" using assms(1) by (simp add: w sh_lex_bare)
  finally show ?thesis by (simp add: sh_blank_def)
qed

lemma unquoted_not_read:
  "sh_tokens ''tail /home/a;reboot'' = None" "sh_tokens ''tail $HOME/x'' = None" "sh_tokens ''tail a|b'' = None"
  by code_simp+

text \<open>
  C38: Whatever the paths are called, the shell that runs the script of the live view reads it as the
  command \<^verbatim>\<open>tail\<close> with its two options, the three log paths, each one word and unchanged, and
  the redirection of the error output: no character of a path ends its word, starts an operator
  or an expansion, or is lost.
\<close>

theorem live_script_words:
  "sh_tokens (live_script p) =
     Some [Word ''tail'', Word ''-n0'', Word ''-F'', Word (pt_buflog p), Word (pt_cmdlog p),
       Word ''/var/log/linaudit/input/keys.log'', Descriptor ''2'', Redirect (CHR ''>''), Word ''/dev/null'']"
proof -
  have redir: "sh_lex Blank ''2>/dev/null'' = Some [Descriptor ''2'', Redirect (CHR ''>''), Word ''/dev/null'']"
    by code_simp
  have quoted: "sh_lex Blank (shellQuote s @ CHR '' '' # rest) = map_option ((#) (Word s)) (sh_lex Blank rest)" for s rest
    by (simp add: sh_lex_shellQuote sh_blank_def)
  have plain: "list_all sh_plain ''tail''" "list_all sh_plain ''-n0''" "list_all sh_plain ''-F''"
    by code_simp+
  have "sh_lex Blank (''tail'' @ CHR '' '' # ''-n0'' @ CHR '' '' # ''-F'' @ CHR '' '' # rest)
      = map_option (\<lambda>ts. Word ''tail'' # Word ''-n0'' # Word ''-F'' # ts) (sh_lex Blank rest)" for rest
    unfolding sh_lex_word [OF plain(1) list.distinct(2)] sh_lex_word [OF plain(2) list.distinct(2)]
      sh_lex_word [OF plain(3) list.distinct(2)]
    by (simp add: option.map_comp comp_def)
  then have head: "sh_lex Blank (''tail -n0 -F '' @ rest)
      = map_option (\<lambda>ts. Word ''tail'' # Word ''-n0'' # Word ''-F'' # ts) (sh_lex Blank rest)" for rest
    by simp
  show ?thesis
    unfolding sh_tokens_def live_script_def head
    by (simp add: quoted redir keyLog_def del: sh_lex.simps)
qed

section \<open>The timeline of the dashboard\<close>

lemma last_of_keep: "0 \<le> n \<Longrightarrow> last_of n xs = Some (drop (length xs - nat n) xs)"
  by (auto simp: last_of_def)

lemma SliceStable_map:
  assumes "\<And>a b. lt' (f a) (f b) = lt a b"
  shows "SliceStable lt' (map f xs) = map f (SliceStable lt xs)"
proof -
  have ins: "ins_left lt' (f x) (map f ys) = map f (ins_left lt x ys)" for x ys
    using assms by (induction ys) simp_all
  have "foldl (\<lambda>acc x. ins_left lt' x acc) (map f ys) (map f xs) = map f (foldl (\<lambda>acc x. ins_left lt x acc) ys xs)" for ys
    by (induction xs arbitrary: ys) (simp_all add: ins)
  from this [of "[]"] show ?thesis by (simp add: SliceStable_def rev_map)
qed

text \<open>Building the timeline panics exactly for a negative number of entries.\<close>

lemma build_items_panics: "build_items n buf cmd keys = None \<longleftrightarrow> n < 0"
  by (auto simp: build_items_def last_of_def bind_eq_None_conv Let_def)

section \<open>Sizes\<close>

lemma unit_loop_value:
  "1 \<le> v \<Longrightarrow> v < 1024 ^ k \<Longrightarrow> 0 < k \<Longrightarrow> snd (unit_loop v d e) < e + k"
proof (induction k arbitrary: v d e)
  case 0
  then show ?case by simp
next
  case (Suc k)
  show ?case
  proof (cases "1024 \<le> v")
    case False
    then show ?thesis by (simp add: unit_loop.simps [of v d e])
  next
    case True
    then have k: "0 < k" using Suc.prems(2) by (cases k) simp_all
    have "v div 1024 < 1024 ^ k"
      using Suc.prems(2) by (simp add: div_less_iff_less_mult mult.commute)
    moreover have "1 \<le> v div 1024" using True by simp
    ultimately have "snd (unit_loop (v div 1024) (d * 1024) (Suc e)) < Suc e + k"
      using Suc.IH k by blast
    then show ?thesis using True by (simp add: unit_loop.simps [of v d e])
  qed
qed

lemma humanSize_below_exa: "n < 2 ^ 60 \<Longrightarrow> humanSize n \<noteq> None"
proof -
  assume n: "n < 2 ^ 60"
  show "humanSize n \<noteq> None"
  proof (cases "n < 1024")
    case True
    then show ?thesis by (simp add: humanSize_def)
  next
    case False
    obtain d e where u: "unit_loop (n div 1024) 1024 0 = (d, e)" by (cases "unit_loop (n div 1024) 1024 0")
    have "n div 1024 < 1024 ^ 5" using n by simp
    moreover have "1 \<le> n div 1024" using False by simp
    ultimately have "e < 5" using unit_loop_value [of "n div 1024" 5 1024 0] u by simp
    then show ?thesis using False u by (simp add: humanSize_def Let_def index_def suffixes_def)
  qed
qed

lemma humanSize_exabyte_panics: "humanSize (2 ^ 60) = None"
  by (simp add: humanSize_def unit_loop.simps index_def suffixes_def)

end
