(* ===== verification/CliCmd.thy ===== *)
theory CliCmd
  imports Cli
begin

text \<open>
  Model of the commands of \<^verbatim>\<open>cli/cli.go\<close> (status, enable, disable, logs, report, live, open and
  the menu) as steps on the host of \<open>Cli\<close>: every line printed and every program run is an operation
  of the trace, in order. A panic ends a run as an error of its own.
\<close>

type_synonym cstep = "cop step"

definition out :: "cli_host \<Rightarrow> string \<Rightarrow> cstep" where
  "out h s = quiet (c_do h) (Out s)"

definition err :: "cli_host \<Rightarrow> string \<Rightarrow> cstep" where
  "err h s = quiet (c_do h) (Err s)"

definition nl :: string where "nl = [CHR 10]"

definition panic :: string where "panic = ''panic: index out of range''"

text \<open>All steps run; the first error is the result.\<close>

fun all_steps :: "'op step list \<Rightarrow> 'op step" where
  "all_steps [] tr = (None, tr)"
| "all_steps (a # as) tr =
     (let (r1, tr1) = a tr; (r2, tr2) = all_steps as tr1 in (if r1 = None then r2 else r1, tr2))"

section \<open>Status\<close>

definition rule_line :: string where
  "rule_line = ''  '' @ replicate 58 (CHR ''-'') @ nl"

definition layer_line :: "cli_host \<Rightarrow> (cop trace \<Rightarrow> bool) \<Rightarrow> string \<Rightarrow> string \<Rightarrow> cstep" where
  "layer_line h on label note tr =
     (let pal = colors h in
      out h (''   '' @ dot pal (on tr) @ ''  '' @ pad_right 26 label @ '' '' @ pl_Dim pal @ note @ pl_N pal @ nl) tr)"

definition printLogLine :: "cli_host \<Rightarrow> palette \<Rightarrow> string \<Rightarrow> string \<Rightarrow> bool \<Rightarrow> cstep" where
  "printLogLine h pal name path privileged tr =
     (case log_numbers h tr path privileged of
        None \<Rightarrow> (Some panic, tr)
      | Some (sz, lines) \<Rightarrow>
          out h (''   '' @ pl_C pal @ pad_right 16 name @ pl_N pal @ '' '' @ pad_left 6 sz @ ''  '' @ lines @ '' lines'' @ nl) tr)"

definition Status :: "cli_host \<Rightarrow> cstep" where
  "Status h =
     (let p = resolvePaths h; pal = colors h in
      steps [out h (pl_Bold pal @ ''  LinAudit  '' @ pl_N pal @ pl_Dim pal @ ''monitoring control panel'' @ pl_N pal @ nl),
        out h rule_line,
        layer_line h (\<lambda>tr. shellOn h tr p) ''shell prompt + command log'' (''exec'' @ [CHR 0x27] @ ''d cmds (bash/zsh/fish) + prompt text (zsh)''),
        layer_line h (\<lambda>tr. c_active h tr inputService) ''input-device attribution'' ''which device emitted each keystroke'',
        layer_line h (\<lambda>tr. c_active h tr auditService) ''auditd exec/uinput/usb'' ''executions, injection & BadUSB'',
        out h rule_line,
        printLogLine h pal ''buffer.log'' (pt_buflog p) False,
        printLogLine h pal ''commands.log'' (pt_cmdlog p) False,
        printLogLine h pal ''keys.log'' keyLog True,
        out h nl])"

section \<open>Enable and disable\<close>

definition finishToggle :: "cli_host \<Rightarrow> string option \<Rightarrow> cstep" where
  "finishToggle h e =
     (case e of
        Some msg \<Rightarrow> steps [err h (''linaudit: '' @ msg @ nl), Status h]
      | None \<Rightarrow> Status h)"

definition toggled :: "cli_host \<Rightarrow> cstep \<Rightarrow> cstep" where
  "toggled h a tr = (case a tr of (e, tr) \<Rightarrow> finishToggle h e tr)"

definition runInteractive :: "cli_host \<Rightarrow> string \<Rightarrow> string list \<Rightarrow> cstep" where
  "runInteractive h name args = act (c_do h) (RunTTY name args) (name @ '' '' @ join '' '' args)"

definition commandExists :: "cli_host \<Rightarrow> string \<Rightarrow> bool" where
  "commandExists h name \<longleftrightarrow> c_lookpath h name \<noteq> None"

definition wire_block :: "string \<Rightarrow> string" where
  "wire_block sourceLine = nl @ ''# LinAudit'' @ nl @ sourceLine @ nl"

definition write_or_close :: "cli_host \<Rightarrow> string \<Rightarrow> string \<Rightarrow> string \<Rightarrow> cstep" where
  "write_or_close h path text what tr =
     (case act (c_do h) (WriteString path text) what tr of
        (None, tr) \<Rightarrow> (None, tr)
      | (Some e, tr) \<Rightarrow> (Some e, snd (perform (c_do h) (CloseFile path) tr)))"

definition wireRc :: "cli_host \<Rightarrow> string \<Rightarrow> string \<Rightarrow> string \<Rightarrow> cstep" where
  "wireRc h rc sourceLine marker tr =
     (if fileContains h tr rc marker then (None, tr)
      else
        steps [act (c_do h) (OpenFile rc True 420) (''append '' @ rc),
          write_or_close h rc (wire_block sourceLine) (''append '' @ rc),
          act (c_do h) (CloseFile rc) (''append '' @ rc)] tr)"

definition zsh_line :: string where
  "zsh_line = ''[[ -f ~/.config/zsh/linaudit.zsh ]] && source ~/.config/zsh/linaudit.zsh''"

definition bash_line :: string where
  "bash_line = ''[ -f ~/.config/bash/linaudit.bash ] && . ~/.config/bash/linaudit.bash''"

definition remove_flag :: "cli_host \<Rightarrow> paths \<Rightarrow> cstep" where
  "remove_flag h p tr =
     (case perform (c_do h) (Remove (pt_disflag p)) tr of
        (None, tr) \<Rightarrow> (None, tr)
      | (Some e, tr) \<Rightarrow> (if c_notExist h e then None else Some (''remove disabled flag: '' @ e), tr))"

definition enableShell :: "cli_host \<Rightarrow> paths \<Rightarrow> cstep" where
  "enableShell h p =
     all_steps [
       if commandExists h ''zsh'' then wireRc h (pt_zshrc p) zsh_line ''linaudit.zsh'' else skip,
       if commandExists h ''bash'' then wireRc h (pt_bashrc p) bash_line ''linaudit.bash'' else skip,
       remove_flag h p]"

text \<open>The last close of the flag file returns its error as it is.\<close>

definition close_last :: "cli_host \<Rightarrow> string \<Rightarrow> cstep" where
  "close_last h path = perform (c_do h) (CloseFile path)"

definition disableShell :: "cli_host \<Rightarrow> paths \<Rightarrow> cstep" where
  "disableShell h p =
     steps [act (c_do h) (MkdirAll (pt_zdir p) 448) ''create state dir'',
       act (c_do h) (OpenFile (pt_disflag p) False 420) ''create disabled flag'',
       close_last h (pt_disflag p)]"

definition auditdInstalled :: "cli_host \<Rightarrow> cop trace \<Rightarrow> bool" where
  "auditdInstalled h tr =
     (case c_output h tr ''systemctl'' [''list-unit-files'', auditService, ''--no-legend''] of
        Done s \<Rightarrow> str_contains s ''auditd''
      | Exited s \<Rightarrow> str_contains s ''auditd''
      | Unavailable e \<Rightarrow> False)"

definition install_hint :: string where
  "install_hint = ''  install it:  Debian/Ubuntu/Mint/Pop -> sudo apt install auditd  |  Fedora/RHEL -> sudo dnf install audit  |  Arch/Manjaro -> sudo pacman -S audit  |  openSUSE -> sudo zypper install audit''"

definition enableService :: "cli_host \<Rightarrow> string \<Rightarrow> bool \<Rightarrow> cstep" where
  "enableService h svc audit tr =
     (if audit \<and> \<not> auditdInstalled h tr then
        steps [err h (''auditd is not installed; the exec / uinput / USB audit plane is unavailable.'' @ nl),
          err h (install_hint @ nl)] tr
      else
        steps [runInteractive h ''sudo'' [''systemctl'', ''enable'', ''--now'', svc],
          if audit then act (c_do h) (RunCmd ''sudo'' [''auditctl'', ''-e'', ''1'']) ''auditctl -e 1'' else skip] tr)"

definition disableService :: "cli_host \<Rightarrow> string \<Rightarrow> cstep" where
  "disableService h svc = runInteractive h ''sudo'' [''systemctl'', ''disable'', ''--now'', svc]"

definition shell_names :: "string list" where
  "shell_names = [''shell'', ''zsh'', ''bash'', ''fish'']"

definition Enable :: "cli_host \<Rightarrow> string \<Rightarrow> cstep" where
  "Enable h layer =
     (let p = resolvePaths h in
      if layer \<in> set shell_names then toggled h (enableShell h p)
      else if layer = ''input'' then toggled h (enableService h inputService False)
      else if layer = ''audit'' then toggled h (enableService h auditService True)
      else if layer = ''all'' then
        toggled h (all_steps [enableShell h p, enableService h inputService False, enableService h auditService True])
      else steps [out h (''enable shell|input|audit|all'' @ nl), Status h])"

definition Disable :: "cli_host \<Rightarrow> string \<Rightarrow> cstep" where
  "Disable h layer =
     (let p = resolvePaths h in
      if layer \<in> set shell_names then toggled h (disableShell h p)
      else if layer = ''input'' then toggled h (disableService h inputService)
      else if layer = ''audit'' then toggled h (disableService h auditService)
      else if layer = ''all'' then
        toggled h (all_steps [disableShell h p, disableService h inputService, disableService h auditService])
      else steps [out h (''disable shell|input|audit|all'' @ nl), Status h])"

section \<open>Logs\<close>

definition pagerCommand :: "cli_host \<Rightarrow> string \<times> string list" where
  "pagerCommand h =
     (let v = TrimSpace (c_env h ''PAGER'') in
      if v \<noteq> '''' then let fields = Fields v in (hd fields, tl fields) else (''less'', [''-R'']))"

text \<open>A pager that fails leaves what it has not taken of the text to the standard output.\<close>

definition page :: "cli_host \<Rightarrow> string \<Rightarrow> cstep" where
  "page h text tr =
     (if \<not> c_tty h then perform (c_do h) (Out text) tr
      else
        let (name, args) = pagerCommand h in
        (case perform (c_do h) (Pager name args text) tr of
           (None, tr) \<Rightarrow> (None, tr)
         | (Some e, tr) \<Rightarrow> perform (c_do h) (Out (drop (c_taken h tr) text)) tr))"

definition unavailable :: "string \<Rightarrow> string" where
  "unavailable e = ''(unavailable: '' @ e @ '')'' @ nl"

definition pageCmd :: "cli_host \<Rightarrow> string \<Rightarrow> string list \<Rightarrow> cstep" where
  "pageCmd h name args tr =
     (case c_output h tr name args of
        Done s \<Rightarrow> page h s tr
      | Exited s \<Rightarrow> page h s tr
      | Unavailable e \<Rightarrow> page h (unavailable e) tr)"

definition pageSudoCat :: "cli_host \<Rightarrow> string \<Rightarrow> cstep" where
  "pageSudoCat h path = pageCmd h ''sudo'' [''cat'', path]"

definition pageFile :: "cli_host \<Rightarrow> string \<Rightarrow> bool \<Rightarrow> cstep" where
  "pageFile h path privileged tr =
     (case c_open h tr path of
        Inr data \<Rightarrow> page h data tr
      | Inl (Denied e) \<Rightarrow> if privileged then pageSudoCat h path tr else page h (unavailable e) tr
      | Inl (Missing e) \<Rightarrow> page h (unavailable e) tr
      | Inl (Other e) \<Rightarrow> if privileged then pageSudoCat h path tr else page h (unavailable e) tr)"

definition pageDevices :: "cli_host \<Rightarrow> cstep" where
  "pageDevices h = pageCmd h ''sudo'' [''grep'', ''-E'', ''DEVICE_ADDED|DEVICE_REMOVED|AUDIT_START'', keyLog]"

definition pageUSB :: "cli_host \<Rightarrow> cstep" where
  "pageUSB h = pageCmd h ''journalctl'' [''-t'', ''linaudit-usb'', ''-t'', ''linaudit-input'', ''-n'', ''100'', ''--no-pager'']"

definition Logs :: "cli_host \<Rightarrow> string \<Rightarrow> cstep" where
  "Logs h which =
     (let p = resolvePaths h in
      if which = ''buffer'' then pageFile h (pt_buflog p) False
      else if which = ''exec'' then pageFile h (pt_cmdlog p) False
      else if which = ''keys'' then pageFile h keyLog True
      else if which = ''devices'' then pageDevices h
      else if which = ''usb'' then pageUSB h
      else out h (''unknown log '' @ [CHR 0x27] @ which @ [CHR 0x27] @ '' (buffer|exec|keys|devices|usb)'' @ nl))"

definition Report :: "cli_host \<Rightarrow> string \<Rightarrow> cstep" where
  "Report h arg tr = (case reportTo h tr arg of None \<Rightarrow> (Some panic, tr) | Some text \<Rightarrow> out h text tr)"

section \<open>Live and open\<close>

definition live_output :: "cli_host \<Rightarrow> paths \<Rightarrow> cstep" where
  "live_output h p tr =
     (let text = (case c_output h tr ''sudo'' [''sh'', ''-c'', live_script p] of Done s \<Rightarrow> s | Exited s \<Rightarrow> s | Unavailable e \<Rightarrow> '''');
          lines = fst (scan_lines (4 * 1024 * 1024) text)
      in steps (map (out h) (List.map_filter (live_line (colors h)) lines)) tr)"

definition live_note :: "cli_host \<Rightarrow> palette \<Rightarrow> paths \<Rightarrow> cstep" where
  "live_note h pal p tr =
     (case c_stat h tr (pt_buflog p) of
        Some (Missing e) \<Rightarrow> out h (pl_Y pal @ ''note'' @ pl_N pal @ '': '' @ pt_buflog p
          @ '' does not exist yet -- if the store is set up, run `sudo linaudit store up` to mount /var/log/linaudit. Tailing anyway; lines appear once logging starts.'' @ nl) tr
      | _ \<Rightarrow> (None, tr))"

definition Live :: "cli_host \<Rightarrow> cstep" where
  "Live h =
     (let pal = colors h; p = resolvePaths h in
      steps [out h (''live unified tail -- Ctrl-C to stop. '' @ pl_M pal @ ''BUF'' @ pl_N pal @ ''=prompt '' @ pl_Y pal @ ''EXEC''
          @ pl_N pal @ ''=command '' @ pl_Dim pal @ ''KEY'' @ pl_N pal @ ''=keystroke'' @ nl),
        live_note h pal p,
        act (c_do h) MakePipe ''live tail pipe'',
        act (c_do h) (StartCmd ''sudo'' [''sh'', ''-c'', live_script p]) ''start live tail'',
        live_output h p])"

definition no_browser :: string where
  "no_browser = ''no browser found (set $BROWSER or install xdg-open/brave/firefox/chromium)''"

fun first_found :: "cli_host \<Rightarrow> string list \<Rightarrow> string option" where
  "first_found h [] = None"
| "first_found h (name # names) = (case c_lookpath h name of Some path \<Rightarrow> Some path | None \<Rightarrow> first_found h names)"

definition findBrowser :: "cli_host \<Rightarrow> string + string" where
  "findBrowser h =
     (let b = TrimSpace (c_env h ''BROWSER'') in
      if b \<noteq> '''' then Inr b
      else case first_found h [''xdg-open'', ''brave'', ''firefox'', ''chromium''] of
          Some path \<Rightarrow> Inr path
        | None \<Rightarrow> Inl no_browser)"

definition Open :: "cli_host \<Rightarrow> cstep" where
  "Open h tr =
     (case findBrowser h of
        Inl e \<Rightarrow> (Some e, tr)
      | Inr browser \<Rightarrow>
          steps [act (c_do h)
              (if c_lookpath h ''setsid'' \<noteq> None then StartCmd ''setsid'' [browser, dashboardURL] else StartCmd browser [dashboardURL])
              (''launch browser '' @ c_quote h browser),
            out h (''opening '' @ dashboardURL @ nl)] tr)"

section \<open>The menu\<close>

definition clearScreen :: "cli_host \<Rightarrow> cstep" where
  "clearScreen h = (if c_tty h then out h (esc ''[2J'' @ esc ''[H'') else skip)"

definition reportToggle :: "cli_host \<Rightarrow> cstep \<Rightarrow> cstep" where
  "reportToggle h a tr =
     (case a tr of
        (None, tr) \<Rightarrow> (None, tr)
      | (Some e, tr) \<Rightarrow> err h (''linaudit: '' @ e @ nl) tr)"

definition runView :: "cli_host \<Rightarrow> string \<Rightarrow> cstep" where
  "runView h which = reportToggle h (Logs h which)"

text \<open>A line of the input with its end, what is left, and whether the input ended first.\<close>

definition read_line :: "string \<Rightarrow> string \<times> string \<times> bool" where
  "read_line s =
     (case index_byte s (CHR 10) of
        Some i \<Rightarrow> (take (Suc i) s, drop (Suc i) s, False)
      | None \<Rightarrow> (s, [], True))"

text \<open>\<open>None\<close> when the input ends.\<close>

definition readChoice :: "string \<Rightarrow> (string \<times> string) option" where
  "readChoice s =
     (case read_line s of (line0, rest, eof) \<Rightarrow>
        let line = TrimSpace line0 in if eof \<and> line = '''' then None else Some (line, rest))"

definition menu_text :: "cli_host \<Rightarrow> cstep" where
  "menu_text h =
     (let pal = colors h in
      steps [out h (''  '' @ pl_Bold pal @ ''toggles'' @ pl_N pal @ ''   [1] shell   [2] input   [3] auditd'' @ nl),
        out h (''  '' @ pl_Bold pal @ ''view'' @ pl_N pal @ ''      [4] buffer  [5] exec  [6] keystrokes  [7] devices  [8] usb'' @ nl),
        out h (''  '' @ pl_Bold pal @ ''analyze'' @ pl_N pal @ ''   [9] correlate   [0] live tail'' @ nl),
        out h (''            [q] quit'' @ nl),
        out h ''  > ''])"

definition menu_report :: "cli_host \<Rightarrow> cstep" where
  "menu_report h tr =
     (case reportTo h tr ''25'' of None \<Rightarrow> (Some panic, tr) | Some text \<Rightarrow> reportToggle h (page h text) tr)"

definition menu_action :: "cli_host \<Rightarrow> string \<Rightarrow> cstep" where
  "menu_action h choice =
     (let p = resolvePaths h in
      if choice = ''1'' then
        (\<lambda>tr. reportToggle h (if shellOn h tr p then disableShell h p else enableShell h p) tr)
      else if choice = ''2'' then
        (\<lambda>tr. reportToggle h (if c_active h tr inputService then disableService h inputService
           else enableService h inputService False) tr)
      else if choice = ''3'' then
        (\<lambda>tr. reportToggle h (if c_active h tr auditService then disableService h auditService
           else enableService h auditService True) tr)
      else if choice = ''4'' then runView h ''buffer''
      else if choice = ''5'' then runView h ''exec''
      else if choice = ''6'' then runView h ''keys''
      else if choice = ''7'' then runView h ''devices''
      else if choice = ''8'' then runView h ''usb''
      else if choice = ''9'' then menu_report h
      else if choice = ''0'' then reportToggle h (Live h)
      else skip)"

lemma readChoice_shorter: "readChoice s = Some (c, rest) \<Longrightarrow> length rest < length s"
proof -
  have "TrimSpace [] = []" by (simp add: TrimSpace_def)
  then show "readChoice s = Some (c, rest) \<Longrightarrow> length rest < length s"
    using index_byte_SomeD [of s "CHR 10"]
    by (cases s) (auto simp: readChoice_def read_line_def Let_def split: option.splits if_splits)
qed

function Menu :: "cli_host \<Rightarrow> string \<Rightarrow> cstep" where
  "Menu h stdin tr =
     (case steps [clearScreen h, Status h, menu_text h] tr of
        (Some e, tr1) \<Rightarrow> (Some e, tr1)
      | (None, tr1) \<Rightarrow>
          (case readChoice stdin of
             None \<Rightarrow> out h nl tr1
           | Some (choice, rest) \<Rightarrow>
               (case out h nl tr1 of (r, tr2) \<Rightarrow>
                  if choice = ''q'' \<or> choice = ''Q'' then (None, tr2)
                  else
                    (case menu_action h choice tr2 of
                       (Some e, tr3) \<Rightarrow> (Some e, tr3)
                     | (None, tr3) \<Rightarrow> Menu h rest tr3))))"
  by pat_completeness auto
termination
  by (relation "measure (\<lambda>(h, stdin, tr). length stdin)") (auto dest: readChoice_shorter)

declare Menu.simps [simp del]

section \<open>Which commands run\<close>

lemma only_pointwise: "(\<And>tr. \<exists>b. a tr = b tr \<and> only P b) \<Longrightarrow> only P a"
  unfolding only_def by metis

lemma only_bind:
  assumes "only P a" and "\<And>r. only P (f r)"
  shows "only P (\<lambda>tr. case a tr of (r, tr') \<Rightarrow> f r tr')"
proof (rule onlyI)
  fix tr
  obtain r tr1 where a: "a tr = (r, tr1)" by (cases "a tr")
  obtain r2 tr2 where b: "f r tr1 = (r2, tr2)" by (cases "f r tr1")
  from onlyD [OF assms(1) a] onlyD [OF assms(2) b]
  show "\<exists>ext. snd (case a tr of (r, tr') \<Rightarrow> f r tr') = tr @ ext \<and> list_all (P \<circ> fst) ext"
    by (auto simp: a b)
qed

lemma only_perform [only_intros]: "P p \<Longrightarrow> only P (perform f p)"
  by (intro onlyI) (simp add: perform_def Let_def)

lemma only_ret [only_intros]: "only P (Pair e)"
  by (intro onlyI) simp

lemma only_cases [only_intros]: "only P a \<Longrightarrow> only P b \<Longrightarrow> only P (if c then a else b)"
  by simp

lemma only_all_steps_Nil [only_intros]: "only P (all_steps [])"
  by (intro onlyI) simp

lemma only_all_steps_Cons [only_intros]:
  assumes "only P a" and "only P (all_steps as)"
  shows "only P (all_steps (a # as))"
proof -
  have "all_steps (a # as) = (\<lambda>tr. case a tr of (r1, tr1) \<Rightarrow> (\<lambda>tr1. case all_steps as tr1 of (r2, tr2) \<Rightarrow> Pair (if r1 = None then r2 else r1) tr2) tr1)"
    by (simp add: fun_eq_iff)
  moreover have "only P \<dots>" by (intro only_bind assms only_ret)
  ultimately show ?thesis by simp
qed

lemma only_steps_map: "(\<And>x. only P (f x)) \<Longrightarrow> only P (steps (map f xs))"
  by (induction xs) (auto intro: only_intros)

text \<open>
  A policy on operations that lets a command print and run the pager of its host: what only prints
  and pages meets every such policy, whatever else the policy allows.
\<close>

locale output_policy =
  fixes h :: cli_host and allowed :: "cop \<Rightarrow> bool"
  assumes prints: "allowed (Out s)" "allowed (Err s)"
    and pages: "pagerCommand h = (name, args) \<Longrightarrow> allowed (Pager name args s)"
begin

lemma only_out [only_intros]: "only allowed (out h s)"
  unfolding out_def by (intro only_intros) (rule prints)

lemma only_err [only_intros]: "only allowed (err h s)"
  unfolding err_def by (intro only_intros) (rule prints)

lemma only_layer_line [only_intros]: "only allowed (layer_line h on label note)"
  by (rule only_pointwise) (auto simp: layer_line_def Let_def intro: only_out)

lemma only_printLogLine [only_intros]: "only allowed (printLogLine h pal name path priv)"
proof (rule only_pointwise)
  fix tr
  show "\<exists>b. printLogLine h pal name path priv tr = b tr \<and> only allowed b"
    by (cases "log_numbers h tr path priv") (auto simp: printLogLine_def split: prod.split intro: only_out only_ret)
qed

lemma only_Status [only_intros]: "only allowed (Status h)"
  unfolding Status_def Let_def by (intro only_intros)

lemma only_finishToggle [only_intros]: "only allowed (finishToggle h e)"
  unfolding finishToggle_def by (cases e) (auto intro: only_intros)

lemma only_toggled [only_intros]: "only allowed a \<Longrightarrow> only allowed (toggled h a)"
  unfolding toggled_def by (intro only_bind only_intros)

lemma only_reportToggle [only_intros]:
  assumes "only allowed a"
  shows "only allowed (reportToggle h a)"
proof -
  have "reportToggle h a = (\<lambda>tr. case a tr of (r, tr') \<Rightarrow> (case r of None \<Rightarrow> Pair None | Some e \<Rightarrow> err h (''linaudit: '' @ e @ nl)) tr')"
    by (auto simp: fun_eq_iff reportToggle_def split: option.split prod.split)
  moreover have "only allowed \<dots>"
    by (intro only_bind assms) (auto split: option.split intro: only_intros)
  ultimately show ?thesis by simp
qed

lemma only_page [only_intros]: "only allowed (page h text)"
  by (intro onlyI) (auto simp: page_def perform_def Let_def prints pages split: option.split prod.split)

lemma only_pageCmd [only_intros]: "only allowed (pageCmd h name args)"
  by (rule only_pointwise) (auto simp: pageCmd_def split: exec_result.split intro: only_page)

lemma only_pageFile [only_intros]: "only allowed (pageFile h path priv)"
  by (rule only_pointwise)
    (auto simp: pageFile_def pageSudoCat_def split: sum.split open_error.split intro: only_page only_pageCmd)

lemma only_Logs [only_intros]: "only allowed (Logs h which)"
  unfolding Logs_def Let_def pageDevices_def pageUSB_def by (intro only_intros)

lemma only_live_note [only_intros]: "only allowed (live_note h pal p)"
  by (rule only_pointwise) (auto simp: live_note_def split: option.split open_error.split intro: only_out only_ret)

lemma only_live_output [only_intros]: "only allowed (live_output h p')"
  by (rule only_pointwise) (auto simp: live_output_def Let_def intro!: only_steps_map only_out)

lemma only_menu_report [only_intros]: "only allowed (menu_report h)"
proof (rule only_pointwise)
  fix tr
  show "\<exists>b. menu_report h tr = b tr \<and> only allowed b"
  proof (cases "reportTo h tr ''25''")
    case None
    then show ?thesis by (intro exI [of _ "Pair (Some panic)"]) (simp add: menu_report_def only_ret)
  next
    case (Some x)
    then show ?thesis
      by (intro exI [of _ "reportToggle h (page h x)"]) (simp add: menu_report_def only_reportToggle only_page)
  qed
qed

lemma only_flip [only_intros]:
  assumes "only allowed a" and "only allowed b"
  shows "only allowed (\<lambda>tr. reportToggle h (if c tr then a else b) tr)"
proof (rule only_pointwise)
  fix tr
  show "\<exists>s. reportToggle h (if c tr then a else b) tr = s tr \<and> only allowed s"
    using only_reportToggle [OF assms(1)] only_reportToggle [OF assms(2)] by (cases "c tr") auto
qed

end

text \<open>The external commands that change something, with their whole argument vectors.\<close>

definition service_args :: "string list list" where
  "service_args =
     [[''systemctl'', ''enable'', ''--now'', ''linaudit-input.service''], [''systemctl'', ''disable'', ''--now'', ''linaudit-input.service''],
      [''systemctl'', ''enable'', ''--now'', ''auditd.service''], [''systemctl'', ''disable'', ''--now'', ''auditd.service'']]"

text \<open>The files a command may touch, below the home directory of the user, with their modes (octal 700 and
  644), and the two blocks it may write.\<close>

definition state_dir :: "cli_host \<Rightarrow> string" where
  "state_dir h = path_Join [home h, ''.local'', ''share'', ''linaudit'']"

definition flag_file :: "cli_host \<Rightarrow> string" where
  "flag_file h = path_Join [state_dir h, ''disabled'']"

definition zsh_file :: "cli_host \<Rightarrow> string" where
  "zsh_file h = path_Join [home h, ''.zshrc'']"

definition bash_file :: "cli_host \<Rightarrow> string" where
  "bash_file h = path_Join [home h, ''.bashrc'']"

definition zsh_block :: string where
  "zsh_block = [CHR 10] @ ''# LinAudit'' @ [CHR 10]
     @ ''[[ -f ~/.config/zsh/linaudit.zsh ]] && source ~/.config/zsh/linaudit.zsh'' @ [CHR 10]"

definition bash_block :: string where
  "bash_block = [CHR 10] @ ''# LinAudit'' @ [CHR 10]
     @ ''[ -f ~/.config/bash/linaudit.bash ] && . ~/.config/bash/linaudit.bash'' @ [CHR 10]"

text \<open>The pager is the user's: the words of \<^verbatim>\<open>PAGER\<close>, or \<^verbatim>\<open>less -R\<close> when it is blank.\<close>

definition pager_words :: "cli_host \<Rightarrow> string list" where
  "pager_words h =
     (let v = TrimSpace (c_env h ''PAGER'') in
      if v = [] then [''less'', ''-R''] else hd (Fields v) # tl (Fields v))"

fun permitted :: "cli_host \<Rightarrow> cop \<Rightarrow> bool" where
  "permitted h (Out s) \<longleftrightarrow> True"
| "permitted h (Err s) \<longleftrightarrow> True"
| "permitted h MakePipe \<longleftrightarrow> True"
| "permitted h (Pager name args s) \<longleftrightarrow> name # args = pager_words h"
| "permitted h (RunTTY name args) \<longleftrightarrow> name = ''sudo'' \<and> args \<in> set service_args"
| "permitted h (RunCmd name args) \<longleftrightarrow> name = ''sudo'' \<and> args = [''auditctl'', ''-e'', ''1'']"
| "permitted h (StartCmd name args) \<longleftrightarrow> name = ''sudo'' \<and> args = [''sh'', ''-c'', live_script (resolvePaths h)]"
| "permitted h (Remove path) \<longleftrightarrow> path = flag_file h"
| "permitted h (MkdirAll path mode) \<longleftrightarrow> path = state_dir h \<and> mode = 7 * 64"
| "permitted h (OpenFile path app mode) \<longleftrightarrow>
     mode = 6 * 64 + 4 * 8 + 4 \<and> (if app then path = zsh_file h \<or> path = bash_file h else path = flag_file h)"
| "permitted h (WriteString path s) \<longleftrightarrow> path = zsh_file h \<and> s = zsh_block \<or> path = bash_file h \<and> s = bash_block"
| "permitted h (CloseFile path) \<longleftrightarrow> path = flag_file h \<or> path = zsh_file h \<or> path = bash_file h"

lemma paths_permitted:
  "pt_zdir (resolvePaths h) = state_dir h" "pt_disflag (resolvePaths h) = flag_file h"
  "pt_zshrc (resolvePaths h) = zsh_file h" "pt_bashrc (resolvePaths h) = bash_file h"
  by (simp_all add: resolvePaths_def state_dir_def flag_file_def zsh_file_def bash_file_def Let_def)

lemma blocks_permitted: "wire_block zsh_line = zsh_block" "wire_block bash_line = bash_block"
  by (simp_all add: wire_block_def nl_def zsh_line_def bash_line_def zsh_block_def bash_block_def)

lemmas permitted_facts = paths_permitted blocks_permitted service_args_def inputService_def auditService_def

interpretation policy: output_policy h "permitted h" for h
  by unfold_locales (auto simp: pagerCommand_def pager_words_def Let_def)

lemma only_write_or_close [only_intros]:
  assumes "permitted h (WriteString path text)" and "permitted h (CloseFile path)"
  shows "only (permitted h) (write_or_close h' path text what)"
  using assms
  by (intro onlyI) (auto simp: write_or_close_def act_def perform_def Let_def simp del: permitted.simps split: option.split)

lemma only_wireRc:
  assumes "permitted h (WriteString rc (wire_block line))" and "permitted h (CloseFile rc)" and "permitted h (OpenFile rc True 420)"
  shows "only (permitted h) (wireRc h' rc line marker)"
  unfolding wireRc_def by (intro only_if only_intros assms)

lemma only_remove_flag [only_intros]: "only (permitted h) (remove_flag h (resolvePaths h))"
  by (intro onlyI) (simp add: remove_flag_def perform_def Let_def permitted_facts split: option.split)

lemma only_enableShell [only_intros]: "only (permitted h) (enableShell h (resolvePaths h))"
  unfolding enableShell_def by (intro only_intros only_wireRc) (simp_all add: permitted_facts)

lemma only_disableShell [only_intros]: "only (permitted h) (disableShell h (resolvePaths h))"
  unfolding disableShell_def close_last_def by (intro only_intros) (simp_all add: permitted_facts)

lemma only_enableService [only_intros]:
  assumes "svc = inputService \<or> svc = auditService"
  shows "only (permitted h) (enableService h svc audit)"
  unfolding enableService_def runInteractive_def
  by (intro only_if only_intros policy.only_err) (use assms in \<open>auto simp: permitted_facts\<close>)

lemma only_disableService [only_intros]:
  assumes "svc = inputService \<or> svc = auditService"
  shows "only (permitted h) (disableService h' svc)"
  unfolding disableService_def runInteractive_def
  by (intro only_intros) (use assms in \<open>auto simp: permitted_facts\<close>)

lemma only_Live [only_intros]: "only (permitted h) (Live h)"
  unfolding Live_def Let_def by (intro only_intros) simp_all

lemma only_menu_action [only_intros]: "only (permitted h) (menu_action h choice)"
proof -
  let ?P = "permitted h"
  have shell: "only ?P (\<lambda>tr. reportToggle h (if shellOn h tr p then disableShell h (resolvePaths h) else enableShell h (resolvePaths h)) tr)" for p
    by (intro policy.only_flip only_disableShell only_enableShell)
  have service: "only ?P (\<lambda>tr. reportToggle h (if c_active h tr s then disableService h svc else enableService h svc b) tr)"
    if "svc = inputService \<or> svc = auditService" for s svc b
    by (intro policy.only_flip only_disableService only_enableService that)
  have view: "only ?P (runView h which)" for which
    unfolding runView_def by (intro policy.only_reportToggle policy.only_Logs)
  have live: "only ?P (reportToggle h (Live h))" by (intro policy.only_reportToggle only_Live)
  show ?thesis
    unfolding menu_action_def Let_def
    by (intro only_cases shell service view live policy.only_menu_report only_skip) simp_all
qed

lemma only_Menu: "only (permitted h) (Menu h stdin)"
proof (rule onlyI)
  fix tr
  let ?P = "permitted h"
  have screen: "only ?P (steps [clearScreen h, Status h, menu_text h])"
    unfolding clearScreen_def menu_text_def Let_def by (intro only_intros)
  show "\<exists>ext. snd (Menu h stdin tr) = tr @ ext \<and> list_all (?P \<circ> fst) ext"
  proof (induction h stdin tr rule: Menu.induct)
    case (1 h stdin tr)
    let ?P = "permitted h"
    have screen: "only ?P (steps [clearScreen h, Status h, menu_text h])"
      unfolding clearScreen_def menu_text_def Let_def by (intro only_intros)
    obtain r1 tr1 where s: "steps [clearScreen h, Status h, menu_text h] tr = (r1, tr1)"
      by (cases "steps [clearScreen h, Status h, menu_text h] tr")
    obtain e1 where e1: "tr1 = tr @ e1" "list_all (?P \<circ> fst) e1" using onlyD [OF screen s] by blast
    obtain r2 tr2 where o: "out h nl tr1 = (r2, tr2)" by (cases "out h nl tr1")
    obtain e2 where e2: "tr2 = tr1 @ e2" "list_all (?P \<circ> fst) e2" using onlyD [OF policy.only_out o] by blast
    have upto2: "\<exists>ext. tr2 = tr @ ext \<and> list_all (?P \<circ> fst) ext"
      using e1 e2 by (intro exI [of _ "e1 @ e2"]) simp
    show ?case
    proof (cases r1)
      case (Some e)
      then have "Menu h stdin tr = (Some e, tr1)"
        by (simp only: Menu.simps [of h stdin tr] s prod.case option.case)
      then show ?thesis using e1 by (simp add: comp_def)
    next
      case None
      note m = Menu.simps [of h stdin tr, unfolded s None prod.case option.case]
      show ?thesis
      proof (cases "readChoice stdin")
        case None
        with m o upto2 show ?thesis by (simp add: comp_def)
      next
        case (Some cr)
        obtain choice rest where cr: "readChoice stdin = Some (choice, rest)" using Some by (cases cr) simp
        show ?thesis
        proof (cases "choice = ''q'' \<or> choice = ''Q''")
          case True
          with m cr o upto2 show ?thesis by (simp add: comp_def)
        next
          case False
          obtain r3 tr3 where a: "menu_action h choice tr2 = (r3, tr3)" by (cases "menu_action h choice tr2")
          obtain e3 where e3: "tr3 = tr2 @ e3" "list_all (?P \<circ> fst) e3" using onlyD [OF only_menu_action a] by blast
          have upto3: "\<exists>ext. tr3 = tr @ ext \<and> list_all (?P \<circ> fst) ext"
            using e1 e2 e3 by (intro exI [of _ "e1 @ e2 @ e3"]) simp
          show ?thesis
          proof (cases r3)
            case (Some e)
            with m cr o False a upto3 show ?thesis by (simp add: comp_def)
          next
            case None
            have "\<exists>ext. snd (Menu h rest tr3) = tr3 @ ext \<and> list_all (?P \<circ> fst) ext"
              by (rule "1.IH" [OF s [symmetric] \<open>r1 = None\<close> cr refl o [symmetric] False a [symmetric] None])
            with upto3 have "\<exists>ext. snd (Menu h rest tr3) = tr @ ext \<and> list_all (?P \<circ> fst) ext" by auto
            with m cr o False a None show ?thesis by (simp add: comp_def)
          qed
        qed
      qed
    qed
  qed
qed

text \<open>
  C39: Whatever the layer argument of enable and disable and the input of the menu, and whatever the
  host answers, every operation of the trace is one of these: printing; running the user's pager;
  \<^verbatim>\<open>sudo\<close> with one of four \<^verbatim>\<open>systemctl\<close> argument vectors or \<^verbatim>\<open>auditctl -e 1\<close>; the script of the
  live view; making the state directory; creating, closing and removing the disabled flag in it;
  and opening to append, writing and closing one of the two shell start-up files, where the text
  written is the fixed block of that shell. Commands whose output is only read (\<^verbatim>\<open>cat\<close>, \<^verbatim>\<open>wc\<close>,
  \<^verbatim>\<open>grep\<close>, \<^verbatim>\<open>journalctl\<close>, \<^verbatim>\<open>systemctl is-active\<close> and \<^verbatim>\<open>list-unit-files\<close>) are questions to the host
  and no part of the trace.
\<close>

theorem commands_fixed:
  "only (permitted h) (Enable h layer) \<and> only (permitted h) (Disable h layer) \<and> only (permitted h) (Menu h stdin)"
proof (intro conjI only_Menu)
  show "only (permitted h) (Enable h layer)"
    unfolding Enable_def Let_def by (intro only_intros policy.only_toggled policy.only_out policy.only_Status) simp_all
  show "only (permitted h) (Disable h layer)"
    unfolding Disable_def Let_def by (intro only_intros policy.only_toggled policy.only_out policy.only_Status) simp_all
qed

text \<open>The block that wires a shell has the marker, so a start-up file is wired once.\<close>

lemma wire_block_has_marker:
  "str_contains (wire_block zsh_line) ''linaudit.zsh'' \<and> str_contains (wire_block bash_line) ''linaudit.bash''"
  by code_simp

end
