(* ===== verification/MainCmd.thy ===== *)
theory MainCmd
  imports CliCmd
begin

text \<open>
  Model of \<^verbatim>\<open>cmd/linaudit/main.go\<close>: which entry point a command line reaches, with which
  argument, and the exit code of the process.
\<close>

datatype entry =
    WebRun | InputRun | StoreUp | StoreDown | StoreInit | StoreUsage
  | CliStatus | CliEnable string | CliDisable string | CliLogs string | CliReport string
  | CliLive | CliOpen | DoctorRun | CliMenu | PrintVersion | PrintUsage | Unknown string

definition Version :: string where
  "Version = ''2.2.1''"

definition arg :: "string list \<Rightarrow> nat \<Rightarrow> string" where
  "arg args i = (case index args i of Some v \<Rightarrow> v | None \<Rightarrow> '''')"

definition argDefault :: "string list \<Rightarrow> nat \<Rightarrow> string \<Rightarrow> string" where
  "argDefault args i def = (let v = arg args i in if v \<noteq> '''' then v else def)"

definition runStore :: "string list \<Rightarrow> entry" where
  "runStore args =
     (if arg args 0 = ''up'' then StoreUp
      else if arg args 0 = ''down'' then StoreDown
      else if arg args 0 = ''init'' then StoreInit
      else StoreUsage)"

definition store_usage :: string where
  "store_usage = ''usage: linaudit store up|down|init''"

definition dispatch :: "string \<Rightarrow> string list \<Rightarrow> entry" where
  "dispatch cmd args =
     (if cmd = ''web'' then WebRun
      else if cmd = ''input'' then InputRun
      else if cmd = ''store'' then runStore args
      else if cmd = ''status'' then CliStatus
      else if cmd = ''enable'' then CliEnable (arg args 0)
      else if cmd = ''disable'' then CliDisable (arg args 0)
      else if cmd = ''logs'' then CliLogs (argDefault args 0 ''buffer'')
      else if cmd = ''report'' then CliReport (argDefault args 0 ''15'')
      else if cmd = ''live'' then CliLive
      else if cmd = ''open'' then CliOpen
      else if cmd = ''doctor'' then DoctorRun
      else if cmd = ''menu'' then CliMenu
      else if cmd \<in> {''version'', ''-v'', ''--version''} then PrintVersion
      else if cmd \<in> {''help'', ''-h'', ''--help''} then PrintUsage
      else Unknown cmd)"

text \<open>The command is the first word of the command line, the menu when there is none.\<close>

definition main :: "string list \<Rightarrow> string \<times> entry" where
  "main line =
     (let cmd = (case line of [] \<Rightarrow> ''menu'' | c # _ \<Rightarrow> c); args = (case line of [] \<Rightarrow> [] | _ # rest \<Rightarrow> rest)
      in (cmd, dispatch cmd args))"

text \<open>The exit code, given the error that the entry point returned.\<close>

definition exit_code :: "entry \<Rightarrow> string option \<Rightarrow> nat" where
  "exit_code en e = (case en of Unknown cmd \<Rightarrow> 2 | StoreUsage \<Rightarrow> 1 | _ \<Rightarrow> if e \<noteq> None then 1 else 0)"

definition error_line :: "string \<Rightarrow> string \<Rightarrow> string" where
  "error_line cmd e = ''linaudit '' @ cmd @ '': '' @ e @ nl"

definition usage :: string where
  "usage = concat (map (\<lambda>l. l @ nl)
     [''linaudit -- local host-monitoring control panel'',
      '''',
      ''usage:'',
      ''  linaudit                      interactive control panel (default)'',
      ''  linaudit web                  run the dashboard server (127.0.0.1:8799)'',
      ''  linaudit input                run the input-source attribution logger'',
      ''  linaudit store up|down|init   unlock/mount, tear down, or create the encrypted store'',
      ''  linaudit status               print monitor status and exit'',
      ''  linaudit enable  LAYER        LAYER = shell | input | audit | all'',
      ''  linaudit disable LAYER'',
      ''  linaudit logs    WHICH        WHICH = buffer | exec | keys | devices | usb'',
      ''  linaudit report  [N]          correlate the last N prompt entries'',
      ''  linaudit live                 live unified tail (buffer + commands + keystrokes)'',
      ''  linaudit open                 open the dashboard in a browser'',
      ''  linaudit doctor               check environment readiness on this host'',
      ''  linaudit version''])"

text \<open>A negative number on the command line reaches the panic of the report.\<close>

lemma negative_report_panics:
  assumes "\<forall>path. c_open h tr path = Inl (Missing e)" and "c_output h tr ''sudo'' [''cat'', keyLog] = Exited s"
  shows "main [''report'', ''-5''] = (''report'', CliReport ''-5'') \<and> Report h ''-5'' tr = (Some panic, tr)"
proof -
  have n: "Atoi (TrimSpace ''-5'') = Some (- 5)" by code_simp
  have "buildReport h tr p (- 5) = None" for p
    using assms by (simp add: buildReport_def tailLines_def readTailBytes_def build_items_panics)
  then have "reportTo h tr ''-5'' = None" by (simp add: reportTo_def n)
  moreover have "main [''report'', ''-5''] = (''report'', CliReport ''-5'')" by code_simp
  ultimately show ?thesis by (simp add: Report_def)
qed

end
