(* ===== verification/Spec2Isabelle.thy ===== *)
theory Spec2Isabelle
  imports InputSteps Server Storage Doctor MainCmd
begin

text \<open>
  LinAudit is one Go binary that records what happens on a Linux host at three planes (keyboards, the
  shell prompt, executed programs), keeps the records on an encrypted store, and shows them in a
  dashboard on the local host and in a command line tool. This development models its Go code under
  \<^verbatim>\<open>src/\<close> and proves what makes the parts correct.

  \<^bold>\<open>Parts and how they interact.\<close> \<^verbatim>\<open>cmd/linaudit/main.go\<close> hands the command line to an entry point. The
  input monitor (\<^verbatim>\<open>inputmon\<close>) scans for event devices, starts a reader for each keyboard and writes
  one line per key press to the key log. The store (\<^verbatim>\<open>storage\<close>) opens, mounts and lays out the
  encrypted directory of the logs. The server (\<^verbatim>\<open>web/server.go\<close>, \<^verbatim>\<open>web/auth.go\<close>) authenticates
  requests and answers them from three sources: the logs (\<^verbatim>\<open>web/data.go\<close>), the process table
  (\<^verbatim>\<open>web/procmon\<close>) and the network document (\<^verbatim>\<open>web/netmon\<close>). The last takes socket dumps from
  netlink, owners from the socket inodes, and for each public peer a host name, a country and a
  network operator with its category. The command line tool (\<^verbatim>\<open>cli\<close>) shows status, toggles the
  planes, pages the logs and prints the same correlated report as the dashboard; \<^verbatim>\<open>doctor\<close> checks a
  host; \<^verbatim>\<open>identity\<close> finds the monitored user for both.

  \<^bold>\<open>Base.\<close> \<open>Prelude\<close> has the integers at their width, slices and indexing with their bounds check (an
  option, \<open>None\<close> the panic) and the byte readers; a value of type \<open>'a option\<close> means this panic
  wherever the code can have one. \<open>GoStrings\<close>, \<open>GoSort\<close>, \<open>GoNet\<close>, \<open>GoFloat\<close> and \<open>FloatParse\<close> model what the
  sources use of Go's library: strings as bytes with UTF-8 decoding, scanners, number parsing and
  printing, paths, sorting, addresses and prefixes, \<^verbatim>\<open>float64\<close> as the rationals of its values with
  rounding, infinities and NaN. \<open>Effects\<close> models code that is a sequence of commands and system
  calls: a step appends to a trace, its outcome is a function of everything before, and \<open>only\<close> says
  which operations a step can perform.

  \<^bold>\<open>Network.\<close>
  \<^item> \<open>Classify\<close> (\<^verbatim>\<open>classify.go\<close>): the prefix tables as strings, and \<open>classify\<close>, proved to be the
    registries' routable intervals together with the site-local block.
  \<^item> \<open>Netlink\<close> (\<^verbatim>\<open>netlink.go\<close>): request, receive loop, and the decoder with every slice bound; on any
    bytes it neither panics nor makes an ill-formed socket, and it reads back what the kernel wrote.
  \<^item> \<open>RangeIndex\<close>, \<open>GeoIP\<close>, \<open>ASN\<close> (\<^verbatim>\<open>geoip.go\<close>, \<^verbatim>\<open>asn.go\<close>): the search in sorted ranges with a running
    maximum is proved once, in the locale \<open>range_index\<close>, which both databases interpret; loading may
    not end, and the condition under which it does is proved.
  \<^item> \<open>OrgCat\<close> (\<^verbatim>\<open>orgcat.go\<close>): the tables and rules of categories. \<open>ProcMap\<close> (\<^verbatim>\<open>procmap.go\<close>): inodes to
    processes, the first owner wins.
  \<^item> \<open>RDNS\<close> (\<^verbatim>\<open>rdns.go\<close>): the cache as a map into a linked list, refined to a bounded list in order of
    use; callers, queue and workers as the step relation \<open>rstep\<close> with its invariant.
  \<^item> \<open>NetMon\<close> (\<^verbatim>\<open>netmon.go\<close>): socket snapshots, and \<open>build\<close>, whose tallies, process rows and connection
    rows are proved against the current sockets for any order of map iteration.

  \<^bold>\<open>Input.\<close> \<open>KeyCodes\<close> (\<^verbatim>\<open>keycodes.go\<close>): ioctl numbers, the key table, the 24-byte events. \<open>InputMon\<close>
  (\<^verbatim>\<open>inputmon.go\<close>, \<^verbatim>\<open>bus.go\<close>): the handlers and the lines of the log, which read back field by field
  whatever bytes a device name holds. \<open>InputSteps\<close>: scanner and readers interleave between their
  critical sections (\<open>istep\<close>); its lemmas give one reader per path, the history of a device in the
  log, and two defects that runs of the relation exhibit.

  \<^bold>\<open>Web.\<close> \<open>Scrypt\<close> and \<open>Auth\<close> (\<^verbatim>\<open>auth.go\<close>): scrypt in place on flat arrays, equal to the block-list
  reference of RFC 7914; the password record; the session table, which meets the locale
  \<open>session_table\<close>, the interface that the proofs about the server rest on. \<open>WebData\<close> (\<^verbatim>\<open>data.go\<close>):
  status, tails, views, report and toggles. \<open>ProcMon\<close> (\<^verbatim>\<open>procmon.go\<close>, \<^verbatim>\<open>gpu.go\<close>): the parsers of the proc
  file system and the capped table of leaders. \<open>Server\<close> (\<^verbatim>\<open>server.go\<close>): each handler whole, runs of
  requests, the login throttle in sequence and interleaved.

  \<^bold>\<open>Host.\<close> \<open>Storage\<close> (\<^verbatim>\<open>store.go\<close>), \<open>Identity\<close> (\<^verbatim>\<open>identity.go\<close>), \<open>Cli\<close> and \<open>CliCmd\<close> (\<^verbatim>\<open>cli.go\<close>), \<open>Doctor\<close>
  (\<^verbatim>\<open>doctor.go\<close>), \<open>MainCmd\<close> (\<^verbatim>\<open>main.go\<close>): every command and system call in order, with what may be
  done (\<open>permitted\<close>) and in which order (mount before layout, removal of the staged key at the end of every
  run of \<open>Init\<close> that ran a command) proved over all hosts.

  \<^bold>\<open>Parameters.\<close> What is not in the repository is an argument: the kernel's answers, the file systems,
  \<^verbatim>\<open>/proc\<close>, clocks, random bytes, HMAC-SHA256 (any function with 32 bytes of output), JSON (a law of
  round trip), CSV (a result per call), the order of map iteration and of \<^verbatim>\<open>sort.Slice\<close> (any permutation
  that sorts), the order of goroutines (a step relation), printable runes, \<^verbatim>\<open>strings.ToUpper\<close> beyond
  ASCII, and the commands run. The rules of the POSIX shell for the script of the live view are a
  reference in \<open>Cli\<close>, limited to lines in which nothing is expanded.

  \<^bold>\<open>Bounds.\<close> No definition takes fuel: loops are structural or have a measure, the loaders of the
  databases and the menu's end of input apart, which are a partial function with its condition of
  termination, and a recursion on what is left of the input. The width of integers is kept in the
  netlink decoder, scrypt, counters and tick sums; lengths, indices and times are unbounded, since the
  bounds of the code keep them small. The key length of \<open>scryptKey\<close> is unbounded too: the
  callers pass 32. A file is read as its content at one moment.

  \<^bold>\<open>Across components.\<close> The theorem below says that the command line and the dashboard, which
  correlate the logs in two separate functions, build the same timeline.

  \<^bold>\<open>Not modelled.\<close> Embedded pages, scripts and styles (\<^verbatim>\<open>assets.go\<close>, \<^verbatim>\<open>pages.go\<close>, \<^verbatim>\<open>dashboard.html\<close>)
  are data; \<^verbatim>\<open>test/inject\<close> is a test tool; the shell hooks and units are no Go code. Starting
  goroutines and servers, sleeping, signals, creating the input monitor's log directory, detaching a
  browser, running \<^verbatim>\<open>nvidia-smi\<close>, and drawing on the terminal are the host's part. Commands whose
  output the command line tool only reads are questions to the host and leave no operation in the
  trace.
\<close>

section \<open>Across components\<close>

text \<open>A row of the dashboard's report as a line of the command's timeline.\<close>

definition item_of :: "reportRow \<Rightarrow> reportItem" where
  "item_of row = mk_item (rr_ts row) (rr_tag row) (rr_detail row)"

lemma item_rows:
  "buf_item l = map_option item_of (buf_row l)" "exec_item t l = map_option item_of (exec_row t l)"
  "key_item t l = map_option item_of (key_row t l)"
  by (auto simp: buf_item_def buf_row_def exec_item_def exec_row_def key_item_def key_row_def item_of_def mk_row_def
      mk_item_def Let_def option.map_comp comp_def split: option.splits)

lemma map_filter_items: "List.map_filter (\<lambda>l. map_option item_of (f l)) ls = map item_of (List.map_filter f ls)"
  by (induction ls) (auto split: option.splits)

lemma last_of_keep_last: "0 \<le> n \<Longrightarrow> last_of n xs = Some (WebData.keep_last n xs)"
  by (auto simp: last_of_def keep_last_def last_n_def)

text \<open>
  C40: On the same lines of the three logs the report command and the dashboard correlate alike: for
  every number of prompts that is not negative the command builds the dashboard's rows in the
  dashboard's order, and for a negative number, which the dashboard never asks for, it panics.
\<close>

theorem timeline_is_dashboard_report:
  "build_items n buf cmd keys = (if n < 0 then None else Some (map item_of (report_rows n buf cmd keys)))"
proof (cases "n < 0")
  case True
  then show ?thesis by (simp add: build_items_panics)
next
  case False
  have ts: "ri_ts (item_of row) = rr_ts row" for row by (simp add: item_of_def mk_item_def)
  have sort: "SliceStable item_less (map item_of xs) = map item_of (SliceStable report_less xs)" for xs
    by (rule SliceStable_map) (simp add: item_less_def report_less_def ts)
  let ?bufs = "keep_last n (List.map_filter buf_row buf)"
  have rows: "List.map_filter buf_item buf = map item_of (List.map_filter buf_row buf)"
    "List.map_filter (exec_item t) cmd = map item_of (List.map_filter (exec_row t) cmd)"
    "List.map_filter (key_item t) keys = map item_of (List.map_filter (key_row t) keys)" for t
    unfolding map_filter_items [symmetric] by (simp_all add: item_rows [abs_def])
  have "last_of n (List.map_filter buf_item buf) = Some (map item_of ?bufs)"
    using False by (simp add: last_of_keep_last rows keep_last_def last_n_def drop_map)
  then show ?thesis
    using False by (simp add: build_items_def report_rows_def Let_def rows hd_map ts sort [symmetric])
qed

end
